(* ===== verification/Honryu_Prelude.thy ===== *)
theory Honryu_Prelude
  imports Main "HOL-Library.AList" "HOL-Library.Char_ord" "HOL-Library.List_Lexorder"
    "HOL-Library.Product_Lexorder" "HOL-Library.Multiset"
begin

text \<open>
  What the components share: Go's 64-bit integers, instants and durations, Go maps, and the
  shape of an operation that reads and writes state and may return an error, with the rules
  that carry invariants through such operations.
\<close>

section \<open>Collections of facts\<close>

named_theorems keeps_rules \<open>rules that compose preservation of an invariant\<close>
named_theorems act_simps \<open>how the steps of an operation run\<close>
named_theorems gomap_simps \<open>lookups after updates of a Go map\<close>

section \<open>Machine integers\<close>

text \<open>
  Go's \<open>int\<close> and \<open>int64\<close> are 64-bit two's complement and wrap silently. A value is an
  \<open>int\<close>; \<open>i64\<close> reduces the result of an arithmetic operation to its 64 bits.
\<close>

definition i64 :: "int \<Rightarrow> int" where
  "i64 x = signed_take_bit 63 x"

definition in_i64 :: "int \<Rightarrow> bool" where
  "in_i64 x \<longleftrightarrow> - (2 ^ 63) \<le> x \<and> x < 2 ^ 63"

text \<open>Go's integer division truncates towards zero and its remainder takes the dividend's sign.\<close>

definition go_div :: "int \<Rightarrow> int \<Rightarrow> int" where
  "go_div a b = sgn a * sgn b * (\<bar>a\<bar> div \<bar>b\<bar>)"

definition go_mod :: "int \<Rightarrow> int \<Rightarrow> int" where
  "go_mod a b = sgn a * (\<bar>a\<bar> mod \<bar>b\<bar>)"

fun sum64 :: "int list \<Rightarrow> int \<Rightarrow> int" where
  "sum64 [] acc = acc"
| "sum64 (x # xs) acc = sum64 xs (i64 (acc + x))"

section \<open>Instants and durations\<close>

text \<open>
  A \<open>time.Time\<close> is an instant, in nanoseconds since Go's zero time, so that \<open>IsZero\<close> is
  equality with 0; a \<open>time.Duration\<close> is a number of nanoseconds.
\<close>

type_synonym time = int
type_synonym duration = int

definition seconds :: "int \<Rightarrow> duration" where
  "seconds n = n * 1000000000"

section \<open>Go maps\<close>

text \<open>
  A Go map is an association list with distinct keys; the order of the list is one order
  \<open>range\<close> may visit the entries in, and a theorem about every such list is a theorem about
  every order.
\<close>

type_synonym ('k, 'v) gomap = "('k \<times> 'v) list"

definition mput :: "'k \<Rightarrow> 'v \<Rightarrow> ('k, 'v) gomap \<Rightarrow> ('k, 'v) gomap" where
  "mput k v m = AList.update k v m"

definition mdel :: "'k \<Rightarrow> ('k, 'v) gomap \<Rightarrow> ('k, 'v) gomap" where
  "mdel k m = AList.delete k m"

definition mvals :: "('k, 'v) gomap \<Rightarrow> 'v list" where
  "mvals m = map snd m"

definition mkeys :: "('k, 'v) gomap \<Rightarrow> 'k list" where
  "mkeys m = map fst m"

definition mget :: "('k, 'v) gomap \<Rightarrow> 'k \<Rightarrow> 'v option" where
  "mget m k = map_of m k"

definition mget_or :: "'v \<Rightarrow> ('k, 'v) gomap \<Rightarrow> 'k \<Rightarrow> 'v" where
  "mget_or d m k = (case mget m k of None \<Rightarrow> d | Some v \<Rightarrow> v)"

definition wf_map :: "('k, 'v) gomap \<Rightarrow> bool" where
  "wf_map m \<longleftrightarrow> distinct (map fst m)"

section \<open>Operations\<close>

text \<open>
  An operation takes the state and returns either an error or a value, and the state it left:
  Go returns an error beside the effects already made.
\<close>

type_synonym ('e, 's, 'a) act = "'s \<Rightarrow> ('e + 'a) \<times> 's"

definition ret :: "'a \<Rightarrow> ('e, 's, 'a) act" where
  "ret x s = (Inr x, s)"

definition fail :: "'e \<Rightarrow> ('e, 's, 'a) act" where
  "fail e s = (Inl e, s)"

text \<open>\<open>x, err := m(); if err != nil { return err }; k(x)\<close>\<close>

definition call :: "('e, 's, 'a) act \<Rightarrow> ('a \<Rightarrow> ('e, 's, 'b) act) \<Rightarrow> ('e, 's, 'b) act" where
  "call m k s = (case m s of (Inl e, s') \<Rightarrow> (Inl e, s') | (Inr x, s') \<Rightarrow> k x s')"

text \<open>\<open>x, err := m(); k(x, err)\<close>: the caller looks at the error itself.\<close>

definition attempt :: "('e, 's, 'a) act \<Rightarrow> ('e + 'a \<Rightarrow> ('f, 's, 'b) act) \<Rightarrow> ('f, 's, 'b) act" where
  "attempt m k s = (case m s of (r, s') \<Rightarrow> k r s')"

text \<open>\<open>_ = m(); k\<close>: the error is dropped, the effects stay.\<close>

definition besteffort :: "('f, 's, 'a) act \<Rightarrow> ('e, 's, 'b) act \<Rightarrow> ('e, 's, 'b) act" where
  "besteffort m k s = k (snd (m s))"

text \<open>A pure check that returns an error or nil.\<close>

definition check :: "'e option \<Rightarrow> ('e, 's, unit) act" where
  "check c s = (case c of None \<Rightarrow> (Inr (), s) | Some e \<Rightarrow> (Inl e, s))"

definition readst :: "('s \<Rightarrow> 'a) \<Rightarrow> ('e, 's, 'a) act" where
  "readst f s = (Inr (f s), s)"

definition modify :: "('s \<Rightarrow> 's) \<Rightarrow> ('e, 's, unit) act" where
  "modify f s = (Inr (), f s)"

text \<open>A loop over a slice that returns at the first error.\<close>

fun foreach :: "'a list \<Rightarrow> ('a \<Rightarrow> ('e, 's, unit) act) \<Rightarrow> ('e, 's, unit) act" where
  "foreach [] f = ret ()"
| "foreach (x # xs) f = call (f x) (\<lambda>_. foreach xs f)"

text \<open>A wrapped error: the operation, with its error passed through \<open>w\<close>.\<close>

definition wrap_err :: "('e \<Rightarrow> 'f) \<Rightarrow> ('e, 's, 'a) act \<Rightarrow> ('f, 's, 'a) act" where
  "wrap_err w m s = (case m s of (Inl e, s') \<Rightarrow> (Inl (w e), s') | (Inr x, s') \<Rightarrow> (Inr x, s'))"

text \<open>The operation keeps the invariant, whether it returns an error or a value.\<close>

definition keeps :: "('s \<Rightarrow> bool) \<Rightarrow> ('e, 's, 'a) act \<Rightarrow> bool" where
  "keeps I m \<longleftrightarrow> (\<forall>s. I s \<longrightarrow> I (snd (m s)))"

section \<open>Lemmas on integers\<close>

lemma i64_id [simp]: "in_i64 x \<Longrightarrow> i64 x = x"
  by (simp add: i64_def in_i64_def signed_take_bit_int_eq_self_iff)

lemma in_i64_i64 [simp]: "in_i64 (i64 x)"
  unfolding i64_def in_i64_def
  using signed_take_bit_int_greater_eq_minus_exp[of 63 x] signed_take_bit_int_less_exp[of 63 x]
  by simp

lemma i64_add_left: "i64 (i64 a + b) = i64 (a + b)"
  unfolding i64_def by (metis signed_take_bit_add signed_take_bit_signed_take_bit min.idem)

lemma i64_add_right: "i64 (a + i64 b) = i64 (a + b)"
  using i64_add_left[of b a] by (simp add: add.commute)

lemma sum64_eq: "sum64 xs (i64 acc) = i64 (acc + sum_list xs)"
  by (induction xs arbitrary: acc) (simp_all add: i64_add_left add.assoc)

lemma sum64_0: "sum64 xs 0 = i64 (sum_list xs)"
  using sum64_eq[of xs 0] by (simp add: i64_def)

lemma go_div_nonneg: "0 \<le> a \<Longrightarrow> 0 < b \<Longrightarrow> go_div a b = a div b"
  by (cases "a = 0") (auto simp: go_div_def sgn_if)

lemma go_mod_nonneg: "0 \<le> a \<Longrightarrow> 0 < b \<Longrightarrow> go_mod a b = a mod b"
  by (cases "a = 0") (auto simp: go_mod_def sgn_if)

lemma go_div_mod: "go_div a b * b + go_mod a b = a"
proof -
  have "sgn b * b = \<bar>b\<bar>" by (simp add: sgn_if abs_if)
  then have "go_div a b * b = sgn a * (\<bar>a\<bar> div \<bar>b\<bar> * \<bar>b\<bar>)"
    by (simp add: go_div_def mult.assoc mult.left_commute)
  then have "go_div a b * b + go_mod a b = sgn a * (\<bar>a\<bar> div \<bar>b\<bar> * \<bar>b\<bar> + \<bar>a\<bar> mod \<bar>b\<bar>)"
    by (simp only: go_mod_def distrib_left)
  also have "\<dots> = sgn a * \<bar>a\<bar>" by simp
  finally show ?thesis by (simp add: sgn_if abs_if split: if_splits)
qed

section \<open>Lemmas on Go maps\<close>

lemma mget_mput [simp, gomap_simps]: "mget (mput k v m) k' = (if k' = k then Some v else mget m k')"
  by (simp add: mget_def mput_def update_conv)

lemma mget_mdel [simp, gomap_simps]: "mget (mdel k m) k' = (if k' = k then None else mget m k')"
  by (simp add: mget_def mdel_def delete_conv)

lemma mget_Nil [simp]: "mget [] k = None"
  by (simp add: mget_def)

lemma mget_Cons: "mget ((k', v) # m) k = (if k = k' then Some v else mget m k)"
  by (simp add: mget_def)

lemma wf_map_Nil [simp]: "wf_map []"
  by (simp add: wf_map_def)

lemma wf_map_mput [simp]: "wf_map m \<Longrightarrow> wf_map (mput k v m)"
  by (simp add: wf_map_def mput_def distinct_update)

lemma wf_map_mdel [simp]: "wf_map m \<Longrightarrow> wf_map (mdel k m)"
  by (simp add: wf_map_def mdel_def distinct_delete)

lemma wf_map_filter [simp]: "wf_map m \<Longrightarrow> wf_map (filter P m)"
  by (simp add: wf_map_def distinct_map_filter)

lemma mget_SomeD: "mget m k = Some v \<Longrightarrow> (k, v) \<in> set m"
  by (simp add: mget_def map_of_SomeD)

lemma mget_in_set: "wf_map m \<Longrightarrow> mget m k = Some v \<longleftrightarrow> (k, v) \<in> set m"
  by (simp add: mget_def wf_map_def)

lemma mget_None_iff: "mget m k = None \<longleftrightarrow> k \<notin> fst ` set m"
  by (simp add: mget_def map_of_eq_None_iff)

lemma in_mvals: "wf_map m \<Longrightarrow> v \<in> set (mvals m) \<longleftrightarrow> (\<exists>k. mget m k = Some v)"
  by (force simp: mvals_def mget_in_set image_iff)

lemma in_mkeys: "k \<in> set (mkeys m) \<longleftrightarrow> mget m k \<noteq> None"
  by (auto simp: mkeys_def mget_None_iff)

lemma mput_fresh: "mget m k = None \<Longrightarrow> mput k v m = m @ [(k, v)]"
  by (induction m) (auto simp: mput_def mget_def split: if_splits)

lemma mdel_filter: "mdel k m = filter (\<lambda>(k', _). k' \<noteq> k) m"
  by (induction m) (auto simp: mdel_def)

lemma mdel_absent: "mget m k = None \<Longrightarrow> mdel k m = m"
  by (force simp: mdel_filter mget_None_iff filter_id_conv)

lemma mkeys_mput: "set (mkeys (mput k v m)) = insert k (set (mkeys m))"
  by (auto simp: in_mkeys split: if_splits)

text \<open>Two maps with the same entries, each visited in its own order, are permutations.\<close>

lemma gomap_same_entries:
  assumes "wf_map m" "wf_map m'" "\<And>k. mget m k = mget m' k"
  shows "mset m = mset m'"
proof -
  have "set m = set m'" using assms by (auto simp flip: mget_in_set)
  moreover have "distinct m" "distinct m'" using assms(1,2) by (auto simp: wf_map_def distinct_map)
  ultimately show ?thesis by (simp add: set_eq_iff_mset_eq_distinct)
qed

section \<open>Lemmas on operations\<close>

lemma call_ret [simp, act_simps]: "call (ret x) k = k x"
  by (simp add: call_def ret_def fun_eq_iff)

lemma call_fail [simp, act_simps]: "call (fail e) k = fail e"
  by (simp add: call_def fail_def fun_eq_iff)

lemma call_Inl [act_simps]: "m s = (Inl e, s') \<Longrightarrow> call m k s = (Inl e, s')"
  by (simp add: call_def)

lemma call_Inr [act_simps]: "m s = (Inr x, s') \<Longrightarrow> call m k s = k x s'"
  by (simp add: call_def)

lemma call_assoc: "call (call m k) h = call m (\<lambda>x. call (k x) h)"
  by (auto simp: call_def fun_eq_iff split: prod.splits sum.splits)

lemma attempt_eq [act_simps]: "m s = (r, s') \<Longrightarrow> attempt m k s = k r s'"
  by (simp add: attempt_def)

lemma call_InrE:
  assumes "call m k s = (Inr y, s')"
  obtains x s1 where "m s = (Inr x, s1)" "k x s1 = (Inr y, s')"
  using assms by (auto simp: call_def split: prod.splits sum.splits)

lemma call_unitE:
  assumes "call (m :: ('e, 's, unit) act) (\<lambda>_. k) s = (Inr y, s')"
  obtains s1 where "m s = (Inr (), s1)" "k s1 = (Inr y, s')"
  using assms by (auto simp: call_def split: prod.splits sum.splits)

lemma call_InlE:
  assumes "call m k s = (Inl e, s')"
  obtains "m s = (Inl e, s')" | x s1 where "m s = (Inr x, s1)" "k x s1 = (Inl e, s')"
  using assms by (auto simp: call_def split: prod.splits sum.splits)

lemma check_simps [simp, act_simps]: "check None = ret ()" "check (Some e) = fail e"
  by (simp_all add: check_def ret_def fail_def fun_eq_iff)

lemma call_readst [simp, act_simps]: "call (readst f) k s = k (f s) s"
  by (simp add: call_def readst_def)

lemma call_modify [simp, act_simps]: "call (modify f) k s = k () (f s)"
  by (simp add: call_def modify_def)

lemma check_InrD: "check c s = (Inr x, s') \<Longrightarrow> c = None \<and> s' = s"
  by (auto simp: check_def split: option.splits)

lemma foreach_append: "foreach (xs @ ys) f = call (foreach xs f) (\<lambda>_. foreach ys f)"
  by (induction xs) (simp_all add: call_assoc)

lemma keepsI: "(\<And>s. I s \<Longrightarrow> I (snd (m s))) \<Longrightarrow> keeps I m"
  by (simp add: keeps_def)

lemma keepsD: "keeps I m \<Longrightarrow> I s \<Longrightarrow> m s = (r, s') \<Longrightarrow> I s'"
  by (force simp: keeps_def)

lemma keeps_ret [keeps_rules]: "keeps I (ret x)"
  by (simp add: keeps_def ret_def)

lemma keeps_fail [keeps_rules]: "keeps I (fail e)"
  by (simp add: keeps_def fail_def)

lemma keeps_check [keeps_rules]: "keeps I (check c)"
  by (cases c) (simp_all add: keeps_ret keeps_fail)

lemma keeps_readst [keeps_rules]: "keeps I (readst f)"
  by (simp add: keeps_def readst_def)

lemma keeps_modify: "(\<And>s. I s \<Longrightarrow> I (f s)) \<Longrightarrow> keeps I (modify f)"
  by (simp add: keeps_def modify_def)

lemma keeps_call [keeps_rules]: "keeps I m \<Longrightarrow> (\<And>x. keeps I (k x)) \<Longrightarrow> keeps I (call m k)"
  by (fastforce simp: keeps_def call_def split: prod.splits sum.splits)

lemma keeps_attempt [keeps_rules]: "keeps I m \<Longrightarrow> (\<And>r. keeps I (k r)) \<Longrightarrow> keeps I (attempt m k)"
  by (fastforce simp: keeps_def attempt_def split: prod.splits)

lemma keeps_besteffort [keeps_rules]: "keeps I m \<Longrightarrow> keeps I k \<Longrightarrow> keeps I (besteffort m k)"
  by (simp add: keeps_def besteffort_def)

lemma keeps_wrap_err [keeps_rules]: "keeps I m \<Longrightarrow> keeps I (wrap_err w m)"
  by (fastforce simp: keeps_def wrap_err_def split: prod.splits sum.splits)

lemma keeps_foreach [keeps_rules]: "(\<And>x. x \<in> set xs \<Longrightarrow> keeps I (f x)) \<Longrightarrow> keeps I (foreach xs f)"
  by (induction xs) (auto intro!: keeps_rules)

lemma keeps_if [keeps_rules]: "(b \<Longrightarrow> keeps I m) \<Longrightarrow> (\<not> b \<Longrightarrow> keeps I n) \<Longrightarrow> keeps I (if b then m else n)"
  by simp

lemma keeps_case_option [keeps_rules]:
  "(c = None \<Longrightarrow> keeps I m) \<Longrightarrow> (\<And>x. c = Some x \<Longrightarrow> keeps I (f x)) \<Longrightarrow> keeps I (case c of None \<Rightarrow> m | Some x \<Rightarrow> f x)"
  by (cases c) auto

lemma keeps_case_sum [keeps_rules]:
  "(\<And>e. r = Inl e \<Longrightarrow> keeps I (f e)) \<Longrightarrow> (\<And>x. r = Inr x \<Longrightarrow> keeps I (g x)) \<Longrightarrow> keeps I (case r of Inl e \<Rightarrow> f e | Inr x \<Rightarrow> g x)"
  by (cases r) auto

section \<open>Composing states\<close>

text \<open>
  An operation of a part, run on the whole: \<open>get\<close> reads the part out of the state and \<open>put\<close>
  writes it back.
\<close>

definition zoom :: "('w \<Rightarrow> 's) \<Rightarrow> ('s \<Rightarrow> 'w \<Rightarrow> 'w) \<Rightarrow> ('e, 's, 'a) act \<Rightarrow> ('e, 'w, 'a) act" where
  "zoom get put m w = (case m (get w) of (r, s) \<Rightarrow> (r, put s w))"

lemma zoom_eq [act_simps]: "m (get w) = (r, s) \<Longrightarrow> zoom get put m w = (r, put s w)"
  by (simp add: zoom_def)

lemma zoom_snd: "snd (zoom get put m w) = put (snd (m (get w))) w"
  by (simp add: zoom_def split: prod.split)

lemma keeps_zoom:
  assumes "keeps I m" "\<And>s w. get (put s w) = s"
  shows "keeps (\<lambda>w. I (get w)) (zoom get put m)"
  using assms by (simp add: keeps_def zoom_snd)

lemma keeps_zoom_other:
  assumes "\<And>s w. J (put s w) = J w"
  shows "keeps J (zoom get put m)"
  using assms by (simp add: keeps_def zoom_snd)

end
