(* ===== verification/Go_Float.thy ===== *)
theory Go_Float
  imports Complex_Main "HOL-Library.Log_Nat"
begin

text \<open>
  Go's float64 arithmetic. A finite float64 is the rational number it denotes; an arithmetic
  operation is the exact result rounded to the nearest number with a 53-bit significand, ties
  to even, as IEEE 754 and the Go specification ask. The exponent is unbounded: overflow to
  infinity, subnormals, negative zero and NaN have no counterpart here. The lemmas are what
  the components need of rounding: it is monotone, exact on floats, off by at most one part
  in \<open>2 ^ 53\<close>, and it restores an integer that a slightly larger value came from.
\<close>

section \<open>Definitions\<close>

text \<open>The binary exponent: \<open>2 powi (ilog2 x) \<le> \<bar>x\<bar> < 2 powi (ilog2 x + 1)\<close>.\<close>

definition ilog2 :: "rat \<Rightarrow> int" where
  "ilog2 x = (let (a, b) = quotient_of \<bar>x\<bar>; k = bitlen a - bitlen b
              in if 2 powi k \<le> \<bar>x\<bar> then k else k - 1)"

text \<open>Nearest integer, ties to even.\<close>

definition round_even :: "rat \<Rightarrow> int" where
  "round_even x = (let n = \<lfloor>x\<rfloor>; d = x - of_int n
     in if d < 1 / 2 then n else if 1 / 2 < d then n + 1 else if even n then n else n + 1)"

text \<open>Nearest float64.\<close>

definition rnd64 :: "rat \<Rightarrow> rat" where
  "rnd64 x = (if x = 0 then 0
           else let e = ilog2 x - 52 in of_int (round_even (x / 2 powi e)) * 2 powi e)"

definition is_f64 :: "rat \<Rightarrow> bool" where
  "is_f64 x \<longleftrightarrow> (\<exists>m e. \<bar>m\<bar> \<le> 2 ^ 53 \<and> x = of_int m * 2 powi e)"

text \<open>The nearest integer to \<open>a / b\<close>, ties to even.\<close>

definition qround :: "int \<Rightarrow> int \<Rightarrow> int" where
  "qround a b = (let q = a div b; r = a mod b in
     if 2 * r < b then q else if b < 2 * r then q + 1 else if even q then q else q + 1)"

definition fadd :: "rat \<Rightarrow> rat \<Rightarrow> rat" where "fadd x y = rnd64 (x + y)"
definition fsub :: "rat \<Rightarrow> rat \<Rightarrow> rat" where "fsub x y = rnd64 (x - y)"
definition fmul :: "rat \<Rightarrow> rat \<Rightarrow> rat" where "fmul x y = rnd64 (x * y)"
definition fdiv :: "rat \<Rightarrow> rat \<Rightarrow> rat" where "fdiv x y = rnd64 (x / y)"

text \<open>The conversions \<open>float64(n)\<close> and \<open>int(x)\<close> (which truncates), \<open>math.Round\<close> (ties away
  from zero) and \<open>math.Ceil\<close>.\<close>

definition f64_of_int :: "int \<Rightarrow> rat" where
  "f64_of_int n = rnd64 (of_int n)"

definition int_of_f64 :: "rat \<Rightarrow> int" where
  "int_of_f64 x = (if 0 \<le> x then \<lfloor>x\<rfloor> else \<lceil>x\<rceil>)"

definition math_round :: "rat \<Rightarrow> rat" where
  "math_round x = (if 0 \<le> x then of_int \<lfloor>x + 1 / 2\<rfloor> else of_int \<lceil>x - 1 / 2\<rceil>)"

definition math_ceil :: "rat \<Rightarrow> rat" where
  "math_ceil x = of_int \<lceil>x\<rceil>"

text \<open>An integer check that the rounded share of  \<open>n\<close> exceeds \<open>j / n\<close> by at most one part
  in \<open>2 ^ 54\<close>: the power of two that brings \<open>j / n\<close>, for \<open>1 \<le> j \<le> n \<le> 10\<close>, to 53 significant bits.\<close>

definition share_scale :: "int \<Rightarrow> int \<Rightarrow> nat" where
  "share_scale j n = (if n \<le> j then 52 else if n \<le> 2 * j then 53 else if n \<le> 4 * j then 54
     else if n \<le> 8 * j then 55 else 56)"

definition share_ok :: "int \<Rightarrow> int \<Rightarrow> bool" where
  "share_ok j n = (let a = j * 2 ^ share_scale j n in
     4503599627370496 * n \<le> a \<and> a < 9007199254740992 * n \<and>
     qround a n * n * 18014398509481984 \<le> a * 18014398509481985)"

section \<open>Rounding\<close>

lemma bitlen_pow_bounds:
  assumes "0 < a"
  shows "(2::rat) powi (bitlen a - 1) \<le> of_int a" "of_int a < (2::rat) powi (bitlen a)"
proof -
  have b: "2 ^ nat (bitlen a - 1) \<le> a" "a < 2 ^ nat (bitlen a)"
    using bitlen_bounds[OF assms] by auto
  have p: "0 \<le> bitlen a - 1" using assms by (simp add: bitlen_def compute_floorlog)
  have "(of_int (2 ^ nat (bitlen a - 1)) :: rat) \<le> of_int a" using b(1) by (simp only: of_int_le_iff)
  then show "(2::rat) powi (bitlen a - 1) \<le> of_int a" using p by (simp add: power_int_def)
  have "(of_int a :: rat) < of_int (2 ^ nat (bitlen a))" using b(2) by (simp only: of_int_less_iff)
  then show "of_int a < (2::rat) powi (bitlen a)" using p by (simp add: power_int_def)
qed

lemma ilog2_bounds:
  assumes "x \<noteq> 0"
  shows "2 powi (ilog2 x) \<le> \<bar>x\<bar>" "\<bar>x\<bar> < 2 powi (ilog2 x + 1)"
proof -
  obtain a b where q: "quotient_of \<bar>x\<bar> = (a, b)" by (cases "quotient_of \<bar>x\<bar>")
  have b: "0 < b" using quotient_of_denom_pos[OF q] .
  have x: "\<bar>x\<bar> = of_int a / of_int b" using quotient_of_div[OF q] .
  have a: "0 < a" using assms x b
    by (metis abs_0_eq div_by_0 less_le of_int_0 of_int_pos of_int_less_0_iff divide_neg_pos abs_not_less_zero linorder_neqE_linordered_idom div_0)
  define k where "k = bitlen a - bitlen b"
  note A = bitlen_pow_bounds[OF a] and B = bitlen_pow_bounds[OF b]
  have lo: "2 powi (k - 1) \<le> \<bar>x\<bar>"
  proof -
    have "(2::rat) powi (k - 1) * of_int b \<le> 2 powi (k - 1) * 2 powi (bitlen b)"
      using B(2) by (intro mult_left_mono) auto
    also have "\<dots> = 2 powi (bitlen a - 1)" by (simp add: k_def flip: power_int_add)
    also have "\<dots> \<le> of_int a" by (rule A)
    finally show ?thesis using b by (simp add: x pos_le_divide_eq)
  qed
  have hi: "\<bar>x\<bar> < 2 powi (k + 1)"
  proof -
    have "of_int a < (2::rat) powi (bitlen a)" by (rule A)
    also have "\<dots> = 2 powi (k + 1) * 2 powi (bitlen b - 1)" by (simp add: k_def flip: power_int_add)
    also have "\<dots> \<le> 2 powi (k + 1) * of_int b" using B(1) by (intro mult_left_mono) auto
    finally show ?thesis using b by (simp add: x pos_divide_less_eq)
  qed
  have il: "ilog2 x = (if 2 powi k \<le> \<bar>x\<bar> then k else k - 1)"
    by (simp add: ilog2_def q k_def Let_def)
  show "2 powi (ilog2 x) \<le> \<bar>x\<bar>" "\<bar>x\<bar> < 2 powi (ilog2 x + 1)"
    using lo hi by (auto simp: il)
qed

lemma round_even_of_int [simp]: "round_even (of_int n) = n"
  by (simp add: round_even_def)

lemma round_even_near: "\<bar>of_int (round_even x) - x\<bar> \<le> 1 / 2"
proof -
  have "of_int \<lfloor>x\<rfloor> \<le> x" "x < of_int \<lfloor>x\<rfloor> + 1" by (auto simp: floor_less_cancel)
  then show ?thesis by (auto simp: round_even_def Let_def abs_le_iff)
qed

lemma round_even_mono: "x \<le> y \<Longrightarrow> round_even x \<le> round_even y"
proof -
  assume xy: "x \<le> y"
  have fl: "\<lfloor>x\<rfloor> \<le> \<lfloor>y\<rfloor>" using xy by (rule floor_mono)
  show ?thesis
  proof (cases "\<lfloor>x\<rfloor> = \<lfloor>y\<rfloor>")
    case True
    then show ?thesis using xy by (auto simp: round_even_def Let_def)
  next
    case False
    then have "\<lfloor>x\<rfloor> + 1 \<le> \<lfloor>y\<rfloor>" using fl by simp
    moreover have "round_even x \<le> \<lfloor>x\<rfloor> + 1" "\<lfloor>y\<rfloor> \<le> round_even y"
      by (auto simp: round_even_def Let_def)
    ultimately show ?thesis by linarith
  qed
qed
lemma is_f64_0 [simp]: "is_f64 0"
  by (auto simp: is_f64_def intro!: exI[of _ 0])

lemma is_f64_of_int: "\<bar>n\<bar> \<le> 2 ^ 53 \<Longrightarrow> is_f64 (of_int n)"
  unfolding is_f64_def by (intro exI[of _ n] exI[of _ 0]) auto

lemma rnd64_0 [simp]: "rnd64 0 = 0"
  by (simp add: rnd64_def)

lemma rnd64_split:
  assumes "x \<noteq> 0"
  obtains e where "2 ^ 52 * 2 powi e \<le> \<bar>x\<bar>" "\<bar>x\<bar> < 2 ^ 53 * 2 powi e"
    "rnd64 x = of_int (round_even (x / 2 powi e)) * 2 powi e" "e = ilog2 x - 52"
proof
  define e where "e = ilog2 x - 52"
  show "2 ^ 52 * 2 powi (ilog2 x - 52) \<le> \<bar>x\<bar>"
    using ilog2_bounds(1)[OF assms] power_int_add[of "2::rat" 52 "ilog2 x - 52"] by simp
  show "\<bar>x\<bar> < 2 ^ 53 * 2 powi (ilog2 x - 52)"
    using ilog2_bounds(2)[OF assms] power_int_add[of "2::rat" 53 "ilog2 x - 52"]
    by (simp add: add.commute)
  show "rnd64 x = of_int (round_even (x / 2 powi (ilog2 x - 52))) * 2 powi (ilog2 x - 52)"
    using assms by (simp add: rnd64_def Let_def)
qed simp

lemma round_even_bound: "\<bar>x\<bar> \<le> of_int n \<Longrightarrow> \<bar>round_even x\<bar> \<le> n"
  using round_even_mono[of x "of_int n"] round_even_mono[of "of_int (- n)" x]
  by (simp add: abs_le_iff del: of_int_minus)

lemma is_f64_rnd64 [simp]: "is_f64 (rnd64 x)"
proof (cases "x = 0")
  case False
  then obtain e where e: "\<bar>x\<bar> < 2 ^ 53 * 2 powi e"
    "rnd64 x = of_int (round_even (x / 2 powi e)) * 2 powi e" by (rule rnd64_split)
  have "\<bar>x / 2 powi e\<bar> \<le> of_int (2 ^ 53)"
    using e(1) by (simp add: abs_divide pos_divide_le_eq)
  then have "\<bar>round_even (x / 2 powi e)\<bar> \<le> 2 ^ 53" by (rule round_even_bound)
  then show ?thesis unfolding is_f64_def e(2) by blast
qed simp

lemma rnd64_nonneg: "0 \<le> x \<Longrightarrow> 0 \<le> rnd64 x"
  using round_even_mono[of 0 "x / 2 powi (ilog2 x - 52)"] round_even_of_int[of 0]
  by (auto simp: rnd64_def Let_def)

lemma pow2_mono: "a \<le> b \<Longrightarrow> (2::rat) powi a \<le> 2 powi b"
  by (rule power_int_increasing) auto

lemma pow2_less_cancel: "(2::rat) powi a < 2 powi b \<Longrightarrow> a < b"
  by (metis not_le_imp_less pow2_mono not_less)

lemma rnd64_mono_pos:
  assumes "0 < x" "x \<le> y"
  shows "rnd64 x \<le> rnd64 y"
proof -
  from assms have "x \<noteq> 0" "y \<noteq> 0" by auto
  obtain e where e: "2 ^ 52 * 2 powi e \<le> \<bar>x\<bar>" "\<bar>x\<bar> < 2 ^ 53 * 2 powi e"
    "rnd64 x = of_int (round_even (x / 2 powi e)) * 2 powi e" using \<open>x \<noteq> 0\<close> by (rule rnd64_split)
  obtain f where f: "2 ^ 52 * 2 powi f \<le> \<bar>y\<bar>" "\<bar>y\<bar> < 2 ^ 53 * 2 powi f"
    "rnd64 y = of_int (round_even (y / 2 powi f)) * 2 powi f" using \<open>y \<noteq> 0\<close> by (rule rnd64_split)
  have "2 ^ 52 * 2 powi e < (2 ^ 53 * 2 powi f :: rat)" using e(1) f(2) assms by linarith
  then have "(2::rat) powi e < 2 powi (f + 1)" by (simp add: power_int_add)
  then have "e \<le> f" using pow2_less_cancel[of e "f + 1"] by simp
  show ?thesis
  proof (cases "e = f")
    case True
    have "round_even (x / 2 powi e) \<le> round_even (y / 2 powi f)"
      using assms True by (intro round_even_mono) (simp add: divide_right_mono)
    then show ?thesis using e(3) f(3) True by (simp add: mult_right_mono)
  next
    case False
    then have "e + 1 \<le> f" using \<open>e \<le> f\<close> by simp
    have "x / 2 powi e \<le> of_int (2 ^ 53)" using e(2) assms by (simp add: pos_divide_le_eq)
    then have "round_even (x / 2 powi e) \<le> 2 ^ 53"
      using round_even_mono[of "x / 2 powi e" "of_int (2 ^ 53)"] round_even_of_int[of "2 ^ 53"] by simp
    then have "of_int (round_even (x / 2 powi e)) \<le> (of_int (2 ^ 53) :: rat)" by (simp only: of_int_le_iff)
    then have "rnd64 x \<le> 2 ^ 53 * 2 powi e" using e(3) by (simp add: mult_right_mono)
    also have "\<dots> = 2 ^ 52 * 2 powi (e + 1)" by (simp add: power_int_add)
    also have "\<dots> \<le> 2 ^ 52 * 2 powi f" using pow2_mono[OF \<open>e + 1 \<le> f\<close>] by simp
    also have "\<dots> \<le> rnd64 y"
    proof -
      have "of_int (2 ^ 52) \<le> y / 2 powi f" using f(1) assms by (simp add: pos_le_divide_eq)
      then have "2 ^ 52 \<le> round_even (y / 2 powi f)"
        using round_even_mono[of "of_int (2 ^ 52)" "y / 2 powi f"] round_even_of_int[of "2 ^ 52"] by simp
      then have "(of_int (2 ^ 52) :: rat) \<le> of_int (round_even (y / 2 powi f))" by (simp only: of_int_le_iff)
      then show ?thesis using f(3) by (simp add: mult_right_mono)
    qed
    finally show ?thesis .
  qed
qed

lemma round_even_minus: "round_even (- x) = - round_even x"
proof (cases "x = of_int \<lfloor>x\<rfloor>")
  case True
  then show ?thesis by (metis of_int_minus round_even_of_int)
next
  case False
  then have "\<lfloor>- x\<rfloor> = - \<lfloor>x\<rfloor> - 1"
    by (simp add: floor_minus ceiling_altdef)
  then show ?thesis
    by (auto simp: round_even_def Let_def)
qed

lemma rnd64_minus: "rnd64 (- x) = - rnd64 x"
  by (simp add: rnd64_def Let_def ilog2_def round_even_minus flip: minus_divide_left)

lemma rnd64_mono: "x \<le> y \<Longrightarrow> rnd64 x \<le> rnd64 y"
proof -
  assume xy: "x \<le> y"
  consider "0 < x" | "x \<le> 0" "0 \<le> y" | "y < 0" using xy by linarith
  then show ?thesis
  proof cases
    case 1
    then show ?thesis using xy by (rule rnd64_mono_pos)
  next
    case 2
    then show ?thesis using rnd64_nonneg[of y] rnd64_nonneg[of "- x"] by (simp add: rnd64_minus)
  next
    case 3
    then show ?thesis using xy rnd64_mono_pos[of "- y" "- x"] by (simp add: rnd64_minus)
  qed
qed

lemma rnd64_exact: "is_f64 x \<Longrightarrow> rnd64 x = x"
proof (cases "x = 0")
  case False
  assume "is_f64 x"
  then obtain m d where m: "\<bar>m\<bar> \<le> 2 ^ 53" "x = of_int m * 2 powi d" by (auto simp: is_f64_def)
  obtain e where e: "2 ^ 52 * 2 powi e \<le> \<bar>x\<bar>" "\<bar>x\<bar> < 2 ^ 53 * 2 powi e"
    "rnd64 x = of_int (round_even (x / 2 powi e)) * 2 powi e" using False by (rule rnd64_split)
  have "\<exists>k. x = of_int k * 2 powi e"
  proof (cases "e \<le> d")
    case True
    then have "x = of_int (m * 2 ^ nat (d - e)) * 2 powi e"
      using m(2) power_int_add[of "2::rat" "d - e" e] by (simp add: power_int_def)
    then show ?thesis by blast
  next
    case False
    have "2 ^ 52 * 2 powi e \<le> (2 ^ 53 * 2 powi d :: rat)"
    proof -
      have "of_int \<bar>m\<bar> \<le> (of_int (2 ^ 53) :: rat)" using m(1) by (simp only: of_int_le_iff)
      then have "\<bar>x\<bar> \<le> 2 ^ 53 * 2 powi d" unfolding m(2) by (simp add: abs_mult mult_right_mono)
      then show ?thesis using e(1) by linarith
    qed
    then have "(2::rat) powi e \<le> 2 powi (d + 1)" by (simp add: power_int_add)
    then have "e \<le> d + 1" by (metis not_le power_int_strict_increasing one_less_numeral_iff semiring_norm(76))
    then have ed: "e = d + 1" using False by simp
    have "(2::rat) ^ 53 * 2 powi d \<le> \<bar>of_int m\<bar> * 2 powi d"
      using e(1) by (simp add: m(2) ed power_int_add abs_mult)
    then have "(of_int (2 ^ 53) :: rat) \<le> of_int \<bar>m\<bar>" by simp
    then have "2 ^ 53 \<le> \<bar>m\<bar>" by (simp only: of_int_le_iff)
    then have "\<bar>m\<bar> = 2 ^ 53" using m(1) by simp
    then have "m = 2 ^ 52 * 2 \<or> m = - (2 ^ 52) * 2" by auto
    then have "x = of_int (2 ^ 52) * 2 powi e \<or> x = of_int (- (2 ^ 52)) * 2 powi e"
      by (auto simp: m(2) ed power_int_add)
    then show ?thesis by blast
  qed
  then obtain k where "x = of_int k * 2 powi e" by blast
  then have "x / 2 powi e = of_int k" by simp
  then show ?thesis using e(3) \<open>x = of_int k * 2 powi e\<close> by simp
qed simp

lemma rnd64_of_int: "\<bar>n\<bar> \<le> 2 ^ 53 \<Longrightarrow> rnd64 (of_int n) = of_int n"
  by (rule rnd64_exact[OF is_f64_of_int])

lemma is_f64_scale: "is_f64 x \<Longrightarrow> is_f64 (x * 2 powi k)"
proof -
  assume "is_f64 x"
  then obtain m e where "\<bar>m\<bar> \<le> 2 ^ 53" "x = of_int m * 2 powi e" by (auto simp: is_f64_def)
  moreover from this have "x * 2 powi k = of_int m * 2 powi (e + k)" by (simp add: power_int_add)
  ultimately show ?thesis unfolding is_f64_def by blast
qed

lemma is_f64_double: "is_f64 x \<Longrightarrow> is_f64 (x * 2)"
  using is_f64_scale[of x 1] by simp

lemma is_f64_half: "is_f64 x \<Longrightarrow> is_f64 (x / 2)"
  using is_f64_scale[of x "-1"] by (simp add: field_simps power_int_minus)

lemma rnd64_le_f64: "is_f64 y \<Longrightarrow> x \<le> y \<Longrightarrow> rnd64 x \<le> y"
  using rnd64_mono[of x y] rnd64_exact[of y] by simp

lemma rnd64_ge_f64: "is_f64 y \<Longrightarrow> y \<le> x \<Longrightarrow> y \<le> rnd64 x"
  using rnd64_mono[of y x] rnd64_exact[of y] by simp

text \<open>The Sterbenz lemma: the difference of two floats within a factor of two is a float.\<close>

lemma is_f64_diff:
  assumes "is_f64 x" "is_f64 y" "y \<le> x" "x \<le> 2 * y"
  shows "is_f64 (x - y)"
proof -
  obtain m d where x: "\<bar>m\<bar> \<le> 2 ^ 53" "x = of_int m * 2 powi d" using assms(1) by (auto simp: is_f64_def)
  obtain n e where y: "\<bar>n\<bar> \<le> 2 ^ 53" "y = of_int n * 2 powi e" using assms(2) by (auto simp: is_f64_def)
  define f where "f = min d e"
  define k where "k = m * 2 ^ nat (d - f) - n * 2 ^ nat (e - f)"
  have p: "2 powi d = 2 ^ nat (d - f) * (2 powi f :: rat)" "2 powi e = 2 ^ nat (e - f) * (2 powi f :: rat)"
    using power_int_add[of "2::rat" "d - f" f] power_int_add[of "2::rat" "e - f" f]
    by (simp_all add: power_int_def f_def)
  have k: "x - y = of_int k * 2 powi f"
    by (simp add: x(2) y(2) k_def p algebra_simps)
  have nn: "0 \<le> x - y" "x - y \<le> y" "x - y \<le> x" using assms(3,4) by linarith+
  have "(0::rat) < 2 powi f" by simp
  then have "0 \<le> k" using nn(1) unfolding k by (simp add: zero_le_mult_iff not_le[symmetric])
  moreover have "k \<le> 2 ^ 53"
  proof (cases "d \<le> e")
    case True
    then have "f = d" by (simp add: f_def)
    then have "of_int k * (2::rat) powi f \<le> of_int m * 2 powi f" using nn(3) k x(2) by metis
    then have "(of_int k :: rat) \<le> of_int m" by simp
    then show ?thesis using x(1) by simp
  next
    case False
    then have "f = e" by (simp add: f_def)
    then have "of_int k * (2::rat) powi f \<le> of_int n * 2 powi f" using nn(2) k y(2) by metis
    then have "(of_int k :: rat) \<le> of_int n" by simp
    then show ?thesis using y(1) by simp
  qed
  ultimately show ?thesis unfolding is_f64_def using k by (intro exI[of _ k] exI[of _ f]) simp
qed

lemma rnd64_error: "\<bar>rnd64 x - x\<bar> \<le> \<bar>x\<bar> / 2 ^ 53"
proof (cases "x = 0")
  case False
  then obtain e where e: "2 ^ 52 * 2 powi e \<le> \<bar>x\<bar>"
    "rnd64 x = of_int (round_even (x / 2 powi e)) * 2 powi e" by (rule rnd64_split)
  have "rnd64 x - x = (of_int (round_even (x / 2 powi e)) - x / 2 powi e) * 2 powi e"
    by (simp add: e(2) algebra_simps)
  then have "\<bar>rnd64 x - x\<bar> = \<bar>of_int (round_even (x / 2 powi e)) - x / 2 powi e\<bar> * 2 powi e"
    by (simp add: abs_mult)
  also have "\<dots> \<le> 1 / 2 * 2 powi e" by (intro mult_right_mono round_even_near) simp
  also have "\<dots> \<le> \<bar>x\<bar> / 2 ^ 53" using e(1) by simp
  finally show ?thesis .
qed simp


lemma ilog2_unique:
  assumes "2 powi e \<le> \<bar>x\<bar>" "\<bar>x\<bar> < 2 powi (e + 1)"
  shows "ilog2 x = e"
proof -
  have "(0::rat) < 2 powi e" by simp
  then have "x \<noteq> 0" using assms(1) by (metis abs_zero not_le)
  note B = ilog2_bounds[OF this]
  have "e < ilog2 x + 1" using assms(1) B(2) by (intro pow2_less_cancel) linarith
  moreover have "ilog2 x < e + 1" using assms(2) B(1) by (intro pow2_less_cancel) linarith
  ultimately show ?thesis by simp
qed

text \<open>A value at most one part in \<open>2 ^ 54\<close> above an integer rounds to that integer.\<close>

lemma rnd64_snap:
  assumes n: "0 < n" "n \<le> 2 ^ 53" and x: "of_int n \<le> x" "x \<le> of_int n * (1 + 1 / 2 ^ 54)"
  shows "rnd64 x = of_int n"
proof -
  have n0: "(of_int n :: rat) \<noteq> 0" "\<bar>of_int n :: rat\<bar> = of_int n" using n by auto
  obtain e where e: "2 ^ 52 * 2 powi e \<le> (of_int n :: rat)" "of_int n < (2 ^ 53 * 2 powi e :: rat)"
    "rnd64 (of_int n) = of_int (round_even (of_int n / 2 powi e)) * 2 powi e"
    "e = ilog2 (of_int n) - 52"
    using rnd64_split[OF n0(1)] n0(2) by metis
  define k where "k = round_even (of_int n / 2 powi e)"
  have nk: "of_int n = of_int k * (2 powi e :: rat)"
    using e(3) rnd64_of_int[of n] n by (simp add: k_def)
  have pe: "(0::rat) < 2 powi e" by simp
  have "of_int k < (2::rat) ^ 53" using e(2) nk pe by simp
  then have "(of_int k :: rat) < of_int (2 ^ 53)" by simp
  then have "k \<le> 2 ^ 53 - 1" by (simp only: of_int_less_iff)
  then have "(of_int k :: rat) \<le> of_int (2 ^ 53 - 1)" by (simp only: of_int_le_iff)
  then have nb: "of_int n \<le> (2 ^ 53 - 1) * (2 powi e :: rat)" unfolding nk using pe by simp
  have gap: "x < of_int n + 2 powi e / 2"
    using x(2) e(2) by (simp add: algebra_simps)
  have "of_int n + 2 powi e \<le> 2 ^ 53 * (2 powi e :: rat)" using nb by (simp add: algebra_simps)
  then have "x < 2 ^ 53 * 2 powi e" using gap pe by linarith
  moreover have "2 ^ 52 * 2 powi e \<le> x" using x(1) e(1) by linarith
  moreover have "0 < x" using x(1) n(1) of_int_pos[of n, where 'a = rat] by linarith
  ultimately have "ilog2 x = e + 52"
    using power_int_add[of "2::rat" 52 e] power_int_add[of "2::rat" 53 e]
    by (intro ilog2_unique) (simp_all add: add.commute)
  then have r: "rnd64 x = of_int (round_even (x / 2 powi e)) * 2 powi e"
    using \<open>0 < x\<close> by (simp add: rnd64_def)
  have "of_int k \<le> x / 2 powi e" using x(1) nk pe by (simp add: pos_le_divide_eq)
  moreover have "x / 2 powi e < of_int k + 1 / 2"
    using gap nk pe by (simp add: pos_divide_less_eq algebra_simps)
  ultimately have "\<lfloor>x / 2 powi e\<rfloor> = k" by (simp add: floor_unique)
  moreover have "x / 2 powi e - of_int k < 1 / 2" using \<open>x / 2 powi e < of_int k + 1 / 2\<close> by linarith
  ultimately have "round_even (x / 2 powi e) = k" unfolding round_even_def Let_def by (simp only: if_True)
  then show ?thesis using r nk by simp
qed

text \<open>The quotient of two integers, rounded by integer arithmetic alone.\<close>

lemma round_even_quot:
  assumes "0 < b"
  shows "round_even (of_int a / of_int b) = qround a b"
proof -
  have f: "\<lfloor>of_int a / of_int b :: rat\<rfloor> = a div b" by (rule floor_divide_of_int_eq)
  have d: "of_int a / of_int b - of_int (a div b) = (of_int (a mod b) / of_int b :: rat)"
    using assms by (simp add: minus_div_mult_eq_mod[symmetric] field_simps)
  have lt: "of_int (a mod b) / of_int b < (1 / 2 :: rat) \<longleftrightarrow> 2 * (a mod b) < b"
  proof -
    have "of_int (a mod b) / of_int b < (1 / 2 :: rat) \<longleftrightarrow> (of_int (2 * (a mod b)) :: rat) < of_int b"
      using assms by (simp add: field_simps)
    then show ?thesis by (simp only: of_int_less_iff)
  qed
  have gt: "(1 / 2 :: rat) < of_int (a mod b) / of_int b \<longleftrightarrow> b < 2 * (a mod b)"
  proof -
    have "(1 / 2 :: rat) < of_int (a mod b) / of_int b \<longleftrightarrow> of_int b < (of_int (2 * (a mod b)) :: rat)"
      using assms by (simp add: field_simps)
    then show ?thesis by (simp only: of_int_less_iff)
  qed
  show ?thesis unfolding round_even_def qround_def Let_def f d lt gt ..
qed

lemma rnd64_quot:
  assumes "0 < b" "2 ^ 52 * b \<le> a * 2 ^ k" "a * 2 ^ k < 2 ^ 53 * b"
  shows "rnd64 (of_int a / of_int b) = of_int (qround (a * 2 ^ k) b) / 2 ^ k"
proof -
  define x :: rat where "x = of_int a / of_int b"
  have "0 < 2 ^ 52 * b" using assms(1) by simp
  then have "0 < a * 2 ^ k" using assms(2) by (rule less_le_trans)
  then have "0 < a" by (simp add: zero_less_mult_iff)
  then have x0: "0 < x" using assms(1) by (simp add: x_def)
  have "(of_int (2 ^ 52 * b) :: rat) \<le> of_int (a * 2 ^ k)" using assms(2) by (simp only: of_int_le_iff)
  then have lo: "2 ^ 52 \<le> x * 2 ^ k" using assms(1) by (simp add: x_def field_simps)
  have "(of_int (a * 2 ^ k) :: rat) < of_int (2 ^ 53 * b)" using assms(3) by (simp only: of_int_less_iff)
  then have hi: "x * 2 ^ k < 2 ^ 53" using assms(1) by (simp add: x_def field_simps)
  have pk: "(2::rat) powi (- int k) = 1 / 2 ^ k" by (simp add: power_int_minus inverse_eq_divide)
  have "2 powi (52 - int k) = 2 ^ 52 / (2 ^ k :: rat)" "2 powi (52 - int k + 1) = 2 ^ 53 / (2 ^ k :: rat)"
    using power_int_diff[of "2::rat" 52 "int k"] power_int_diff[of "2::rat" 53 "int k"]
    by (simp_all add: algebra_simps)
  then have "ilog2 x = 52 - int k"
    using lo hi x0 by (intro ilog2_unique) (simp_all add: pos_divide_le_eq pos_less_divide_eq)
  then have "rnd64 x = of_int (round_even (x / 2 powi (- int k))) * 2 powi (- int k)"
    using x0 by (simp add: rnd64_def Let_def)
  also have "x / 2 powi (- int k) = of_int (a * 2 ^ k) / of_int b" by (simp add: pk x_def)
  finally show ?thesis using assms(1) by (simp add: round_even_quot pk x_def del: of_int_mult)
qed

section \<open>Rounded arithmetic\<close>

lemma f64_of_int_exact: "\<bar>n\<bar> \<le> 2 ^ 53 \<Longrightarrow> f64_of_int n = of_int n"
  by (simp add: f64_of_int_def rnd64_of_int)

lemma is_f64_ops [simp]: "is_f64 (fadd x y)" "is_f64 (fsub x y)" "is_f64 (fmul x y)" "is_f64 (fdiv x y)"
    "is_f64 (f64_of_int n)"
  by (simp_all add: fadd_def fsub_def fmul_def fdiv_def f64_of_int_def)

lemma fmul_mono: "0 \<le> a \<Longrightarrow> a \<le> b \<Longrightarrow> 0 \<le> c \<Longrightarrow> c \<le> d \<Longrightarrow> fmul a c \<le> fmul b d"
  unfolding fmul_def by (intro rnd64_mono mult_mono) auto

lemma fmul_nonneg: "0 \<le> a \<Longrightarrow> 0 \<le> b \<Longrightarrow> 0 \<le> fmul a b"
  by (simp add: fmul_def rnd64_nonneg)

lemma fdiv_nonneg: "0 \<le> a \<Longrightarrow> 0 \<le> b \<Longrightarrow> 0 \<le> fdiv a b"
  by (simp add: fdiv_def rnd64_nonneg)

lemma fdiv_mono: "a \<le> b \<Longrightarrow> 0 < c \<Longrightarrow> fdiv a c \<le> fdiv b c"
  unfolding fdiv_def by (intro rnd64_mono divide_right_mono) auto

lemma fmul_le_f64: "is_f64 c \<Longrightarrow> a * b \<le> c \<Longrightarrow> fmul a b \<le> c"
  by (simp add: fmul_def rnd64_le_f64)

text \<open>A rounded product keeps at least the exact one, less one part in \<open>2 ^ 53\<close>.\<close>

lemma rnd64_lower: "0 \<le> x \<Longrightarrow> x * (1 - 1 / 2 ^ 53) \<le> rnd64 x"
  using rnd64_error[of x] unfolding abs_le_iff by (simp add: right_diff_distrib)

lemma rnd64_upper: "0 \<le> x \<Longrightarrow> rnd64 x \<le> x * (1 + 1 / 2 ^ 53)"
  using rnd64_error[of x] unfolding abs_le_iff by (simp add: distrib_left)

lemma int_of_f64_mono: "x \<le> y \<Longrightarrow> int_of_f64 x \<le> int_of_f64 y"
proof -
  assume xy: "x \<le> y"
  consider "0 \<le> x" | "y < 0" | "x < 0" "0 \<le> y" by linarith
  then show ?thesis
  proof cases
    case 3
    then have "\<lceil>x\<rceil> \<le> 0" "0 \<le> \<lfloor>y\<rfloor>" by auto
    then have "\<lceil>x\<rceil> \<le> \<lfloor>y\<rfloor>" by (rule order.trans)
    then show ?thesis using 3 by (simp add: int_of_f64_def)
  qed (use xy in \<open>auto simp: int_of_f64_def floor_mono ceiling_mono\<close>)
qed

lemma int_of_f64_of_int [simp]: "int_of_f64 (of_int n) = n"
  by (simp add: int_of_f64_def)

lemma math_round_mono: "x \<le> y \<Longrightarrow> math_round x \<le> math_round y"
proof -
  assume xy: "x \<le> y"
  consider "0 \<le> x" | "y < 0" | "x < 0" "0 \<le> y" by linarith
  then show ?thesis
  proof cases
    case 3
    then have "\<lceil>x - 1 / 2\<rceil> \<le> 0" "0 \<le> \<lfloor>y + 1 / 2\<rfloor>" by (auto simp: ceiling_le_iff le_floor_iff)
    then have "(of_int \<lceil>x - 1 / 2\<rceil> :: rat) \<le> of_int \<lfloor>y + 1 / 2\<rfloor>" unfolding of_int_le_iff by linarith
    then show ?thesis using 3 by (simp add: math_round_def)
  qed (use xy in \<open>auto simp: math_round_def floor_mono ceiling_mono\<close>)
qed

lemma math_round_of_int [simp]: "math_round (of_int n) = of_int n"
  by (auto simp: math_round_def floor_unique ceiling_unique intro!: floor_unique ceiling_unique)

lemma math_ceil_mono: "x \<le> y \<Longrightarrow> math_ceil x \<le> math_ceil y"
  by (simp add: math_ceil_def ceiling_mono)

lemma math_ceil_of_int [simp]: "math_ceil (of_int n) = of_int n"
  by (simp add: math_ceil_def)

lemma int_math_ceil [simp]: "int_of_f64 (math_ceil x) = \<lceil>x\<rceil>"
  by (simp add: math_ceil_def)


lemma share_ok_bound:
  assumes "share_ok j n" "0 < n" "0 < j" "j \<le> n" "n \<le> 2 ^ 53"
  shows "fdiv (of_int j) (of_int n) \<le> of_int j / of_int n * (1 + 1 / 2 ^ 54)"
proof -
  define k where "k = share_scale j n"
  have b: "2 ^ 52 * n \<le> j * 2 ^ k" "j * 2 ^ k < 2 ^ 53 * n"
    and q: "qround (j * 2 ^ k) n * n * 2 ^ 54 \<le> j * 2 ^ k * (2 ^ 54 + 1)"
    using assms(1) by (simp_all add: share_ok_def k_def Let_def)
  have "fdiv (of_int j) (of_int n) = of_int (qround (j * 2 ^ k) n) / 2 ^ k"
    using rnd64_quot[OF assms(2) b] by (simp add: fdiv_def)
  moreover have "(of_int (qround (j * 2 ^ k) n) :: rat) / 2 ^ k \<le> of_int j / of_int n * (1 + 1 / 2 ^ 54)"
  proof -
    have "(of_int (qround (j * 2 ^ k) n * n * 2 ^ 54) :: rat) \<le> of_int (j * 2 ^ k * (2 ^ 54 + 1))"
      using q by (simp only: of_int_le_iff)
    then show ?thesis using assms(2) by (simp add: field_simps)
  qed
  ultimately show ?thesis by simp
qed

text \<open>
  A float product that is off by less than the distance to the next integer has the exact
  product's ceiling.
\<close>

lemma ceil_fmul_exact:
  assumes n: "0 < n" "n \<le> 100" and j: "1 \<le> j" "j \<le> n" and c: "1 \<le> c" "c \<le> 2 ^ 40"
    and s: "s \<le> of_int j / of_int n * (1 + 1 / 2 ^ 54)" "of_int j / of_int n * (1 - 1 / 2 ^ 53) \<le> s"
  shows "\<lceil>fmul (of_int c) s\<rceil> = \<lceil>of_int (c * j) / of_int n :: rat\<rceil>"
proof -
  define r :: rat where "r = of_int (c * j) / of_int n"
  define N where "N = \<lceil>r\<rceil>"
  have n0: "(0::rat) < of_int n" using n by simp
  have r0: "0 < r" using n j c by (simp add: r_def)
  have cj: "c * j \<le> 2 ^ 40 * n" using c j by (intro mult_mono) auto
  have "(of_int (c * j) :: rat) \<le> of_int (2 ^ 40 * n)" using cj by (simp only: of_int_le_iff)
  then have r40: "r \<le> 2 ^ 40" using n0 by (simp add: r_def pos_divide_le_eq)
  have N: "of_int N - 1 < r" "r \<le> of_int N" unfolding N_def by linarith+
  have NB: "0 < N" "N \<le> 2 ^ 53"
  proof -
    show "0 < N" using r0 by (simp add: N_def)
    have "N \<le> \<lceil>2 ^ 40 :: rat\<rceil>" unfolding N_def using r40 by (rule ceiling_mono)
    then show "N \<le> 2 ^ 53" by simp
  qed
  have x: "of_int c * s \<le> r * (1 + 1 / 2 ^ 54)" "r * (1 - 1 / 2 ^ 53) \<le> of_int c * s"
    using mult_left_mono[OF s(1), of "of_int c"] mult_left_mono[OF s(2), of "of_int c"] c
    by (simp_all add: r_def)
  have gap: "r = of_int N \<or> r \<le> of_int N - 1 / 100" and low: "of_int N - 1 + 1 / 100 \<le> r"
  proof -
    have "r * of_int n = of_int (c * j)" using n0 by (simp add: r_def)
    show "r = of_int N \<or> r \<le> of_int N - 1 / 100"
    proof (cases "c * j = N * n")
      case False
      have "of_int (c * j) \<le> (of_int (N * n) :: rat)" using N(2) n0 by (simp add: r_def pos_divide_le_eq)
      then have "c * j \<le> N * n" by (simp only: of_int_le_iff)
      then have "c * j \<le> N * n - 1" using False by simp
      then have "of_int (c * j) \<le> (of_int (N * n - 1) :: rat)" by (simp only: of_int_le_iff)
      then have "r \<le> of_int N - 1 / of_int n" using n0 by (simp add: r_def field_simps)
      moreover have "(1 / 100 :: rat) \<le> 1 / of_int n" using n by (simp add: field_simps)
      ultimately show ?thesis by linarith
    qed (use n0 in \<open>simp add: r_def field_simps\<close>)
    have "(of_int ((N - 1) * n) :: rat) < of_int (c * j)" using N(1) n0 by (simp add: r_def field_simps)
    then have "(N - 1) * n + 1 \<le> c * j" by (simp only: of_int_less_iff)
    then have "(of_int ((N - 1) * n + 1) :: rat) \<le> of_int (c * j)" by (simp only: of_int_le_iff)
    then have "of_int N - 1 + 1 / of_int n \<le> r"
      using n0 by (simp add: r_def pos_le_divide_eq distrib_right left_diff_distrib)
    moreover have "(1 / 100 :: rat) \<le> 1 / of_int n" using n by (simp add: field_simps)
    ultimately show "of_int N - 1 + 1 / 100 \<le> r" by linarith
  qed
  have "0 \<le> r * (1 - 1 / 2 ^ 53)" using r0 by simp
  then have cs0: "0 \<le> of_int c * s" using x(2) by linarith
  have "of_int N - 1 < fmul (of_int c) s"
  proof -
    have "r * (1 - 1 / 2 ^ 53) * (1 - 1 / 2 ^ 53) \<le> fmul (of_int c) s"
      using rnd64_lower[OF cs0] x(2) unfolding fmul_def by (simp add: field_simps)
    moreover have "r - 2 ^ 40 / 2 ^ 52 \<le> r * (1 - 1 / 2 ^ 53) * (1 - 1 / 2 ^ 53)"
      using r40 r0 by (simp add: field_simps)
    ultimately show ?thesis using low by simp
  qed
  moreover have "fmul (of_int c) s \<le> of_int N"
  proof (cases "of_int c * s \<le> of_int N")
    case True
    then show ?thesis using NB by (intro fmul_le_f64 is_f64_of_int) simp_all
  next
    case False
    have "of_int c * s \<le> r + 2 ^ 40 / 2 ^ 54" using x(1) r40 by (simp add: field_simps)
    then have "r = of_int N" using gap False by auto
    then show ?thesis using rnd64_snap[of N "of_int c * s"] NB x(1) False by (simp add: fmul_def)
  qed
  ultimately show ?thesis unfolding r_def[symmetric] N_def[symmetric] by (simp add: ceiling_unique)
qed

end
