(* ===== verification/Load_Mode.thy ===== *)
theory Load_Mode
  imports Honryu_Prelude Go_Float
begin

text \<open>
  The execution modes of \<open>internal/domain/loadmode\<close>: the ramp-up each mode prescribes, the
  staircase's step table and the Little's-law sizing of virtual users. A \<open>Mode\<close> is a string
  in the source and stays one here, since an uploaded config may hold any string.
\<close>

section \<open>Definitions\<close>

definition ModeBurst :: string where "ModeBurst = ''burst''"
definition ModeRamp :: string where "ModeRamp = ''ramp''"
definition ModeSoak :: string where "ModeSoak = ''soak''"
definition ModeStaircase :: string where "ModeStaircase = ''staircase''"

lemmas mode_defs = ModeBurst_def ModeRamp_def ModeSoak_def ModeStaircase_def

datatype loadmode_err = LoadmodeErrModeInvalid

definition mode_valid :: "string \<Rightarrow> bool" where
  "mode_valid m \<longleftrightarrow> m = ModeBurst \<or> m = ModeRamp \<or> m = ModeSoak \<or> m = ModeStaircase"

definition parse_mode :: "string \<Rightarrow> loadmode_err + string" where
  "parse_mode s = (if \<not> mode_valid s then Inl LoadmodeErrModeInvalid else Inr s)"

definition rampWindowDivisor :: int where "rampWindowDivisor = 5"
definition rampMinSeconds :: int where "rampMinSeconds = 60"
definition rampMaxSeconds :: int where "rampMaxSeconds = 600"
definition soakWarmupSeconds :: int where "soakWarmupSeconds = 60"
definition StaircaseStepsDefault :: int where "StaircaseStepsDefault = 5"
definition StaircaseStepsMin :: int where "StaircaseStepsMin = 2"
definition StaircaseStepsMax :: int where "StaircaseStepsMax = 10"
definition StaircaseMinDurationSeconds :: int where "StaircaseMinDurationSeconds = 60"

lemmas loadmode_consts = rampWindowDivisor_def rampMinSeconds_def rampMaxSeconds_def
  soakWarmupSeconds_def StaircaseStepsDefault_def StaircaseStepsMin_def StaircaseStepsMax_def
  StaircaseMinDurationSeconds_def

definition rampup_seconds :: "string \<Rightarrow> int \<Rightarrow> int" where
  "rampup_seconds m durationSeconds =
     (if m = ModeBurst then 0
      else if m = ModeSoak then soakWarmupSeconds
      else if m = ModeStaircase then 0
      else if m = ModeRamp then
        (let r = go_div durationSeconds rampWindowDivisor
         in if r < rampMinSeconds then rampMinSeconds
            else if rampMaxSeconds < r then rampMaxSeconds else r)
      else 0)"

record staircase_step =
  sc_index :: int
  sc_throughput :: int
  sc_concurrency :: int

text \<open>\<open>share := float64(i+1) / float64(steps)\<close>\<close>

definition step_share :: "int \<Rightarrow> int \<Rightarrow> rat" where
  "step_share i steps = fdiv (f64_of_int (i + 1)) (f64_of_int steps)"

text \<open>One row of the table, as the loop body computes it.\<close>

definition step_row :: "int \<Rightarrow> int \<Rightarrow> int \<Rightarrow> int \<Rightarrow> staircase_step" where
  "step_row concurrency throughput steps i =
     (let share = step_share i steps;
          rate = int_of_f64 (math_round (fmul (f64_of_int throughput) share));
          rate = (if rate < 1 then 1 else rate);
          conc = int_of_f64 (math_ceil (fmul (f64_of_int concurrency) share));
          conc = (if conc < 1 then 1 else conc)
      in \<lparr>sc_index = i, sc_throughput = rate, sc_concurrency = conc\<rparr>)"

definition staircase_steps :: "int \<Rightarrow> int \<Rightarrow> int \<Rightarrow> staircase_step list" where
  "staircase_steps concurrency throughput steps =
     (if steps < StaircaseStepsMin then []
      else (map (step_row concurrency throughput steps) (map int [0..<nat steps]))
             [nat (steps - 1) := \<lparr>sc_index = steps - 1, sc_throughput = throughput,
                                  sc_concurrency = concurrency\<rparr>])"

definition ConcurrencyFloor :: int where "ConcurrencyFloor = 20"
definition ConcurrencyHeadroom :: rat where "ConcurrencyHeadroom = 3"

definition concurrency_for :: "rat \<Rightarrow> rat \<Rightarrow> int" where
  "concurrency_for requestedQPS latencyHintSec =
     (if latencyHintSec \<le> 0 then ConcurrencyFloor
      else let c = int_of_f64 (math_ceil (fmul (fmul requestedQPS latencyHintSec) ConcurrencyHeadroom))
           in if c < ConcurrencyFloor then ConcurrencyFloor else c)"


section \<open>Ramp-up\<close>

lemma mode_neq [simp]: "ModeBurst \<noteq> ModeRamp" "ModeBurst \<noteq> ModeSoak" "ModeBurst \<noteq> ModeStaircase"
  "ModeRamp \<noteq> ModeBurst" "ModeRamp \<noteq> ModeSoak" "ModeRamp \<noteq> ModeStaircase"
  "ModeSoak \<noteq> ModeBurst" "ModeSoak \<noteq> ModeRamp" "ModeSoak \<noteq> ModeStaircase"
  "ModeStaircase \<noteq> ModeBurst" "ModeStaircase \<noteq> ModeRamp" "ModeStaircase \<noteq> ModeSoak"
  by (simp_all add: mode_defs)

lemma rampup_ramp:
  assumes "0 \<le> d"
  shows "rampup_seconds ModeRamp d = max 60 (min 600 (d div 5))"
  using assms by (auto simp: rampup_seconds_def loadmode_consts go_div_nonneg Let_def max_def min_def)

section \<open>The staircase table\<close>

lemma step_share_mono:
  assumes "i \<le> j" "0 < f64_of_int steps"
  shows "step_share i steps \<le> step_share j steps"
  unfolding step_share_def using assms
  by (intro fdiv_mono) (auto simp: f64_of_int_def intro!: rnd64_mono)

lemma f64_of_int_pos: "0 < n \<Longrightarrow> 0 < f64_of_int n"
  using rnd64_ge_f64[of 1 "of_int n"] is_f64_of_int[of 1] by (simp add: f64_of_int_def)

lemma step_share_nonneg: "0 \<le> i \<Longrightarrow> 0 < steps \<Longrightarrow> 0 \<le> step_share i steps"
  unfolding step_share_def by (intro fdiv_nonneg) (simp_all add: f64_of_int_pos less_imp_le)

lemma step_share_le_1:
  assumes "i < steps" "0 < steps"
  shows "step_share i steps \<le> 1"
proof -
  have "f64_of_int (i + 1) \<le> f64_of_int steps" using assms by (auto simp: f64_of_int_def intro!: rnd64_mono)
  then have "f64_of_int (i + 1) / f64_of_int steps \<le> 1" using f64_of_int_pos[OF assms(2)] by simp
  then show ?thesis unfolding step_share_def fdiv_def using is_f64_of_int[of 1] by (intro rnd64_le_f64) simp_all
qed

lemma step_row_simps:
  "sc_index (step_row c t n i) = i"
  "sc_throughput (step_row c t n i) = max 1 (int_of_f64 (math_round (fmul (f64_of_int t) (step_share i n))))"
  "sc_concurrency (step_row c t n i) = max 1 (int_of_f64 (math_ceil (fmul (f64_of_int c) (step_share i n))))"
  by (simp_all add: step_row_def Let_def max_def)

lemma step_row_mono:
  assumes "0 \<le> i" "i \<le> j" "0 < n" "0 \<le> c" "0 \<le> t"
  shows "sc_throughput (step_row c t n i) \<le> sc_throughput (step_row c t n j)"
    and "sc_concurrency (step_row c t n i) \<le> sc_concurrency (step_row c t n j)"
proof -
  have s: "step_share i n \<le> step_share j n" "0 \<le> step_share i n"
    using assms by (auto intro!: step_share_mono step_share_nonneg f64_of_int_pos)
  have nn: "0 \<le> f64_of_int t" "0 \<le> f64_of_int c" using assms by (auto simp: f64_of_int_def intro!: rnd64_nonneg)
  have f: "fmul (f64_of_int t) (step_share i n) \<le> fmul (f64_of_int t) (step_share j n)"
    "fmul (f64_of_int c) (step_share i n) \<le> fmul (f64_of_int c) (step_share j n)"
    using s nn by (auto intro!: fmul_mono)
  show "sc_throughput (step_row c t n i) \<le> sc_throughput (step_row c t n j)"
    "sc_concurrency (step_row c t n i) \<le> sc_concurrency (step_row c t n j)"
    unfolding step_row_simps
    by (intro max.mono order_refl int_of_f64_mono math_round_mono math_ceil_mono f)+
qed

lemma step_row_bound:
  assumes "0 \<le> i" "i < n" "1 \<le> c" "c \<le> 2 ^ 53" "1 \<le> t" "t \<le> 2 ^ 53"
  shows "sc_throughput (step_row c t n i) \<le> t" "sc_concurrency (step_row c t n i) \<le> c"
proof -
  have s: "step_share i n \<le> 1" "0 \<le> step_share i n"
    using assms by (auto intro!: step_share_le_1 step_share_nonneg)
  have "fmul (of_int t) (step_share i n) \<le> of_int t" "fmul (of_int c) (step_share i n) \<le> of_int c"
    using s assms by (auto intro!: fmul_le_f64 is_f64_of_int mult_left_le)
  then have "math_round (fmul (of_int t) (step_share i n)) \<le> of_int t"
    "math_ceil (fmul (of_int c) (step_share i n)) \<le> of_int c"
    using math_round_mono[of _ "of_int t"] math_ceil_mono[of _ "of_int c"] by auto
  then have "int_of_f64 (math_round (fmul (of_int t) (step_share i n))) \<le> t"
    "int_of_f64 (math_ceil (fmul (of_int c) (step_share i n))) \<le> c"
    using int_of_f64_mono[of _ "of_int t"] int_of_f64_mono[of _ "of_int c"] int_of_f64_of_int by metis+
  then show "sc_throughput (step_row c t n i) \<le> t" "sc_concurrency (step_row c t n i) \<le> c"
    using assms by (simp_all add: step_row_simps f64_of_int_exact)
qed

lemma staircase_nth:
  assumes "2 \<le> n" "i < nat n"
  shows "staircase_steps c t n ! i =
    (if int i = n - 1 then \<lparr>sc_index = n - 1, sc_throughput = t, sc_concurrency = c\<rparr>
     else step_row c t n (int i))"
  using assms by (auto simp: staircase_steps_def StaircaseStepsMin_def nth_list_update)

lemma staircase_length: "2 \<le> n \<Longrightarrow> length (staircase_steps c t n) = nat n"
  by (simp add: staircase_steps_def StaircaseStepsMin_def)

lemma staircase_nth_mono:
  assumes "2 \<le> n" "1 \<le> c" "c \<le> 2 ^ 53" "1 \<le> t" "t \<le> 2 ^ 53" "i \<le> j" "j < nat n"
  shows "sc_throughput (staircase_steps c t n ! i) \<le> sc_throughput (staircase_steps c t n ! j)"
    and "sc_concurrency (staircase_steps c t n ! i) \<le> sc_concurrency (staircase_steps c t n ! j)"
  using assms step_row_mono[of "int i" "int j" n c t] step_row_bound[of "int i" n c t]
  by (auto simp: staircase_nth)

text \<open>
  The staircase table of a resolved entry has one row per step, in order; every plateau
  holds at least one request per second and one user; rates and users never fall from one
  step to the next; and the last step holds the stated ceiling exactly. The bound \<open>2 ^ 53\<close> is
  where \<open>float64\<close> stops representing every integer.
\<close>

theorem staircase_shape:
  assumes "2 \<le> steps" "1 \<le> concurrency" "concurrency \<le> 2 ^ 53" "1 \<le> throughput" "throughput \<le> 2 ^ 53"
  shows "map sc_index (staircase_steps concurrency throughput steps) = [0..steps - 1] \<and>
    sorted (map sc_throughput (staircase_steps concurrency throughput steps)) \<and>
    sorted (map sc_concurrency (staircase_steps concurrency throughput steps)) \<and>
    (\<forall>s \<in> set (staircase_steps concurrency throughput steps). 1 \<le> sc_throughput s \<and> 1 \<le> sc_concurrency s) \<and>
    last (staircase_steps concurrency throughput steps) =
      \<lparr>sc_index = steps - 1, sc_throughput = throughput, sc_concurrency = concurrency\<rparr>"
    (is "?a \<and> ?b \<and> ?c \<and> ?d \<and> ?e")
proof (intro conjI)
  let ?tab = "staircase_steps concurrency throughput steps"
  have len: "length ?tab = nat steps" using assms(1) by (simp add: staircase_length)
  show ?a using assms(1) len by (intro nth_equalityI) (auto simp: staircase_nth step_row_simps)
  show ?b ?c using len staircase_nth_mono[OF assms(1-5)] by (auto simp: sorted_iff_nth_mono)
  show ?d using len assms(1,2,4) by (auto simp: in_set_conv_nth staircase_nth step_row_simps)
  have "?tab \<noteq> []" using len assms(1) by auto
  then have "last ?tab = ?tab ! (nat steps - 1)" using len by (simp add: last_conv_nth)
  then show ?e using assms(1) by (auto simp: staircase_nth nat_diff_distrib)
qed

theorem staircase_shape_witness:
  "map sc_index (staircase_steps 40 100 5) = [0..4] \<and>
   last (staircase_steps 40 100 5) = \<lparr>sc_index = 4, sc_throughput = 100, sc_concurrency = 40\<rparr>"
  using staircase_shape[of 5 40 100] by simp

section \<open>The users of a step are the exact share\<close>

lemma shares_ok: "list_all (\<lambda>n. list_all (\<lambda>j. share_ok j n) [1..n]) [2..10]"
  by code_simp

lemma share_okI: "2 \<le> n \<Longrightarrow> n \<le> 10 \<Longrightarrow> 1 \<le> j \<Longrightarrow> j \<le> n \<Longrightarrow> share_ok j n"
  using shares_ok unfolding list_all_iff set_upto by (meson atLeastAtMost_iff)

lemma step_share_upper:
  assumes "0 \<le> i" "i < n" "2 \<le> n" "n \<le> 10"
  shows "step_share i n \<le> of_int (i + 1) / of_int n * (1 + 1 / 2 ^ 54)"
  using assms share_ok_bound[OF share_okI[of n "i + 1"]] by (simp add: step_share_def f64_of_int_exact)

lemma step_share_lower:
  assumes "0 \<le> i" "i < n" "2 \<le> n" "n \<le> 10"
  shows "of_int (i + 1) / of_int n * (1 - 1 / 2 ^ 53) \<le> step_share i n"
  using assms rnd64_lower[of "of_int (i + 1) / of_int n"]
  by (simp add: step_share_def fdiv_def f64_of_int_exact)

text \<open>
  C38. For every step count the upload path accepts (2 to 10), the users of each plateau are
  exactly \<open>ceil(concurrency*(i+1)/steps)\<close>: the float product the code rounds up never crosses
  an integer. The bound on the users is far above any execution's.
\<close>

theorem staircase_users_exact:
  assumes "2 \<le> steps" "steps \<le> 10" "1 \<le> concurrency" "concurrency \<le> 2 ^ 40" "i < nat steps"
  shows "sc_concurrency (staircase_steps concurrency throughput steps ! i)
    = \<lceil>of_int (concurrency * (int i + 1)) / of_int steps :: rat\<rceil>"
proof (cases "int i = steps - 1")
  case True
  then show ?thesis using assms by (simp add: staircase_nth)
next
  case False
  have i: "0 \<le> int i" "int i < steps" using assms(5) by auto
  have "\<lceil>fmul (of_int concurrency) (step_share (int i) steps)\<rceil>
      = \<lceil>of_int (concurrency * (int i + 1)) / of_int steps :: rat\<rceil>"
    using assms i step_share_upper[OF i assms(1,2)] step_share_lower[OF i assms(1,2)]
    by (intro ceil_fmul_exact) auto
  moreover have "1 \<le> \<lceil>of_int (concurrency * (int i + 1)) / of_int steps :: rat\<rceil>"
    using assms i by (simp add: one_le_ceiling)
  ultimately show ?thesis
    using False assms i by (simp add: staircase_nth step_row_simps f64_of_int_exact)
qed

theorem staircase_users_exact_witness:
  "sc_concurrency (staircase_steps 7 100 3 ! 1) = 5"
  using staircase_users_exact[of 3 7 1 100] by (simp add: ceiling_eq_iff)

text \<open>
  The rates do not meet the documented \<open>round(throughput*(i+1)/steps)\<close>: 45 requests per
  second over ten steps gives 31 on the seventh, where the exact share 31.5 rounds to 32,
  because the float share 0.7 lies below seven tenths.
\<close>

theorem staircase_rate_below_formula:
  "sc_throughput (staircase_steps 1 45 10 ! 6) = 31 \<and>
   int_of_f64 (math_round (of_int (45 * (6 + 1)) / of_int 10)) = 32"
proof -
  have "sc_throughput (step_row 1 45 10 6) = 31" by code_simp
  then show ?thesis by (simp add: staircase_nth math_round_def int_of_f64_def)
qed

section \<open>Sizing and ramp-up\<close>

text \<open>
  Little's law: the users the calibration search asks for are at least the floor and at
  least \<open>requestedQPS * latencyHintSec\<close>, the number of requests in flight at that rate and
  latency, whatever the two float products round to. The bound keeps the users within
  \<open>int\<close>.
\<close>

theorem concurrency_for_sustains:
  assumes "0 \<le> requestedQPS" "0 < latencyHintSec" "requestedQPS * latencyHintSec \<le> 2 ^ 60"
  shows "20 \<le> concurrency_for requestedQPS latencyHintSec \<and>
    requestedQPS * latencyHintSec \<le> of_int (concurrency_for requestedQPS latencyHintSec) \<and>
    in_i64 (concurrency_for requestedQPS latencyHintSec)"
proof -
  define p where "p = requestedQPS * latencyHintSec"
  define f where "f = fmul (fmul requestedQPS latencyHintSec) ConcurrencyHeadroom"
  have p: "0 \<le> p" "p \<le> 2 ^ 60" using assms by (simp_all add: p_def)
  have q: "p * (1 - 1 / 2 ^ 53) \<le> fmul requestedQPS latencyHintSec"
    "fmul requestedQPS latencyHintSec \<le> p * (1 + 1 / 2 ^ 53)" "0 \<le> fmul requestedQPS latencyHintSec"
    using rnd64_lower[OF p(1)] rnd64_upper[OF p(1)] rnd64_nonneg[OF p(1)] by (simp_all add: fmul_def p_def)
  have q3: "0 \<le> fmul requestedQPS latencyHintSec * 3" using q(3) by simp
  have "p \<le> f" "f \<le> 2 ^ 62"
    using q p rnd64_lower[OF q3] rnd64_upper[OF q3]
    unfolding f_def ConcurrencyHeadroom_def fmul_def[of "fmul _ _"] by (simp_all add: field_simps)
  then have "p \<le> of_int \<lceil>f\<rceil>" and hi: "\<lceil>f\<rceil> \<le> 2 ^ 62" by (linarith, simp add: ceiling_le_iff)
  then have lo: "p \<le> of_int (max 20 \<lceil>f\<rceil>)" by (meson max.cobounded2 of_int_le_iff order_trans)
  have "concurrency_for requestedQPS latencyHintSec = max 20 \<lceil>f\<rceil>"
    using assms by (simp add: concurrency_for_def f_def ConcurrencyFloor_def Let_def max_def)
  moreover have "- (2 ^ 63) \<le> max 20 \<lceil>f\<rceil>" "max 20 \<lceil>f\<rceil> < 2 ^ 63"
    using hi by (auto simp: le_max_iff_disj)
  ultimately show ?thesis using lo by (simp add: p_def in_i64_def)
qed

theorem concurrency_for_sustains_witness:
  "20 \<le> concurrency_for 100 (1 / 2) \<and> 50 \<le> (of_int (concurrency_for 100 (1 / 2)) :: rat)"
  using concurrency_for_sustains[of 100 "1 / 2"] by simp

text \<open>
  Ramp-up per mode: burst and staircase start at full load, soak warms up for a minute, a
  ramp takes a fifth of the duration within 60 to 600 seconds, so it never exceeds a duration
  of at least a minute; and an unknown mode ramps not at all.
\<close>

theorem rampup_bounds:
  assumes "60 \<le> d"
  shows "0 \<le> rampup_seconds m d \<and> rampup_seconds m d \<le> min d 600 \<and>
    (mode_valid m \<longrightarrow> (0 < rampup_seconds m d \<longleftrightarrow> m = ModeRamp \<or> m = ModeSoak)) \<and>
    rampup_seconds ModeRamp d = max 60 (min 600 (d div 5))"
proof -
  have r: "rampup_seconds ModeRamp d = max 60 (min 600 (d div 5))" using assms by (intro rampup_ramp) simp
  have d: "d div 5 \<le> d" using assms by simp
  consider "m = ModeRamp" | "m = ModeSoak" | "m \<noteq> ModeRamp" "m \<noteq> ModeSoak" by auto
  then show ?thesis
  proof cases
    case 1
    then show ?thesis using r d assms by auto
  next
    case 2
    then show ?thesis using r assms by (simp add: rampup_seconds_def loadmode_consts)
  next
    case 3
    then show ?thesis using r assms by (simp add: rampup_seconds_def)
  qed
qed

theorem rampup_bounds_witness: "rampup_seconds ModeRamp 600 = 120"
  using rampup_bounds[of 600 ModeRamp] by simp

end
