(* ===== verification/Load_Plan.thy ===== *)
theory Load_Plan
  imports Load_Mode
begin

text \<open>
  What an execution asks for and how it is divided: the load profile
  (\<open>internal/domain/loadprofile\<close>), the shard planner (\<open>internal/domain/shard\<close>), the run
  phases and their guards (\<open>internal/domain/run\<close>), and the execution aggregate with its
  fan-out targets (\<open>internal/domain/execution\<close>, \<open>internal/domain/taurus/executor.go\<close>). A
  wrapped error is its sentinel: callers compare with \<open>errors.Is\<close>.
\<close>

section \<open>Load profile\<close>

record entry =
  en_name :: string
  en_scenario_id :: int
  en_concurrency :: int
  en_rampup :: int
  en_engines :: int
  en_throughput :: int
  en_duration :: int
  en_csv_split :: bool
  en_mode :: string
  en_steps :: int

datatype loadprofile_err = LpErrScenarioRequired | LpErrEnginesInvalid | LpErrConcurrencyInvalid
  | LpErrDurationInvalid | LpErrThroughputInvalid | LpErrNoScenarios | LpErrModeInvalid
  | LpErrModeThroughput | LpErrStepsInvalid | LpErrStaircaseDuration

definition entry_validate :: "entry \<Rightarrow> loadprofile_err option" where
  "entry_validate ep =
     (if en_scenario_id ep \<le> 0 then Some LpErrScenarioRequired
      else if en_engines ep \<le> 0 then Some LpErrEnginesInvalid
      else if en_concurrency ep \<le> 0 then Some LpErrConcurrencyInvalid
      else if en_duration ep \<le> 0 then Some LpErrDurationInvalid
      else if en_throughput ep < 0 then Some LpErrThroughputInvalid
      else if en_mode ep \<noteq> '''' \<and> \<not> mode_valid (en_mode ep) then Some LpErrModeInvalid
      else if en_mode ep \<noteq> '''' \<and> en_throughput ep \<le> 0 then Some LpErrModeThroughput
      else if en_mode ep \<noteq> ModeStaircase \<and> en_steps ep \<noteq> 0 then Some LpErrStepsInvalid
      else if en_mode ep = ModeStaircase \<and> (en_steps ep < StaircaseStepsMin \<or> StaircaseStepsMax < en_steps ep)
        then Some LpErrStepsInvalid
      else if en_mode ep = ModeStaircase \<and> en_duration ep < StaircaseMinDurationSeconds
        then Some LpErrStaircaseDuration
      else None)"

record profile =
  pf_name :: string
  pf_project_id :: int
  pf_execution_id :: int
  pf_tests :: "entry list"
  pf_csv_split :: bool
  pf_criteria :: "string list"

fun entries_validate :: "entry list \<Rightarrow> loadprofile_err option" where
  "entries_validate [] = None"
| "entries_validate (ep # eps) =
     (case entry_validate ep of Some e \<Rightarrow> Some e | None \<Rightarrow> entries_validate eps)"

definition profile_validate :: "profile \<Rightarrow> loadprofile_err option" where
  "profile_validate ec =
     (if pf_tests ec = [] then Some LpErrNoScenarios else entries_validate (pf_tests ec))"

definition total_engines :: "entry list \<Rightarrow> int" where
  "total_engines tests = sum64 (map en_engines tests) 0"

text \<open>The loop of \<open>LongestDurationSeconds\<close>.\<close>

fun longest_from :: "entry list \<Rightarrow> int \<Rightarrow> int" where
  "longest_from [] longest = longest"
| "longest_from (ep # eps) longest =
     (let d = i64 (en_rampup ep + en_duration ep);
          d = (if 1 < en_steps ep then i64 (en_rampup ep + i64 (en_duration ep * en_steps ep)) else d)
      in longest_from eps (if longest < d then d else longest))"

definition longest_duration_seconds :: "entry list \<Rightarrow> int" where
  "longest_duration_seconds tests = longest_from tests 0"

section \<open>Shards\<close>

record shard =
  sh_index :: int
  sh_concurrency :: int
  sh_throughput :: int
  sh_rampup :: int
  sh_duration :: int

datatype shard_err = ShardErrShardsInvalid | ShardErrConcurrencyInvalid

definition split_share :: "int \<Rightarrow> int \<Rightarrow> int \<Rightarrow> int" where
  "split_share tot n i =
     (let base = go_div tot n; extra = go_mod tot n
      in if i < extra then i64 (base + 1) else base)"

definition plan :: "entry \<Rightarrow> int \<Rightarrow> shard_err + shard list" where
  "plan e n =
     (if n \<le> 0 then Inl ShardErrShardsInvalid
      else if en_concurrency e \<le> 0 then Inl ShardErrConcurrencyInvalid
      else let n = (if en_concurrency e < n then en_concurrency e else n) in
        Inr (map (\<lambda>i. \<lparr>sh_index = i,
                       sh_concurrency = split_share (en_concurrency e) n i,
                       sh_throughput = split_share (en_throughput e) n i,
                       sh_rampup = en_rampup e,
                       sh_duration = en_duration e\<rparr>) [0..n - 1]))"

definition plan_total :: "shard list \<Rightarrow> int \<times> int" where
  "plan_total shards = (sum64 (map sh_concurrency shards) 0, sum64 (map sh_throughput shards) 0)"

section \<open>Run phases\<close>

datatype phase = PhaseIdle | PhaseDeployed | PhaseRunning

datatype run_err = RunErrNoScenarios | RunErrNotDeployed | RunErrEnginesNotReady
  | RunErrAlreadyRunning | RunErrNotRunning | RunErrEnginesFinished

record run =
  run_id :: int
  run_execution_id :: int
  run_started_at :: time
  run_ended_at :: "time option"

definition run_finished :: "run \<Rightarrow> bool" where
  "run_finished r \<longleftrightarrow> run_ended_at r \<noteq> None"

definition run_elapsed :: "run \<Rightarrow> time \<Rightarrow> duration" where
  "run_elapsed r now =
     (case run_ended_at r of Some e \<Rightarrow> e - run_started_at r | None \<Rightarrow> now - run_started_at r)"

definition derive_phase :: "int \<Rightarrow> bool \<Rightarrow> phase" where
  "derive_phase enginesDeployed running =
     (if running then PhaseRunning else if 0 < enginesDeployed then PhaseDeployed else PhaseIdle)"

definition can_deploy :: "phase \<Rightarrow> run_err option" where
  "can_deploy p = (if p = PhaseRunning then Some RunErrAlreadyRunning else None)"

definition can_trigger :: "phase \<Rightarrow> entry list \<Rightarrow> int \<Rightarrow> run_err option" where
  "can_trigger p tests enginesReady =
     (if tests = [] then Some RunErrNoScenarios
      else case p of
        PhaseIdle \<Rightarrow> Some RunErrNotDeployed
      | PhaseRunning \<Rightarrow> Some RunErrAlreadyRunning
      | PhaseDeployed \<Rightarrow>
          if enginesReady < total_engines tests then Some RunErrEnginesNotReady else None)"

definition can_stop :: "phase \<Rightarrow> run_err option" where
  "can_stop p = (if p \<noteq> PhaseRunning then Some RunErrNotRunning else None)"

definition virtual_users :: "entry list \<Rightarrow> int" where
  "virtual_users tests = sum64 (map (\<lambda>ep. i64 (en_engines ep * en_concurrency ep)) tests) 0"

section \<open>Executions\<close>

text \<open>\<open>strings.TrimSpace\<close> on ASCII text: leading and trailing tab, newline, vertical tab, form
  feed, carriage return and space are dropped.\<close>

definition ascii_space :: "char \<Rightarrow> bool" where
  "ascii_space c \<longleftrightarrow> (let n = of_char c :: nat in n = 32 \<or> 9 \<le> n \<and> n \<le> 13)"

definition trim_space :: "string \<Rightarrow> string" where
  "trim_space s = rev (dropWhile ascii_space (rev (dropWhile ascii_space s)))"

definition declarative_support :: "(string, bool) gomap" where
  "declarative_support = [(''jmeter'', True), (''gatling'', True), (''locust'', True),
     (''apiritif'', True), (''ab'', True), (''siege'', True), (''k6'', False)]"

definition executor_known :: "string \<Rightarrow> bool" where
  "executor_known e \<longleftrightarrow> mget declarative_support e \<noteq> None"

definition accepts_declarative_requests :: "string \<Rightarrow> bool" where
  "accepts_declarative_requests e = mget_or False declarative_support e"

definition declarative_executors :: "string list" where
  "declarative_executors = sort (map fst (filter snd declarative_support))"

definition KindNormal :: string where "KindNormal = ''normal''"
definition KindCalibrateEngine :: string where "KindCalibrateEngine = ''calibrate_engine''"

definition kind_known :: "string \<Rightarrow> bool" where
  "kind_known k \<longleftrightarrow> k = KindNormal \<or> k = KindCalibrateEngine"

definition MaxNameLen :: nat where "MaxNameLen = 100"

record execution =
  ex_id :: int
  ex_name :: string
  ex_project_id :: int
  ex_engine :: string
  ex_kind :: string
  ex_cpu :: string
  ex_memory :: string
  ex_cluster :: string
  ex_fan_out_targets :: "string list"
  ex_csv_split :: bool
  ex_tenant_id :: "int option"
  ex_created_by :: string
  ex_updated_by :: string
  ex_created_time :: time

datatype execution_err = ExErrNameRequired | ExErrNameTooLong | ExErrProjectRequired
  | ExErrEngineUnknown | ExErrKindUnknown | ExErrFanOutTargetDuplicate

fun normalize_loop :: "string list \<Rightarrow> string list \<Rightarrow> execution_err + string list" where
  "normalize_loop [] out = Inr out"
| "normalize_loop (t # ts) out =
     (let t = trim_space t in
      if t = '''' then normalize_loop ts out
      else if t \<in> set out then Inl ExErrFanOutTargetDuplicate
      else normalize_loop ts (out @ [t]))"

definition normalize_fan_out_targets :: "string list \<Rightarrow> execution_err + string list" where
  "normalize_fan_out_targets targets = normalize_loop targets []"

definition execution_validate :: "execution \<Rightarrow> execution_err option" where
  "execution_validate c =
     (if ex_name c = '''' then Some ExErrNameRequired
      else if MaxNameLen < length (ex_name c) then Some ExErrNameTooLong
      else if ex_project_id c \<le> 0 then Some ExErrProjectRequired
      else if ex_engine c \<noteq> '''' \<and> \<not> executor_known (ex_engine c) then Some ExErrEngineUnknown
      else if ex_kind c \<noteq> '''' \<and> \<not> kind_known (ex_kind c) then Some ExErrKindUnknown
      else case normalize_fan_out_targets (ex_fan_out_targets c) of Inl e \<Rightarrow> Some e | Inr _ \<Rightarrow> None)"

definition execution_new :: "string \<Rightarrow> int \<Rightarrow> execution_err + execution" where
  "execution_new name projectID =
     (let c = \<lparr>ex_id = 0, ex_name = trim_space name, ex_project_id = projectID, ex_engine = '''',
               ex_kind = KindNormal, ex_cpu = '''', ex_memory = '''', ex_cluster = '''',
               ex_fan_out_targets = [], ex_csv_split = False, ex_tenant_id = None,
               ex_created_by = '''', ex_updated_by = '''', ex_created_time = 0\<rparr>
      in case execution_validate c of Some e \<Rightarrow> Inl e | None \<Rightarrow> Inr c)"

definition is_fan_out :: "execution \<Rightarrow> bool" where
  "is_fan_out c \<longleftrightarrow> ex_fan_out_targets c \<noteq> []"

definition clusters :: "execution \<Rightarrow> string list" where
  "clusters c = (if is_fan_out c then ex_fan_out_targets c else [ex_cluster c])"

text \<open>An entry the examples use: ten users on four engines.\<close>

definition demo_entry :: entry where
  "demo_entry = \<lparr>en_name = ''checkout'', en_scenario_id = 7, en_concurrency = 10, en_rampup = 0,
     en_engines = 4, en_throughput = 90, en_duration = 60, en_csv_split = False, en_mode = '''', en_steps = 0\<rparr>"

section \<open>Splitting conserves load\<close>

lemma split_share_nonneg:
  assumes "0 \<le> t" "t < 2 ^ 63" "0 < n" "0 \<le> i"
  shows "split_share t n i = t div n + (if i < t mod n then 1 else 0)"
proof -
  have q: "0 \<le> t div n" using assms by (simp add: pos_imp_zdiv_nonneg_iff)
  have "t div n + 1 \<le> 2 ^ 63 - 1" if "i < t mod n"
  proof -
    have "n \<noteq> 1" using that assms by auto
    then have "2 * (t div n) \<le> n * (t div n)" using assms q by (intro mult_right_mono) auto
    also have "\<dots> \<le> t" using assms by (metis mult_div_mod_eq le_add_same_cancel1 pos_mod_sign)
    finally show ?thesis using assms by simp
  qed
  then have "in_i64 (t div n + 1)" if "i < t mod n" using that q by (simp add: in_i64_def)
  then show ?thesis using assms by (simp add: split_share_def go_div_nonneg go_mod_nonneg Let_def)
qed

lemma sum_upto_if_less:
  assumes "0 \<le> k" "k \<le> int n"
  shows "(\<Sum>i = 0..<n. if int i < k then 1 else 0 :: int) = k"
proof -
  have "(\<Sum>i = 0..<n. if int i < k then 1 else 0 :: int) = (\<Sum>i = 0..<nat k. 1)"
    using assms by (intro sum.mono_neutral_cong_right) auto
  then show ?thesis using assms by simp
qed

lemma split_sum:
  assumes "0 \<le> t" "t < 2 ^ 63" "0 < n"
  shows "sum_list (map (split_share t n) [0..n - 1]) = t"
proof -
  have idx: "[0..n - 1] = map int [0..<nat n]" using assms by (intro nth_equalityI) auto
  have "sum_list (map (split_share t n) [0..n - 1]) = (\<Sum>i = 0..<nat n. split_share t n (int i))"
    by (simp add: idx o_def interv_sum_list_conv_sum_set_nat)
  also have "\<dots> = (\<Sum>i = 0..<nat n. t div n + (if int i < t mod n then 1 else 0))"
    using assms by (intro sum.cong) (simp_all add: split_share_nonneg)
  also have "\<dots> = n * (t div n) + t mod n"
    using assms by (simp add: sum.distrib sum_upto_if_less less_imp_le)
  finally show ?thesis by simp
qed

lemma plan_InrD:
  assumes "plan e n = Inr shards"
  shows "0 < n" "0 < en_concurrency e"
    and "shards = map (\<lambda>i. \<lparr>sh_index = i,
           sh_concurrency = split_share (en_concurrency e) (min n (en_concurrency e)) i,
           sh_throughput = split_share (en_throughput e) (min n (en_concurrency e)) i,
           sh_rampup = en_rampup e, sh_duration = en_duration e\<rparr>) [0..min n (en_concurrency e) - 1]"
  using assms by (auto simp: plan_def Let_def min_def split: if_splits)

lemma plan_ok: "0 < n \<Longrightarrow> 0 < en_concurrency e \<Longrightarrow> \<exists>shards. plan e n = Inr shards"
  by (simp add: plan_def Let_def)

lemma plan_sums:
  assumes "plan e n = Inr shards" "in_i64 (en_concurrency e)" "0 \<le> en_throughput e" "in_i64 (en_throughput e)"
  shows "sum_list (map sh_concurrency shards) = en_concurrency e"
    and "sum_list (map sh_throughput shards) = en_throughput e"
  using plan_InrD[OF assms(1)] assms(2-) split_sum[of _ "min n (en_concurrency e)"]
  by (simp_all add: o_def in_i64_def)

lemma plan_share_bounds:
  assumes "plan e n = Inr shards" "in_i64 (en_concurrency e)" "s \<in> set shards"
  shows "en_concurrency e div min n (en_concurrency e) \<le> sh_concurrency s"
    and "sh_concurrency s \<le> en_concurrency e div min n (en_concurrency e) + 1"
    and "1 \<le> sh_concurrency s"
proof -
  let ?m = "min n (en_concurrency e)"
  note P = plan_InrD[OF assms(1)]
  obtain i where i: "0 \<le> i" "sh_concurrency s = split_share (en_concurrency e) ?m i"
    using assms(3) unfolding P(3) by auto
  have sp: "split_share (en_concurrency e) ?m i
      = en_concurrency e div ?m + (if i < en_concurrency e mod ?m then 1 else 0)"
    using P(1,2) assms(2) i(1) by (intro split_share_nonneg) (auto simp: in_i64_def)
  show "en_concurrency e div ?m \<le> sh_concurrency s" "sh_concurrency s \<le> en_concurrency e div ?m + 1"
    by (simp_all add: i(2) sp)
  moreover have "1 \<le> en_concurrency e div ?m"
    using P(1,2) by (simp add: pos_imp_zdiv_pos_iff int_one_le_iff_zero_less)
  ultimately show "1 \<le> sh_concurrency s" by linarith
qed

text \<open>
  C10. Planning conserves and balances load: the shards' users and request rates add up to what
  the entry asked for (and \<open>Total\<close> computes those sums without overflow); there is one shard
  per requested pod, or one per user if users are fewer; no shard is empty; and no shard
  carries more than one user above another.
\<close>

theorem plan_conserves_load:
  assumes "plan e n = Inr shards" "in_i64 (en_concurrency e)" "0 \<le> en_throughput e" "in_i64 (en_throughput e)"
  shows "plan_total shards = (en_concurrency e, en_throughput e) \<and>
    int (length shards) = min n (en_concurrency e) \<and>
    map sh_index shards = [0..int (length shards) - 1] \<and>
    (\<forall>s \<in> set shards. 1 \<le> sh_concurrency s \<and> sh_rampup s = en_rampup e \<and> sh_duration s = en_duration e \<and>
      (\<forall>s' \<in> set shards. sh_concurrency s \<le> sh_concurrency s' + 1))"
proof (intro conjI ballI)
  note P = plan_InrD[OF assms(1)]
  show "plan_total shards = (en_concurrency e, en_throughput e)"
    using plan_sums[OF assms] assms(2,4) by (simp add: plan_total_def sum64_0)
  show len: "int (length shards) = min n (en_concurrency e)" using P by simp
  show "map sh_index shards = [0..int (length shards) - 1]" unfolding len by (simp add: P(3) o_def)
  fix s assume s: "s \<in> set shards"
  show "1 \<le> sh_concurrency s" using plan_share_bounds[OF assms(1,2) s] by simp
  show "sh_rampup s = en_rampup e" "sh_duration s = en_duration e" using s P(3) by auto
  fix s' assume s': "s' \<in> set shards"
  show "sh_concurrency s \<le> sh_concurrency s' + 1"
    using plan_share_bounds[OF assms(1,2) s] plan_share_bounds[OF assms(1,2) s'] by linarith
qed

theorem plan_conserves_load_witness:
  "plan_total (map (\<lambda>(i, c, t). \<lparr>sh_index = i, sh_concurrency = c, sh_throughput = t, sh_rampup = 0, sh_duration = 60\<rparr>)
     [(0, 3, 23), (1, 3, 23), (2, 2, 22), (3, 2, 22)]) = (10, 90)"
proof -
  have "plan demo_entry 4 = Inr (map (\<lambda>(i, c, t).
      \<lparr>sh_index = i, sh_concurrency = c, sh_throughput = t, sh_rampup = 0, sh_duration = 60\<rparr>)
      [(0, 3, 23), (1, 3, 23), (2, 2, 22), (3, 2, 22)])"
    by code_simp
  from plan_conserves_load[OF this] show ?thesis by (simp add: demo_entry_def in_i64_def)
qed

section \<open>The lengths of a profile\<close>

text \<open>The run time of one entry: every plateau of a staircase is held for the duration.\<close>

definition entry_seconds :: "entry \<Rightarrow> int" where
  "entry_seconds ep = en_rampup ep + en_duration ep * (if 1 < en_steps ep then en_steps ep else 1)"

lemma longest_from_max:
  assumes "\<forall>ep \<in> set eps. 0 \<le> en_rampup ep \<and> 0 \<le> en_duration ep \<and> in_i64 (entry_seconds ep)"
  shows "longest_from eps l = fold max (map entry_seconds eps) l"
  using assms
proof (induction eps arbitrary: l)
  case (Cons ep eps)
  have "in_i64 (en_rampup ep + en_duration ep)" "1 < en_steps ep \<Longrightarrow> in_i64 (en_duration ep * en_steps ep)"
    "1 < en_steps ep \<Longrightarrow> in_i64 (en_rampup ep + en_duration ep * en_steps ep)"
  proof -
    have "en_duration ep \<le> en_duration ep * en_steps ep" if "1 < en_steps ep"
      using that Cons.prems by (simp add: mult_le_cancel_left1)
    moreover have "0 \<le> en_rampup ep" "0 \<le> en_duration ep" using Cons.prems by auto
    ultimately show "in_i64 (en_rampup ep + en_duration ep)"
      "1 < en_steps ep \<Longrightarrow> in_i64 (en_duration ep * en_steps ep)"
      "1 < en_steps ep \<Longrightarrow> in_i64 (en_rampup ep + en_duration ep * en_steps ep)"
      using Cons.prems by (auto simp: entry_seconds_def in_i64_def split: if_splits)
  qed
  then have "(let d = i64 (en_rampup ep + en_duration ep);
        d = (if 1 < en_steps ep then i64 (en_rampup ep + i64 (en_duration ep * en_steps ep)) else d)
      in if l < d then d else l) = max (entry_seconds ep) l"
    by (simp add: entry_seconds_def max_def)
  then show ?case using Cons by (simp add: Let_def)
qed simp

lemma fold_max_ge: "l \<le> fold max xs (l :: int)" "x \<in> set xs \<Longrightarrow> x \<le> fold max xs l"
  by (induction xs arbitrary: l) (auto intro: order_trans[OF max.cobounded2] order_trans[OF max.cobounded1])

lemma fold_max_in: "fold max xs (l :: int) = l \<or> fold max xs l \<in> set xs"
  by (induction xs arbitrary: l) (fastforce simp: max_def)+

text \<open>
  A quota window as long as \<open>LongestDurationSeconds\<close> covers every entry of the profile,
  staircases over all their plateaus included, and is no longer than the longest of them.
\<close>

theorem longest_duration_covers:
  assumes "tests \<noteq> []"
    and "\<forall>ep \<in> set tests. 0 \<le> en_rampup ep \<and> 0 < en_duration ep \<and> in_i64 (entry_seconds ep)"
  shows "longest_duration_seconds tests = Max (entry_seconds ` set tests)"
proof -
  let ?l = "longest_duration_seconds tests"
  have eq: "?l = fold max (map entry_seconds tests) 0"
    unfolding longest_duration_seconds_def using assms by (intro longest_from_max) auto
  have ge: "entry_seconds ep \<le> ?l" if "ep \<in> set tests" for ep
    unfolding eq using that by (intro fold_max_ge) simp
  have pos: "0 < entry_seconds ep" if "ep \<in> set tests" for ep
    using that assms(2) by (auto simp: entry_seconds_def intro: add_nonneg_pos)
  obtain ep where "ep \<in> set tests" using assms(1) by (cases tests) auto
  then have "?l \<noteq> 0" using ge pos by force
  then have "?l \<in> entry_seconds ` set tests" using fold_max_in[of "map entry_seconds tests" 0] eq by auto
  then show ?thesis using ge by (intro Max_eqI[symmetric]) auto
qed

theorem longest_duration_covers_witness:
  "longest_duration_seconds [demo_entry, demo_entry\<lparr>en_mode := ModeStaircase, en_steps := 5\<rparr>] = 300"
  using longest_duration_covers[of "[demo_entry, demo_entry\<lparr>en_mode := ModeStaircase, en_steps := 5\<rparr>]"]
  by (simp add: demo_entry_def entry_seconds_def in_i64_def)

section \<open>Validated profiles\<close>

lemma entries_validate_iff: "entries_validate eps = None \<longleftrightarrow> (\<forall>ep \<in> set eps. entry_validate ep = None)"
  by (induction eps) (auto split: option.splits)

lemma entry_validateD:
  assumes "entry_validate ep = None"
  shows "0 < en_engines ep" "0 < en_concurrency ep" "0 < en_duration ep" "0 \<le> en_throughput ep"
    and "en_mode ep = ModeStaircase \<Longrightarrow> 2 \<le> en_steps ep \<and> en_steps ep \<le> 10 \<and> 0 < en_throughput ep"
  using assms by (auto simp: entry_validate_def loadmode_consts mode_defs split: if_splits)

text \<open>
  Every entry of an accepted profile can be deployed: the planner divides it without an
  error, into at most the engines it asks for, and a staircase entry expands into a full,
  non-empty step table that ends at its stated rate and users.
\<close>

theorem accepted_profile_plans:
  assumes "profile_validate ec = None" "ep \<in> set (pf_tests ec)"
  shows "(\<exists>shards. plan ep (en_engines ep) = Inr shards \<and> shards \<noteq> [] \<and> int (length shards) \<le> en_engines ep) \<and>
    (en_mode ep = ModeStaircase \<longrightarrow>
      staircase_steps (en_concurrency ep) (en_throughput ep) (en_steps ep) ! nat (en_steps ep - 1)
        = \<lparr>sc_index = en_steps ep - 1, sc_throughput = en_throughput ep, sc_concurrency = en_concurrency ep\<rparr>)"
proof -
  have v: "entry_validate ep = None"
    using assms by (auto simp: profile_validate_def entries_validate_iff split: if_splits)
  note V = entry_validateD[OF v]
  obtain shards where sh: "plan ep (en_engines ep) = Inr shards" using plan_ok[OF V(1,2)] by auto
  have "int (length shards) = min (en_engines ep) (en_concurrency ep)" using plan_InrD[OF sh] by simp
  then have "shards \<noteq> []" "int (length shards) \<le> en_engines ep" using V by auto
  moreover have "staircase_steps (en_concurrency ep) (en_throughput ep) (en_steps ep) ! nat (en_steps ep - 1)
        = \<lparr>sc_index = en_steps ep - 1, sc_throughput = en_throughput ep, sc_concurrency = en_concurrency ep\<rparr>"
    if "en_mode ep = ModeStaircase"
    using V(5)[OF that] by (subst staircase_nth) auto
  ultimately show ?thesis using sh by blast
qed

theorem accepted_profile_plans_witness:
  "\<exists>shards. plan demo_entry 4 = Inr shards \<and> shards \<noteq> [] \<and> length shards \<le> 4"
  using accepted_profile_plans[of "\<lparr>pf_name = ''p'', pf_project_id = 1, pf_execution_id = 1,
      pf_tests = [demo_entry], pf_csv_split = False, pf_criteria = []\<rparr>" demo_entry]
  by (auto simp: demo_entry_def profile_validate_def entry_validate_def mode_defs)

section \<open>Guards and accounting against the plan\<close>

text \<open>The pods and the users that deploying the entries provisions.\<close>

definition planned :: "entry list \<Rightarrow> shard list" where
  "planned tests = concat (map (\<lambda>ep. case plan ep (en_engines ep) of Inr shards \<Rightarrow> shards | Inl _ \<Rightarrow> []) tests)"

lemma planned_simps [simp]:
  "planned [] = []"
  "plan ep (en_engines ep) = Inr shards \<Longrightarrow> planned (ep # eps) = shards @ planned eps"
  by (simp_all add: planned_def)

lemma planned_pods:
  assumes "\<forall>ep \<in> set tests. entry_validate ep = None"
  shows "int (length (planned tests)) = sum_list (map (\<lambda>ep. min (en_engines ep) (en_concurrency ep)) tests)"
  using assms
proof (induction tests)
  case (Cons ep eps)
  then obtain shards where "plan ep (en_engines ep) = Inr shards" using plan_ok entry_validateD by force
  moreover from plan_InrD[OF this] have "int (length shards) = min (en_engines ep) (en_concurrency ep)" by simp
  ultimately show ?case using Cons by simp
qed simp

lemma planned_users:
  assumes "\<forall>ep \<in> set tests. entry_validate ep = None \<and> in_i64 (en_concurrency ep) \<and> in_i64 (en_throughput ep)"
  shows "sum_list (map sh_concurrency (planned tests)) = sum_list (map en_concurrency tests)"
  using assms
proof (induction tests)
  case (Cons ep eps)
  then obtain shards where "plan ep (en_engines ep) = Inr shards" using plan_ok entry_validateD by force
  moreover from plan_sums(1)[OF this] Cons.prems have "sum_list (map sh_concurrency shards) = en_concurrency ep"
    using entry_validateD by force
  ultimately show ?case using Cons by simp
qed simp

lemma sum_list_eq_iff_pointwise:
  fixes f g :: "'a \<Rightarrow> int"
  assumes "\<forall>x \<in> set xs. f x \<le> g x"
  shows "sum_list (map g xs) \<le> sum_list (map f xs) \<longleftrightarrow> (\<forall>x \<in> set xs. g x = f x)"
proof -
  have "sum_list (map f xs) < sum_list (map g xs)" if "x \<in> set xs" "g x \<noteq> f x" for x
    using that assms
  proof (induction xs)
    case (Cons y ys)
    have "sum_list (map f ys) \<le> sum_list (map g ys)" using Cons.prems by (intro sum_list_mono) auto
    moreover have "f y \<le> g y" "x = y \<Longrightarrow> f y < g y" using Cons.prems by (auto simp: order_less_le)
    moreover have "x \<noteq> y \<Longrightarrow> sum_list (map f ys) < sum_list (map g ys)" using Cons by auto
    ultimately show ?case by (cases "x = y") auto
  qed simp
  then show ?thesis by (metis (no_types, lifting) map_cong leD order_refl)
qed

text \<open>
  C39. With every planned pod ready, a deployed execution can be triggered exactly when no entry
  asks for more engines than virtual users. The planner provisions one pod per user in that
  case, while the guard counts the engines asked for, and an entry of 2 users on 4 engines
  passes validation: it deploys and can then never be triggered.
\<close>

theorem trigger_iff_engines_within_users:
  assumes "profile_validate ec = None" "in_i64 (sum_list (map en_engines (pf_tests ec)))"
  shows "can_trigger PhaseDeployed (pf_tests ec) (int (length (planned (pf_tests ec)))) =
    (if \<forall>ep \<in> set (pf_tests ec). en_engines ep \<le> en_concurrency ep then None else Some RunErrEnginesNotReady)"
proof -
  let ?ts = "pf_tests ec"
  have v: "\<forall>ep \<in> set ?ts. entry_validate ep = None" and ne: "?ts \<noteq> []"
    using assms(1) by (auto simp: profile_validate_def entries_validate_iff split: if_splits)
  have "total_engines ?ts \<le> int (length (planned ?ts)) \<longleftrightarrow>
      sum_list (map en_engines ?ts) \<le> sum_list (map (\<lambda>ep. min (en_engines ep) (en_concurrency ep)) ?ts)"
    using assms(2) by (simp add: total_engines_def sum64_0 planned_pods[OF v])
  also have "\<dots> \<longleftrightarrow> (\<forall>ep \<in> set ?ts. en_engines ep \<le> en_concurrency ep)"
    by (subst sum_list_eq_iff_pointwise) (auto simp: min_def)
  finally show ?thesis using ne by (auto simp: can_trigger_def)
qed

theorem trigger_iff_engines_within_users_witness:
  "can_trigger PhaseDeployed [demo_entry\<lparr>en_concurrency := 2\<rparr>]
     (int (length (planned [demo_entry\<lparr>en_concurrency := 2\<rparr>]))) = Some RunErrEnginesNotReady"
  using trigger_iff_engines_within_users[of "\<lparr>pf_name = ''p'', pf_project_id = 1, pf_execution_id = 1,
      pf_tests = [demo_entry\<lparr>en_concurrency := 2\<rparr>], pf_csv_split = False, pf_criteria = []\<rparr>"]
  by (simp add: demo_entry_def profile_validate_def entry_validate_def mode_defs in_i64_def)

text \<open>
  C40. The usage figure billed for a run is the number of users its pods drive exactly when every
  entry runs on one engine, and larger otherwise: \<open>VirtualUsers\<close> multiplies an entry's users
  by its engines, while the planner divides them among the engines.
\<close>

theorem virtual_users_overcount:
  assumes "\<forall>ep \<in> set tests. entry_validate ep = None \<and> in_i64 (en_engines ep * en_concurrency ep) \<and>
      in_i64 (en_concurrency ep) \<and> in_i64 (en_throughput ep)"
    and "in_i64 (sum_list (map (\<lambda>ep. en_engines ep * en_concurrency ep) tests))"
  shows "sum_list (map sh_concurrency (planned tests)) \<le> virtual_users tests \<and>
    (virtual_users tests = sum_list (map sh_concurrency (planned tests)) \<longleftrightarrow> (\<forall>ep \<in> set tests. en_engines ep = 1))"
proof -
  have vu: "virtual_users tests = sum_list (map (\<lambda>ep. en_engines ep * en_concurrency ep) tests)"
  proof -
    have eq: "map (\<lambda>ep. i64 (en_engines ep * en_concurrency ep)) tests = map (\<lambda>ep. en_engines ep * en_concurrency ep) tests"
      using assms(1) by (intro map_cong) auto
    show ?thesis unfolding virtual_users_def eq sum64_0 using assms(2) by (rule i64_id)
  qed
  have pl: "sum_list (map sh_concurrency (planned tests)) = sum_list (map en_concurrency tests)"
    using assms(1) by (intro planned_users) auto
  have le: "\<forall>ep \<in> set tests. en_concurrency ep \<le> en_engines ep * en_concurrency ep"
  proof
    fix ep assume "ep \<in> set tests"
    then have "1 \<le> en_engines ep" "0 \<le> en_concurrency ep" using assms(1) entry_validateD(1,2)[of ep] by auto
    then show "en_concurrency ep \<le> en_engines ep * en_concurrency ep" using mult_right_mono[of 1 "en_engines ep" "en_concurrency ep"] by simp
  qed
  have "sum_list (map en_concurrency tests) \<le> sum_list (map (\<lambda>ep. en_engines ep * en_concurrency ep) tests)"
    using le by (intro sum_list_mono) auto
  moreover have "(\<forall>ep \<in> set tests. en_engines ep * en_concurrency ep = en_concurrency ep)
      \<longleftrightarrow> (\<forall>ep \<in> set tests. en_engines ep = 1)"
  proof (intro ball_cong refl)
    fix ep assume "ep \<in> set tests"
    then have "0 < en_concurrency ep" using assms(1) entry_validateD(2)[of ep] by auto
    then show "(en_engines ep * en_concurrency ep = en_concurrency ep) = (en_engines ep = 1)" by simp
  qed
  ultimately show ?thesis
    using sum_list_eq_iff_pointwise[OF le] unfolding vu pl by (metis (no_types, lifting) order_antisym order_refl)
qed

theorem virtual_users_overcount_witness:
  "virtual_users [demo_entry] \<noteq> sum_list (map sh_concurrency (planned [demo_entry]))"
  using virtual_users_overcount[of "[demo_entry]"]
  by (simp add: demo_entry_def entry_validate_def mode_defs in_i64_def)

section \<open>Fan-out targets\<close>

lemma dropWhile_idem: "dropWhile P (dropWhile P xs) = dropWhile P xs"
  by (induction xs) auto

lemma trim_space_idem [simp]: "trim_space (trim_space s) = trim_space s"
proof -
  define a where "a = dropWhile ascii_space s"
  define b where "b = dropWhile ascii_space (rev a)"
  have "dropWhile ascii_space (rev b) = rev b"
  proof (cases b rule: rev_cases)
    case (snoc ys y)
    obtain zs where "rev a = zs @ b" unfolding b_def by (metis takeWhile_dropWhile_id)
    then have "a = y # rev ys @ rev zs" using snoc by (metis rev_append rev_rev_ident rev.simps append.simps(1,2) append_assoc rev_eq_Cons_iff)
    then have "\<not> ascii_space y" unfolding a_def by (metis hd_dropWhile list.sel(1) list.distinct(1))
    then show ?thesis using snoc by simp
  qed simp
  then show ?thesis by (simp add: trim_space_def a_def[symmetric] b_def[symmetric]) (simp add: b_def dropWhile_idem)
qed

lemma normalize_loop_spec:
  assumes "distinct out"
  shows "normalize_loop ts out =
    (let ts' = filter (\<lambda>t. t \<noteq> '''') (map trim_space ts)
     in if distinct (out @ ts') then Inr (out @ ts') else Inl ExErrFanOutTargetDuplicate)"
  using assms by (induction ts arbitrary: out) (auto simp: Let_def)

text \<open>
  Fan-out targets: the list is accepted exactly when its trimmed, non-blank names are
  distinct; it then is those names in order, so no cluster is deployed to twice, and
  normalising again changes nothing.
\<close>

theorem normalize_fan_out_targets_spec:
  "(distinct (filter (\<lambda>t. t \<noteq> '''') (map trim_space ts)) \<longleftrightarrow> (\<exists>out. normalize_fan_out_targets ts = Inr out)) \<and>
   (normalize_fan_out_targets ts = Inr out \<longrightarrow>
      out = filter (\<lambda>t. t \<noteq> '''') (map trim_space ts) \<and> normalize_fan_out_targets out = Inr out)"
proof -
  have "map trim_space (filter (\<lambda>t. t \<noteq> '''') (map trim_space ts)) = filter (\<lambda>t. t \<noteq> '''') (map trim_space ts)"
    by (induction ts) auto
  then show ?thesis by (auto simp: normalize_fan_out_targets_def normalize_loop_spec Let_def)
qed

theorem normalize_fan_out_targets_spec_witness:
  "normalize_fan_out_targets [''eu'', ''us''] = Inr [''eu'', ''us'']"
proof -
  have "normalize_fan_out_targets ['' eu'', '''', ''us''] = Inr [''eu'', ''us'']" by code_simp
  then show ?thesis using normalize_fan_out_targets_spec[of "['' eu'', '''', ''us'']" "[''eu'', ''us'']"] by blast
qed

end
