(* ===== verification/Calibration.thy ===== *)
theory Calibration
  imports Honryu_Prelude Go_Float
begin

text \<open>
  The engine-capacity search of \<open>internal/domain/calibration\<close> (doubling until a step saturates,
  then bisecting) and the capacity profile it yields with its fan-out computation
  (\<open>internal/domain/capacityprofile\<close>). \<open>searching\<close> is the search as its caller drives it: each
  step is run at the rate the previous action prescribed.
\<close>

section \<open>Definitions\<close>

record spec =
  sp_criterion :: string
  sp_cpu :: string
  sp_memory :: string
  sp_seed_qps :: rat
  sp_max_qps :: rat
  sp_max_steps :: int
  sp_hold_seconds :: int

datatype calibration_err = CalErrCriterionRequired | CalErrPodSizeRequired | CalErrSeedQPSInvalid
  | CalErrMaxQPSInvalid | CalErrMaxStepsInvalid | CalErrHoldInvalid

definition DefaultSeedQPS :: rat where "DefaultSeedQPS = 10"
definition DefaultMaxQPS :: rat where "DefaultMaxQPS = 10000"
definition DefaultMaxSteps :: int where "DefaultMaxSteps = 20"
definition DefaultHoldSeconds :: int where "DefaultHoldSeconds = 30"
definition BisectionToleranceQPS :: rat where "BisectionToleranceQPS = 1"

definition with_defaults :: "spec \<Rightarrow> spec" where
  "with_defaults s =
     (let s = (if sp_seed_qps s \<le> 0 then s\<lparr>sp_seed_qps := DefaultSeedQPS\<rparr> else s);
          s = (if sp_max_qps s \<le> 0 then s\<lparr>sp_max_qps := DefaultMaxQPS\<rparr> else s);
          s = (if sp_max_steps s \<le> 0 then s\<lparr>sp_max_steps := DefaultMaxSteps\<rparr> else s)
      in if sp_hold_seconds s \<le> 0 then s\<lparr>sp_hold_seconds := DefaultHoldSeconds\<rparr> else s)"

definition spec_validate :: "spec \<Rightarrow> calibration_err option" where
  "spec_validate s =
     (if sp_criterion s = '''' then Some CalErrCriterionRequired
      else if sp_cpu s = '''' \<or> sp_memory s = '''' then Some CalErrPodSizeRequired
      else if sp_seed_qps s \<le> 0 then Some CalErrSeedQPSInvalid
      else if sp_max_qps s \<le> sp_seed_qps s then Some CalErrMaxQPSInvalid
      else if sp_max_steps s \<le> 0 then Some CalErrMaxStepsInvalid
      else if sp_hold_seconds s \<le> 0 then Some CalErrHoldInvalid
      else None)"

datatype classification = ClassificationEngineSaturated | ClassificationTargetSaturated | ClassificationClean

datatype saturated_by = SaturatedByEngine | SaturatedByTarget | SaturatedByNeither

datatype cal_phase = CalPending | CalBracketing | CalBisecting | CalDone | CalFailed

record cal_step =
  cs_requested_qps :: rat
  cs_achieved_qps :: rat
  cs_classification :: classification

record cal_result =
  cr_saturated_by :: saturated_by
  cr_per_pod_qps :: rat

record job =
  jb_spec :: spec
  jb_phase :: cal_phase
  jb_step_count :: int
  jb_lo_requested :: rat
  jb_lo_achieved :: rat
  jb_hi_requested :: rat
  jb_result :: "cal_result option"

record action =
  ac_done :: bool
  ac_next_qps :: rat

definition finish :: "job \<Rightarrow> saturated_by \<Rightarrow> rat \<Rightarrow> job \<times> action" where
  "finish j by qps = (j\<lparr>jb_phase := CalDone,
       jb_result := Some \<lparr>cr_saturated_by = by, cr_per_pod_qps = qps\<rparr>\<rparr>, \<lparr>ac_done = True, ac_next_qps = 0\<rparr>)"

definition start :: "spec \<Rightarrow> job \<times> action" where
  "start s = (\<lparr>jb_spec = s, jb_phase = CalBracketing, jb_step_count = 0, jb_lo_requested = 0,
       jb_lo_achieved = 0, jb_hi_requested = 0, jb_result = None\<rparr>,
     \<lparr>ac_done = False, ac_next_qps = sp_seed_qps s\<rparr>)"

definition double_or_finish :: "job \<Rightarrow> job \<times> action" where
  "double_or_finish j =
     (let nxt = fmul (jb_lo_requested j) 2 in
      if sp_max_qps (jb_spec j) < nxt \<or> sp_max_steps (jb_spec j) \<le> jb_step_count j
      then finish j SaturatedByNeither (jb_lo_achieved j)
      else (j, \<lparr>ac_done = False, ac_next_qps = nxt\<rparr>))"

definition bisect_or_finish :: "job \<Rightarrow> job \<times> action" where
  "bisect_or_finish j =
     (let width = fsub (jb_hi_requested j) (jb_lo_requested j) in
      if width \<le> BisectionToleranceQPS \<or> sp_max_steps (jb_spec j) \<le> jb_step_count j
      then finish j SaturatedByEngine (jb_lo_achieved j)
      else let mid = fadd (jb_lo_requested j) (fdiv width 2)
           in (j, \<lparr>ac_done = False, ac_next_qps = mid\<rparr>))"

definition next_step :: "job \<Rightarrow> cal_step \<Rightarrow> job \<times> action" where
  "next_step j st =
     (let j = j\<lparr>jb_step_count := i64 (jb_step_count j + 1)\<rparr> in
      case cs_classification st of
        ClassificationTargetSaturated \<Rightarrow> finish j SaturatedByTarget (cs_achieved_qps st)
      | ClassificationEngineSaturated \<Rightarrow>
          let j = (if jb_phase j = CalBracketing then j\<lparr>jb_phase := CalBisecting\<rparr> else j)
          in bisect_or_finish (j\<lparr>jb_hi_requested := cs_requested_qps st\<rparr>)
      | ClassificationClean \<Rightarrow>
          let j = j\<lparr>jb_lo_requested := cs_requested_qps st, jb_lo_achieved := cs_achieved_qps st\<rparr>
          in if jb_phase j = CalBracketing then double_or_finish j else bisect_or_finish j)"

text \<open>The search as it is driven, with the steps run so far.\<close>

inductive searching :: "spec \<Rightarrow> cal_step list \<Rightarrow> job \<Rightarrow> action \<Rightarrow> bool" for s where
  begin_search: "start s = (j, a) \<Longrightarrow> searching s [] j a"
| run_step: "searching s hist j a \<Longrightarrow> \<not> ac_done a \<Longrightarrow> cs_requested_qps st = ac_next_qps a
    \<Longrightarrow> next_step j st = (j', a') \<Longrightarrow> searching s (hist @ [st]) j' a'"

text \<open>Driving a search with a list of outcomes (achieved rate and class), until it is done.\<close>

fun drive :: "(rat \<times> classification) list \<Rightarrow> job \<Rightarrow> action \<Rightarrow> cal_step list \<Rightarrow> cal_step list \<times> job \<times> action" where
  "drive [] j a hist = (hist, j, a)"
| "drive ((ach, cls) # os) j a hist =
     (if ac_done a then (hist, j, a)
      else let st = \<lparr>cs_requested_qps = ac_next_qps a, cs_achieved_qps = ach, cs_classification = cls\<rparr>;
               (j', a') = next_step j st
           in drive os j' a' (hist @ [st]))"

text \<open>Capacity profiles and fan-out.\<close>

record capacity_profile =
  cp_scenario_id :: int
  cp_engine :: string
  cp_cpu :: string
  cp_memory :: string
  cp_per_pod_qps :: rat
  cp_saturated_by :: saturated_by
  cp_scenario_fingerprint :: string
  cp_calibrated_at :: time
  cp_job_id :: int

datatype fan_out_status = StatusOK | StatusTargetLimited | StatusInconclusive | StatusEngineFloor
  | StatusStale | StatusNoProfile

definition fan_out :: "capacity_profile option \<Rightarrow> rat \<Rightarrow> string \<Rightarrow> fan_out_status \<times> int" where
  "fan_out profile targetQPS currentFingerprint =
     (case profile of None \<Rightarrow> (StatusNoProfile, 0)
      | Some p \<Rightarrow>
        if cp_scenario_fingerprint p \<noteq> currentFingerprint then (StatusStale, 0)
        else if cp_saturated_by p = SaturatedByTarget then (StatusTargetLimited, 0)
        else if cp_saturated_by p = SaturatedByEngine \<and> cp_per_pod_qps p \<le> 0 then (StatusEngineFloor, 0)
        else if cp_saturated_by p \<noteq> SaturatedByEngine then (StatusInconclusive, 0)
        else (StatusOK, int_of_f64 (math_ceil (fdiv targetQPS (cp_per_pod_qps p)))))"

inductive_cases searchingE: "searching s hist j a"

section \<open>Bisection in floating point\<close>

lemma fdiv_2: "is_f64 w \<Longrightarrow> fdiv w 2 = w / 2"
  by (simp add: fdiv_def rnd64_exact is_f64_half)

lemma fmul_2: "is_f64 w \<Longrightarrow> fmul w 2 = w * 2"
  by (simp add: fmul_def rnd64_exact is_f64_double)

text \<open>The midpoint lies strictly inside the bracket as long as rates stay below \<open>2 ^ 50\<close>.\<close>

lemma midpoint_inside:
  assumes f: "is_f64 lo" "is_f64 hi" and b: "0 \<le> lo" "lo < hi" "hi \<le> 2 ^ 50"
    and w: "1 < fsub hi lo"
  shows "lo < fadd lo (fdiv (fsub hi lo) 2)" "fadd lo (fdiv (fsub hi lo) 2) < hi"
proof -
  define d where "d = hi - lo"
  define m where "m = lo + fsub hi lo / 2"
  have d: "0 \<le> d" using b by (simp add: d_def)
  have W: "d * (1 - 1 / 2 ^ 53) \<le> fsub hi lo" "fsub hi lo \<le> d * (1 + 1 / 2 ^ 53)"
    using rnd64_lower[OF d] rnd64_upper[OF d] by (simp_all add: fsub_def d_def)
  have d1: "1 / 2 < d" using W(2) w d by (simp add: field_simps)
  have m: "lo + 1 / 2 < m" "m \<le> hi - d * (1 / 2 - 1 / 2 ^ 54)" "0 \<le> m"
    using w W(2) b d by (simp_all add: m_def d_def field_simps)
  have gap: "1 / 8 < d * (1 / 2 - 1 / 2 ^ 54)" using d1 by simp
  have mhi: "m \<le> 2 ^ 50" using m(2) gap b(3) by linarith
  have mid: "fadd lo (fdiv (fsub hi lo) 2) = rnd64 m"
    by (simp add: fadd_def m_def fdiv_2)
  have "m - 1 / 8 \<le> rnd64 m" "rnd64 m \<le> m + 1 / 8"
    using rnd64_lower[OF m(3)] rnd64_upper[OF m(3)] mhi by (simp_all add: field_simps)
  then show "lo < fadd lo (fdiv (fsub hi lo) 2)" "fadd lo (fdiv (fsub hi lo) 2) < hi"
    using m(1,2) gap unfolding mid by linarith+
qed

section \<open>What a search knows\<close>

text \<open>The floor is the highest rate that ran clean, with what the pod achieved there, or zero.\<close>

definition floor_of :: "cal_step list \<Rightarrow> rat \<Rightarrow> rat \<Rightarrow> bool" where
  "floor_of hist lo ach \<longleftrightarrow>
     (\<forall>st \<in> set hist. cs_classification st = ClassificationClean \<longrightarrow> cs_requested_qps st \<le> lo) \<and>
     (if \<exists>st \<in> set hist. cs_classification st = ClassificationClean
      then \<exists>st \<in> set hist. cs_classification st = ClassificationClean \<and> cs_requested_qps st = lo \<and> cs_achieved_qps st = ach
      else lo = 0 \<and> ach = 0)"

text \<open>The ceiling is the lowest rate at which the engine saturated.\<close>

definition ceiling_of :: "cal_step list \<Rightarrow> rat \<Rightarrow> bool" where
  "ceiling_of hist hi \<longleftrightarrow>
     (\<forall>st \<in> set hist. cs_classification st = ClassificationEngineSaturated \<longrightarrow> hi \<le> cs_requested_qps st) \<and>
     (\<exists>st \<in> set hist. cs_classification st = ClassificationEngineSaturated \<and> cs_requested_qps st = hi)"

definition all_clean :: "cal_step list \<Rightarrow> bool" where
  "all_clean hist \<longleftrightarrow> (\<forall>st \<in> set hist. cs_classification st = ClassificationClean)"

text \<open>What each verdict of a finished search means of the steps that were run.\<close>

definition verdict_ok :: "spec \<Rightarrow> cal_step list \<Rightarrow> job \<Rightarrow> bool" where
  "verdict_ok s hist j \<longleftrightarrow>
     (case jb_result j of None \<Rightarrow> False
      | Some r \<Rightarrow>
        (case cr_saturated_by r of
           SaturatedByTarget \<Rightarrow> hist \<noteq> [] \<and> cs_classification (last hist) = ClassificationTargetSaturated \<and>
             cr_per_pod_qps r = cs_achieved_qps (last hist)
         | SaturatedByEngine \<Rightarrow> floor_of hist (jb_lo_requested j) (cr_per_pod_qps r) \<and>
             ceiling_of hist (jb_hi_requested j) \<and> jb_lo_requested j < jb_hi_requested j \<and>
             (fsub (jb_hi_requested j) (jb_lo_requested j) \<le> BisectionToleranceQPS \<or> int (length hist) = sp_max_steps s)
         | SaturatedByNeither \<Rightarrow> hist \<noteq> [] \<and> all_clean hist \<and>
             floor_of hist (jb_lo_requested j) (cr_per_pod_qps r) \<and>
             (sp_max_qps s < 2 * jb_lo_requested j \<or> int (length hist) = sp_max_steps s)))"

text \<open>A search the service accepts: a positive seed below the ceiling, rates that are floats and
  small enough for the midpoint to be distinct, a step budget that fits \<open>int\<close>.\<close>

definition spec_ok :: "spec \<Rightarrow> bool" where
  "spec_ok s \<longleftrightarrow> spec_validate s = None \<and> is_f64 (sp_seed_qps s) \<and> is_f64 (sp_max_qps s) \<and>
     sp_max_qps s \<le> 2 ^ 50 \<and> in_i64 (sp_max_steps s)"

definition search_inv :: "spec \<Rightarrow> cal_step list \<Rightarrow> job \<Rightarrow> action \<Rightarrow> bool" where
  "search_inv s hist j a \<longleftrightarrow>
     jb_spec j = s \<and> jb_step_count j = int (length hist) \<and> int (length hist) \<le> sp_max_steps s \<and>
     (\<forall>st \<in> set hist. 0 < cs_requested_qps st \<and> cs_requested_qps st \<le> sp_max_qps s) \<and>
     (if ac_done a then jb_phase j = CalDone \<and> verdict_ok s hist j
      else jb_result j = None \<and> int (length hist) < sp_max_steps s \<and>
        floor_of hist (jb_lo_requested j) (jb_lo_achieved j) \<and>
        is_f64 (jb_lo_requested j) \<and> 0 \<le> jb_lo_requested j \<and> is_f64 (ac_next_qps a) \<and>
        jb_lo_requested j < ac_next_qps a \<and> ac_next_qps a \<le> sp_max_qps s \<and>
        (jb_phase j = CalBracketing \<and> all_clean hist \<or>
         jb_phase j = CalBisecting \<and> ceiling_of hist (jb_hi_requested j) \<and> is_f64 (jb_hi_requested j) \<and>
           ac_next_qps a < jb_hi_requested j \<and> jb_hi_requested j \<le> sp_max_qps s))"

lemma floor_of_clean:
  "floor_of hist lo ach \<Longrightarrow> lo \<le> cs_requested_qps st \<Longrightarrow> cs_classification st = ClassificationClean
   \<Longrightarrow> floor_of (hist @ [st]) (cs_requested_qps st) (cs_achieved_qps st)"
  by (auto simp: floor_of_def)

lemma floor_of_other:
  "cs_classification st \<noteq> ClassificationClean \<Longrightarrow> floor_of (hist @ [st]) lo ach = floor_of hist lo ach"
  by (auto simp: floor_of_def)

lemma ceiling_of_saturated:
  "all_clean hist \<or> ceiling_of hist hi \<and> cs_requested_qps st \<le> hi \<Longrightarrow>
   cs_classification st = ClassificationEngineSaturated \<Longrightarrow> ceiling_of (hist @ [st]) (cs_requested_qps st)"
  by (force simp: ceiling_of_def all_clean_def)

lemma ceiling_of_other:
  "cs_classification st \<noteq> ClassificationEngineSaturated \<Longrightarrow> ceiling_of (hist @ [st]) hi = ceiling_of hist hi"
  by (auto simp: ceiling_of_def)

lemma all_clean_snoc: "all_clean (hist @ [st]) \<longleftrightarrow> all_clean hist \<and> cs_classification st = ClassificationClean"
  by (auto simp: all_clean_def)

lemma spec_okD:
  assumes "spec_ok s"
  shows "0 < sp_seed_qps s" "sp_seed_qps s < sp_max_qps s" "0 < sp_max_steps s" "is_f64 (sp_seed_qps s)"
    "is_f64 (sp_max_qps s)" "sp_max_qps s \<le> 2 ^ 50" "sp_max_steps s < 2 ^ 63"
  using assms by (auto simp: spec_ok_def spec_validate_def in_i64_def split: if_splits)

lemma search_inv_start: "spec_ok s \<Longrightarrow> start s = (j, a) \<Longrightarrow> search_inv s [] j a"
  using spec_okD[of s] by (auto simp: start_def search_inv_def floor_of_def all_clean_def)

text \<open>The three ways a step continues: the bracket after a clean or a saturated step bisects or
  ends, and a clean step while bracketing doubles or ends.\<close>

lemma bisect_keeps_inv:
  assumes s: "spec_ok s" and j: "jb_spec j = s" "jb_result j = None" "jb_phase j = CalBisecting"
      "jb_step_count j = int (length hist)" "int (length hist) \<le> sp_max_steps s"
    and h: "\<forall>st \<in> set hist. 0 < cs_requested_qps st \<and> cs_requested_qps st \<le> sp_max_qps s"
    and f: "floor_of hist (jb_lo_requested j) (jb_lo_achieved j)" "is_f64 (jb_lo_requested j)" "0 \<le> jb_lo_requested j"
    and c: "ceiling_of hist (jb_hi_requested j)" "is_f64 (jb_hi_requested j)" "jb_hi_requested j \<le> sp_max_qps s"
      "jb_lo_requested j < jb_hi_requested j"
    and b: "bisect_or_finish j = (j', a')"
  shows "search_inv s hist j' a'"
proof (cases "fsub (jb_hi_requested j) (jb_lo_requested j) \<le> BisectionToleranceQPS \<or> sp_max_steps s \<le> int (length hist)")
  case True
  then show ?thesis using assms by (auto simp: bisect_or_finish_def finish_def search_inv_def verdict_ok_def Let_def)
next
  case False
  have "jb_hi_requested j \<le> 2 ^ 50" using c(3) spec_okD(6)[OF s] by linarith
  then have "jb_lo_requested j < fadd (jb_lo_requested j) (fdiv (fsub (jb_hi_requested j) (jb_lo_requested j)) 2)"
    "fadd (jb_lo_requested j) (fdiv (fsub (jb_hi_requested j) (jb_lo_requested j)) 2) < jb_hi_requested j"
    using False f c by (auto intro!: midpoint_inside simp: BisectionToleranceQPS_def)
  then show ?thesis using False assms by (auto simp: bisect_or_finish_def search_inv_def Let_def)
qed

lemma double_keeps_inv:
  assumes s: "spec_ok s" and j: "jb_spec j = s" "jb_result j = None" "jb_phase j = CalBracketing"
      "jb_step_count j = int (length hist)" "int (length hist) \<le> sp_max_steps s"
    and h: "\<forall>st \<in> set hist. 0 < cs_requested_qps st \<and> cs_requested_qps st \<le> sp_max_qps s" "all_clean hist" "hist \<noteq> []"
    and f: "floor_of hist (jb_lo_requested j) (jb_lo_achieved j)" "is_f64 (jb_lo_requested j)" "0 < jb_lo_requested j"
    and d: "double_or_finish j = (j', a')"
  shows "search_inv s hist j' a'"
  using assms
  by (auto simp: double_or_finish_def finish_def search_inv_def verdict_ok_def Let_def fmul_2 mult.commute
      is_f64_double split: if_splits)

lemma search_inv_step:
  assumes s: "spec_ok s" and i: "search_inv s hist j a" "\<not> ac_done a"
    and st: "cs_requested_qps st = ac_next_qps a" and n: "next_step j st = (j', a')"
  shows "search_inv s (hist @ [st]) j' a'"
proof -
  define j1 where "j1 = j\<lparr>jb_step_count := i64 (jb_step_count j + 1)\<rparr>"
  have len: "int (length hist) < sp_max_steps s" using i by (simp add: search_inv_def)
  then have cnt: "i64 (jb_step_count j + 1) = int (length (hist @ [st]))"
    using i spec_okD(7)[OF s] by (simp add: search_inv_def in_i64_def)
  have h: "\<forall>x \<in> set (hist @ [st]). 0 < cs_requested_qps x \<and> cs_requested_qps x \<le> sp_max_qps s"
    using i st by (auto simp: search_inv_def)
  show ?thesis
  proof (cases "cs_classification st")
    case ClassificationTargetSaturated
    then show ?thesis using n i len cnt h
      by (auto simp: next_step_def finish_def search_inv_def verdict_ok_def Let_def)
  next
    case ClassificationEngineSaturated
    define j2 where "j2 = (if jb_phase j1 = CalBracketing then j1\<lparr>jb_phase := CalBisecting\<rparr> else j1)\<lparr>jb_hi_requested := cs_requested_qps st\<rparr>"
    have "bisect_or_finish j2 = (j', a')"
      using n ClassificationEngineSaturated
      by (simp add: next_step_def Let_def j1_def j2_def split: if_splits)
    moreover have "ceiling_of (hist @ [st]) (ac_next_qps a)"
      using i st ceiling_of_saturated[OF _ ClassificationEngineSaturated, of hist "jb_hi_requested j"]
      by (auto simp: search_inv_def)
    ultimately show ?thesis
      using i st len cnt h ClassificationEngineSaturated
      by (intro bisect_keeps_inv[OF s _ _ _ _ _ h, of j2])
        (auto simp: search_inv_def j2_def j1_def floor_of_other)
  next
    case ClassificationClean
    define j2 where "j2 = j1\<lparr>jb_lo_requested := cs_requested_qps st, jb_lo_achieved := cs_achieved_qps st\<rparr>"
    have fl: "floor_of (hist @ [st]) (cs_requested_qps st) (cs_achieved_qps st)"
      using i st ClassificationClean by (intro floor_of_clean) (auto simp: search_inv_def)
    show ?thesis
    proof (cases "jb_phase j = CalBracketing")
      case True
      have "double_or_finish j2 = (j', a')"
        using n ClassificationClean True by (simp add: next_step_def Let_def j1_def j2_def)
      then show ?thesis
        using i st len cnt h ClassificationClean True fl
        by (intro double_keeps_inv[OF s _ _ _ _ _ h, of j2])
          (auto simp: search_inv_def j2_def j1_def all_clean_snoc)
    next
      case False
      have "bisect_or_finish j2 = (j', a')"
        using n ClassificationClean False by (simp add: next_step_def Let_def j1_def j2_def)
      then show ?thesis
        using i st len cnt h ClassificationClean False fl
        by (intro bisect_keeps_inv[OF s _ _ _ _ _ h, of j2])
          (auto simp: search_inv_def j2_def j1_def ceiling_of_other)
    qed
  qed
qed

lemma searching_inv: "searching s hist j a \<Longrightarrow> spec_ok s \<Longrightarrow> search_inv s hist j a"
  by (induction rule: searching.induct) (auto intro: search_inv_start search_inv_step)

section \<open>The search\<close>

text \<open>
  C20. However the steps turn out, the search never asks for a rate above \<open>MaxQPS\<close> or a
  non-positive one, runs at most \<open>MaxSteps\<close> steps, and an unfinished search has a step left in
  its budget and a next rate strictly above everything that ran clean and strictly below
  everything that saturated the engine.
\<close>

theorem search_within_bounds:
  assumes "spec_ok s" "searching s hist j a"
  shows "int (length hist) \<le> sp_max_steps s \<and>
    (\<forall>st \<in> set hist. 0 < cs_requested_qps st \<and> cs_requested_qps st \<le> sp_max_qps s) \<and>
    (\<not> ac_done a \<longrightarrow> int (length hist) < sp_max_steps s \<and> 0 < ac_next_qps a \<and> ac_next_qps a \<le> sp_max_qps s \<and>
      (\<forall>st \<in> set hist. (cs_classification st = ClassificationClean \<longrightarrow> cs_requested_qps st < ac_next_qps a) \<and>
        (cs_classification st = ClassificationEngineSaturated \<longrightarrow> ac_next_qps a < cs_requested_qps st)))"
proof -
  have inv: "search_inv s hist j a" by (rule searching_inv[OF assms(2,1)])
  then show ?thesis
    by (fastforce simp: search_inv_def floor_of_def ceiling_of_def all_clean_def)
qed

text \<open>
  C21. A finished search's verdict is what its steps showed. Blaming the engine means: some rate
  saturated the engine, every clean rate lies below every saturated one, \<open>PerPodQPS\<close> is what
  the pod achieved at the highest clean rate (zero if none was), and the gap is within the
  tolerance unless the budget ran out. Blaming neither means every step was clean and doubling
  again would exceed \<open>MaxQPS\<close>, or the budget ran out. Blaming the target means the last step
  tripped the target's criterion and \<open>PerPodQPS\<close> is what it achieved.
\<close>

theorem search_verdict:
  assumes "spec_ok s" "searching s hist j a" "ac_done a"
  shows "jb_phase j = CalDone \<and> verdict_ok s hist j"
  using searching_inv[OF assms(2,1)] assms(3) by (simp add: search_inv_def)

lemma drive_searching:
  "searching s hist j a \<Longrightarrow> drive os j a hist = (hist', j', a') \<Longrightarrow> searching s hist' j' a'"
proof (induction os j a hist rule: drive.induct)
  case (2 ach cls os j a hist)
  show ?case
  proof (cases "ac_done a")
    case False
    define st where "st = \<lparr>cs_requested_qps = ac_next_qps a, cs_achieved_qps = ach, cs_classification = cls\<rparr>"
    obtain j1 a1 where n: "next_step j st = (j1, a1)" by fastforce
    have "searching s (hist @ [st]) j1 a1"
      using 2(2) False n by (intro run_step[of _ _ j a]) (simp_all add: st_def)
    then show ?thesis using 2(1)[OF False st_def n[symmetric] refl] 2(3) False n by (simp add: st_def Let_def)
  qed (use 2 in simp)
qed simp

lemma drive_length:
  "drive os j a hist = (hist', j', a') \<Longrightarrow> \<not> ac_done a' \<Longrightarrow> length hist' = length hist + length os"
  by (induction os j a hist rule: drive.induct) (auto simp: Let_def split: if_splits prod.splits)

text \<open>
  C22. The search always finishes: driven with any outcomes whatsoever, at least \<open>MaxSteps\<close> of
  them, it is done, with a result.
\<close>

theorem search_terminates:
  assumes "spec_ok s" "sp_max_steps s \<le> int (length os)" "start s = (j, a)" "drive os j a [] = (hist, j', a')"
  shows "ac_done a' \<and> jb_result j' \<noteq> None \<and> int (length hist) \<le> sp_max_steps s"
proof -
  have inv: "search_inv s hist j' a'"
    using drive_searching[OF begin_search[OF assms(3)] assms(4)] assms(1) by (rule searching_inv)
  then have "ac_done a'" using drive_length[OF assms(4)] assms(2) by (cases "ac_done a'") (auto simp: search_inv_def)
  then show ?thesis using inv by (auto simp: search_inv_def verdict_ok_def split: option.splits)
qed

text \<open>A small search: clean at 1, the engine saturates at 2, and the bracket is within tolerance.\<close>

definition demo_spec :: spec where
  "demo_spec = \<lparr>sp_criterion = ''failures>5%'', sp_cpu = ''1'', sp_memory = ''512Mi'', sp_seed_qps = 1,
     sp_max_qps = 4, sp_max_steps = 3, sp_hold_seconds = 30\<rparr>"

definition demo_outcomes :: "(rat \<times> classification) list" where
  "demo_outcomes = [(1, ClassificationClean), (1, ClassificationEngineSaturated), (1, ClassificationClean)]"

lemma demo_spec_ok: "spec_ok demo_spec"
  using is_f64_of_int[of 1] is_f64_of_int[of 4] by (simp add: demo_spec_def spec_ok_def spec_validate_def in_i64_def)

lemma demo_start: "start demo_spec = (fst (start demo_spec), snd (start demo_spec))"
  by simp

lemma demo_drive:
  "let (hist, j, a) = drive demo_outcomes (fst (start demo_spec)) (snd (start demo_spec)) []
   in map cs_requested_qps hist = [1, 2] \<and> ac_done a \<and>
      jb_result j = Some \<lparr>cr_saturated_by = SaturatedByEngine, cr_per_pod_qps = 1\<rparr>"
  by code_simp

lemma demo_run:
  obtains hist j a where "drive demo_outcomes (fst (start demo_spec)) (snd (start demo_spec)) [] = (hist, j, a)"
    "searching demo_spec hist j a" "map cs_requested_qps hist = [1, 2]" "ac_done a"
  using demo_drive drive_searching[OF begin_search[OF demo_start]] by (auto simp: Let_def split: prod.splits)

theorem search_within_bounds_witness:
  "\<exists>hist j a. searching demo_spec hist j a \<and> map cs_requested_qps hist = [1, 2] \<and> int (length hist) \<le> 3"
proof -
  obtain hist j a where "searching demo_spec hist j a" "map cs_requested_qps hist = [1, 2]" by (rule demo_run)
  then show ?thesis using search_within_bounds[OF demo_spec_ok] by (fastforce simp: demo_spec_def)
qed

theorem search_verdict_witness:
  "\<exists>hist j a. searching demo_spec hist j a \<and> ac_done a \<and> verdict_ok demo_spec hist j"
proof -
  obtain hist j a where "searching demo_spec hist j a" "ac_done a" by (rule demo_run)
  then show ?thesis using search_verdict[OF demo_spec_ok] by blast
qed

theorem search_terminates_witness:
  "\<exists>hist j a. drive demo_outcomes (fst (start demo_spec)) (snd (start demo_spec)) [] = (hist, j, a) \<and>
     ac_done a \<and> jb_result j \<noteq> None"
proof -
  obtain hist j a where d: "drive demo_outcomes (fst (start demo_spec)) (snd (start demo_spec)) [] = (hist, j, a)"
    by (rule demo_run)
  have "sp_max_steps demo_spec \<le> int (length demo_outcomes)" by (simp add: demo_spec_def demo_outcomes_def)
  then show ?thesis using search_terminates[OF demo_spec_ok _ demo_start d] d by blast
qed

section \<open>Fan-out\<close>

text \<open>
  An engine count is only ever given for a fresh, engine-limited profile with a positive
  capacity, and is then enough: the pods' capacity reaches the target to within one part in
  \<open>2 ^ 53\<close>, the rounding of the float division, and one pod fewer would not exceed it by more.
  Every other answer carries no count.
\<close>

theorem fan_out_count:
  assumes "0 \<le> target" "fan_out profile target fp = (st, n)"
  shows "(st \<noteq> StatusOK \<longrightarrow> n = 0) \<and>
    (st = StatusOK \<longrightarrow> (\<exists>p. profile = Some p \<and> cp_scenario_fingerprint p = fp \<and>
       cp_saturated_by p = SaturatedByEngine \<and> 0 < cp_per_pod_qps p \<and>
       target * (1 - 1 / 2 ^ 53) \<le> of_int n * cp_per_pod_qps p \<and>
       of_int (n - 1) * cp_per_pod_qps p < target * (1 + 1 / 2 ^ 53)))"
proof (cases "st = StatusOK")
  case False
  then show ?thesis using assms(2) by (auto simp: fan_out_def split: option.splits if_splits)
next
  case True
  then obtain p where p: "profile = Some p" "cp_scenario_fingerprint p = fp" "cp_saturated_by p = SaturatedByEngine"
    "0 < cp_per_pod_qps p" "n = \<lceil>fdiv target (cp_per_pod_qps p)\<rceil>"
    using assms(2) by (auto simp: fan_out_def not_le split: option.splits if_splits)
  let ?q = "cp_per_pod_qps p"
  have q0: "0 \<le> target / ?q" using assms(1) p(4) by simp
  have "fdiv target ?q \<le> of_int n" "of_int n - 1 < fdiv target ?q" unfolding p(5) by linarith+
  then have "target / ?q * (1 - 1 / 2 ^ 53) \<le> of_int n" "of_int n - 1 < target / ?q * (1 + 1 / 2 ^ 53)"
    using rnd64_lower[OF q0] rnd64_upper[OF q0] unfolding fdiv_def by linarith+
  then have "target * (1 - 1 / 2 ^ 53) \<le> of_int n * ?q" "of_int (n - 1) * ?q < target * (1 + 1 / 2 ^ 53)"
    using p(4) by (simp_all add: field_simps)
  then show ?thesis using p True by auto
qed

theorem fan_out_count_witness:
  "fan_out (Some \<lparr>cp_scenario_id = 1, cp_engine = ''jmeter'', cp_cpu = ''1'', cp_memory = ''1Gi'',
     cp_per_pod_qps = 40, cp_saturated_by = SaturatedByEngine, cp_scenario_fingerprint = ''f'',
     cp_calibrated_at = 0, cp_job_id = 1\<rparr>) 100 ''f'' = (StatusOK, 3) \<and> (100::rat) * (1 - 1 / 2 ^ 53) \<le> 3 * 40"
proof -
  have f: "fan_out (Some \<lparr>cp_scenario_id = 1, cp_engine = ''jmeter'', cp_cpu = ''1'', cp_memory = ''1Gi'',
     cp_per_pod_qps = 40, cp_saturated_by = SaturatedByEngine, cp_scenario_fingerprint = ''f'',
     cp_calibrated_at = 0, cp_job_id = 1\<rparr>) 100 ''f'' = (StatusOK, 3)"
    by code_simp
  show ?thesis using fan_out_count[OF _ f] f by simp
qed

end
