(* ===== verification/Metrics.thy ===== *)
theory Metrics
  imports Honryu_Prelude Go_Float
begin

text \<open>
  The aggregation domain of \<open>internal/domain/metrics\<close>: response-time histograms, their
  percentiles by nearest rank, one second of measurement from one pod, and how several pods'
  measurements merge. The reference for a percentile is the sorted list of the samples a
  histogram stands for.
\<close>

section \<open>Histograms\<close>

type_synonym histogram = "(rat, int) gomap"

text \<open>\<open>h[rt] += n\<close>\<close>

definition bump :: "'k \<Rightarrow> int \<Rightarrow> ('k, int) gomap \<Rightarrow> ('k, int) gomap" where
  "bump k n m = mput k (i64 (mget_or 0 m k + n)) m"

definition hist_merge :: "('k, int) gomap \<Rightarrow> ('k, int) gomap \<Rightarrow> ('k, int) gomap" where
  "hist_merge h other = fold (\<lambda>(rt, n). bump rt n) other h"

definition hist_count :: "('k, int) gomap \<Rightarrow> int" where
  "hist_count h = sum64 (mvals h) 0"

text \<open>The rank of a percentile among \<open>total\<close> samples, with the percentile clamped to 0..100.\<close>

definition rank_of :: "rat \<Rightarrow> int \<Rightarrow> int" where
  "rank_of p cnt =
     (let p = min (max p 0) 100;
          rank = int_of_f64 (math_ceil (fmul (fdiv p 100) (f64_of_int cnt)))
      in if rank < 1 then 1 else rank)"

text \<open>The loop over the buckets: the first one at which the running count reaches the rank.\<close>

fun first_reaching :: "histogram \<Rightarrow> int \<Rightarrow> int \<Rightarrow> rat list \<Rightarrow> rat option" where
  "first_reaching h rank seen [] = None"
| "first_reaching h rank seen (rt # rts) =
     (let seen = i64 (seen + mget_or 0 h rt)
      in if rank \<le> seen then Some rt else first_reaching h rank seen rts)"

definition percentile :: "histogram \<Rightarrow> rat \<Rightarrow> rat" where
  "percentile h p =
     (let cnt = hist_count h in
      if cnt = 0 then 0
      else let buckets = sort (mkeys h) in
        case first_reaching h (rank_of p cnt) 0 buckets of Some rt \<Rightarrow> rt | None \<Rightarrow> last buckets)"

text \<open>The inner loop of \<open>Percentiles\<close>: the percentiles still open that this bucket reaches.\<close>

fun settle :: "int \<Rightarrow> int \<Rightarrow> rat \<Rightarrow> rat list \<Rightarrow> (rat, rat) gomap \<Rightarrow> rat list \<times> (rat, rat) gomap" where
  "settle cnt seen rt [] out = ([], out)"
| "settle cnt seen rt (p # ps) out =
     (if seen < rank_of p cnt then (p # ps, out) else settle cnt seen rt ps (mput p rt out))"

fun settle_all :: "histogram \<Rightarrow> int \<Rightarrow> int \<Rightarrow> rat list \<Rightarrow> rat list \<Rightarrow> (rat, rat) gomap \<Rightarrow> rat list \<times> (rat, rat) gomap" where
  "settle_all h cnt seen [] ps out = (ps, out)"
| "settle_all h cnt seen (rt # rts) ps out =
     (let seen = i64 (seen + mget_or 0 h rt); (ps, out) = settle cnt seen rt ps out
      in settle_all h cnt seen rts ps out)"

definition percentiles :: "histogram \<Rightarrow> rat list \<Rightarrow> (rat, rat) gomap" where
  "percentiles h ps =
     (let cnt = hist_count h in
      if cnt = 0 then fold (\<lambda>p. mput p 0) ps []
      else let buckets = sort (mkeys h);
               (rest, out) = settle_all h cnt 0 buckets (sort ps) []
           in fold (\<lambda>p. mput p (last buckets)) rest out)"

section \<open>Intervals\<close>

record error_group =
  eg_message :: string
  eg_response_code :: string
  eg_count :: int

record interval =
  iv_seq :: int
  iv_timestamp :: int
  iv_label :: string
  iv_concurrency :: int
  iv_samples :: int
  iv_succeeded :: int
  iv_failed :: int
  iv_bytes :: int
  iv_latency :: histogram
  iv_response_codes :: "(string, int) gomap"
  iv_errors :: "error_group list"

record batch =
  bt_execution_id :: int
  bt_scenario_id :: int
  bt_run_id :: int
  bt_shard_index :: int
  bt_stream_id :: string
  bt_intervals :: "interval list"
  bt_cluster :: string
  bt_final :: bool
  bt_exit_code :: "int option"

fun merge_error :: "error_group list \<Rightarrow> error_group \<Rightarrow> error_group list" where
  "merge_error [] e = [e]"
| "merge_error (x # xs) e =
     (if eg_response_code x = eg_response_code e \<and> eg_message x = eg_message e
      then x\<lparr>eg_count := i64 (eg_count x + eg_count e)\<rparr> # xs
      else x # merge_error xs e)"

definition interval_merge :: "interval \<Rightarrow> interval \<Rightarrow> interval" where
  "interval_merge i other = i\<lparr>
     iv_concurrency := i64 (iv_concurrency i + iv_concurrency other),
     iv_samples := i64 (iv_samples i + iv_samples other),
     iv_succeeded := i64 (iv_succeeded i + iv_succeeded other),
     iv_failed := i64 (iv_failed i + iv_failed other),
     iv_bytes := i64 (iv_bytes i + iv_bytes other),
     iv_latency := hist_merge (iv_latency i) (iv_latency other),
     iv_response_codes := hist_merge (iv_response_codes i) (iv_response_codes other),
     iv_errors := foldl merge_error (iv_errors i) (iv_errors other)\<rparr>"

section \<open>One pass over the buckets gives every percentile\<close>

lemma rank_of_eq: "rank_of p cnt = max 1 \<lceil>fmul (fdiv (min (max p 0) 100) 100) (f64_of_int cnt)\<rceil>"
proof -
  have "(if x < 1 then 1 else x) = max 1 x" for x :: int by auto
  then show ?thesis unfolding rank_of_def Let_def int_math_ceil by blast
qed

lemma rank_of_mono: "p \<le> q \<Longrightarrow> 0 \<le> cnt \<Longrightarrow> rank_of p cnt \<le> rank_of q cnt"
proof -
  assume a: "p \<le> q" "0 \<le> cnt"
  have "fdiv (min (max p 0) 100) 100 \<le> fdiv (min (max q 0) 100) 100" using a(1) by (intro fdiv_mono) auto
  moreover have "0 \<le> fdiv (min (max p 0) 100) 100" by (intro fdiv_nonneg) auto
  moreover have "0 \<le> f64_of_int cnt" using a(2) by (simp add: f64_of_int_def rnd64_nonneg)
  ultimately have "\<lceil>fmul (fdiv (min (max p 0) 100) 100) (f64_of_int cnt)\<rceil>
      \<le> \<lceil>fmul (fdiv (min (max q 0) 100) 100) (f64_of_int cnt)\<rceil>"
    by (intro ceiling_mono fmul_mono) auto
  then show ?thesis unfolding rank_of_eq by (intro max.mono order_refl)
qed

lemma settle_spec:
  assumes "settle cnt seen rt ps out = (ps', out')"
  shows "\<exists>done. ps = done @ ps' \<and> (\<forall>p \<in> set done. rank_of p cnt \<le> seen) \<and>
    (ps' \<noteq> [] \<longrightarrow> seen < rank_of (hd ps') cnt) \<and>
    (\<forall>p. mget out' p = (if p \<in> set done then Some rt else mget out p))"
  using assms
proof (induction cnt seen rt ps out rule: settle.induct)
  case (2 cnt seen rt p ps out)
  show ?case
  proof (cases "seen < rank_of p cnt")
    case True
    then show ?thesis using 2(2) by (intro exI[of _ "[]"]) auto
  next
    case False
    then obtain d where "ps = d @ ps'" "\<forall>p \<in> set d. rank_of p cnt \<le> seen"
      "ps' \<noteq> [] \<longrightarrow> seen < rank_of (hd ps') cnt" "\<forall>q. mget out' q = (if q \<in> set d then Some rt else mget (mput p rt out) q)"
      using 2 by auto
    then show ?thesis using False by (intro exI[of _ "p # d"]) auto
  qed
qed auto

lemma settle_all_spec:
  assumes "settle_all h cnt seen rts ps out = (rest, out')" "sorted ps" "0 \<le> cnt"
  shows "set rest \<subseteq> set ps \<and>
    (\<forall>p \<in> set ps. first_reaching h (rank_of p cnt) seen rts = None \<longrightarrow> p \<in> set rest) \<and>
    (\<forall>p. p \<notin> set ps \<longrightarrow> mget out' p = mget out p) \<and>
    (\<forall>p \<in> set rest. first_reaching h (rank_of p cnt) seen rts = None) \<and>
    (\<forall>p \<in> set ps. \<forall>rt. first_reaching h (rank_of p cnt) seen rts = Some rt \<longrightarrow> mget out' p = Some rt)"
  using assms
proof (induction rts arbitrary: seen ps out)
  case (Cons rt rts)
  define sn where "sn = i64 (seen + mget_or 0 h rt)"
  obtain ps1 out1 where s: "settle cnt sn rt ps out = (ps1, out1)" by fastforce
  have s2: "settle_all h cnt sn rts ps1 out1 = (rest, out')"
    using Cons.prems(1) s by (simp add: sn_def Let_def)
  obtain d where d: "ps = d @ ps1" "\<forall>p \<in> set d. rank_of p cnt \<le> sn" "ps1 \<noteq> [] \<longrightarrow> sn < rank_of (hd ps1) cnt"
    "\<forall>p. mget out1 p = (if p \<in> set d then Some rt else mget out p)"
    using settle_spec[OF s] by auto
  have so: "sorted ps1" using Cons.prems(2) d(1) by (simp add: sorted_append)
  have late: "sn < rank_of p cnt" if "p \<in> set ps1" for p
  proof -
    have "hd ps1 \<le> p" using so that by (cases ps1) auto
    then show ?thesis using rank_of_mono[OF _ Cons.prems(3), of "hd ps1" p] d(3) that by fastforce
  qed
  note IH = Cons.IH[OF s2 so Cons.prems(3)]
  have step: "first_reaching h (rank_of p cnt) seen (rt # rts) =
      (if p \<in> set ps1 then first_reaching h (rank_of p cnt) sn rts else Some rt)" if "p \<in> set ps" for p
    using that d(1,2) late[of p] by (auto simp: sn_def[symmetric] Let_def)

  show ?case
  proof (intro conjI ballI allI impI)
    show "set rest \<subseteq> set ps" using IH d(1) by auto
    show "p \<in> set rest" if "p \<in> set ps" "first_reaching h (rank_of p cnt) seen (rt # rts) = None" for p
      using that step[OF that(1)] IH by (auto split: if_splits)
    show "mget out' p = mget out p" if "p \<notin> set ps" for p using that IH d(1,4) by auto
    show "first_reaching h (rank_of p cnt) seen (rt # rts) = None" if "p \<in> set rest" for p
      using that IH step[of p] d(1) by auto
    show "mget out' p = Some x" if p: "p \<in> set ps" "first_reaching h (rank_of p cnt) seen (rt # rts) = Some x" for p x
    proof (cases "p \<in> set ps1")
      case True
      then have "first_reaching h (rank_of p cnt) sn rts = Some x" using p(2) unfolding step[OF p(1)] by simp
      then show ?thesis using IH True by blast
    next
      case False
      then have "x = rt" "p \<in> set d" using p unfolding step[OF p(1)] by (simp_all add: d(1))
      moreover have "mget out' p = mget out1 p" using IH False by blast
      ultimately show ?thesis using d(4) by simp
    qed
  qed
qed auto

lemma mget_fold_const: "mget (fold (\<lambda>p. mput p v) ps m) p = (if p \<in> set ps then Some v else mget m p)"
  by (induction ps arbitrary: m) auto

text \<open>
  The single pass of \<open>Percentiles\<close> over the buckets gives, for every percentile asked for and
  nothing else, exactly what \<open>Percentile\<close> computes for it alone, for any histogram and any
  list of percentiles, unsorted, repeated or out of range included.
\<close>

theorem percentiles_eq_percentile:
  assumes "0 \<le> hist_count h"
  shows "mget (percentiles h ps) p = (if p \<in> set ps then Some (percentile h p) else None)"
proof (cases "hist_count h = 0")
  case True
  then show ?thesis by (simp add: percentiles_def percentile_def mget_fold_const)
next
  case False
  obtain rest out where s: "settle_all h (hist_count h) 0 (sort (mkeys h)) (sort ps) [] = (rest, out)" by fastforce
  note S = settle_all_spec[OF s sorted_sort assms]
  let ?f = "first_reaching h (rank_of p (hist_count h)) 0 (sort (mkeys h))"
  have "p \<in> set rest \<longleftrightarrow> p \<in> set ps \<and> ?f = None" using S by (metis set_sort subsetD)
  moreover have "p \<notin> set ps \<Longrightarrow> mget out p = None" using S by (metis set_sort mget_Nil)
  moreover have "p \<in> set ps \<Longrightarrow> ?f = Some rt \<Longrightarrow> mget out p = Some rt" for rt using S by (metis set_sort)
  moreover have "mget (percentiles h ps) p = (if p \<in> set rest then Some (last (sort (mkeys h))) else mget out p)"
    using False s by (simp add: percentiles_def mget_fold_const Let_def)
  moreover have "percentile h p = (case first_reaching h (rank_of p (hist_count h)) 0 (sort (mkeys h)) of
      Some rt \<Rightarrow> rt | None \<Rightarrow> last (sort (mkeys h)))"
    using False by (simp add: percentile_def Let_def)
  ultimately show ?thesis by (cases ?f; cases "p \<in> set ps") simp_all
qed

section \<open>Percentiles are nearest ranks of the pooled samples\<close>

text \<open>The samples a histogram stands for, in order.\<close>

definition samples :: "histogram \<Rightarrow> rat list" where
  "samples h = concat (map (\<lambda>rt. replicate (nat (mget_or 0 h rt)) rt) (sort (mkeys h)))"

definition hist_ok :: "histogram \<Rightarrow> bool" where
  "hist_ok h \<longleftrightarrow> wf_map h \<and> (\<forall>n \<in> set (mvals h). 0 \<le> n) \<and> sum_list (mvals h) \<le> 2 ^ 53"

lemma map_mget_or_mkeys: "wf_map h \<Longrightarrow> map (mget_or d h) (mkeys h) = mvals h"
  by (auto simp: mkeys_def mvals_def mget_or_def mget_in_set split: option.splits
      simp flip: not_Some_eq) (metis mget_in_set option.distinct(1) option.inject)

lemma mget_or_nonneg: "\<forall>n \<in> set (mvals h). (0::int) \<le> n \<Longrightarrow> 0 \<le> mget_or 0 h k"
  by (force simp: mget_or_def mvals_def dest: mget_SomeD split: option.splits)

lemma hist_sum_sorted:
  assumes "wf_map h"
  shows "sum_list (map (mget_or 0 h) (sort (mkeys h))) = sum_list (mvals (h :: histogram))"
proof -
  have "mset (map (mget_or 0 h) (sort (mkeys h))) = mset (map (mget_or 0 h) (mkeys h))" by simp
  then show ?thesis by (metis map_mget_or_mkeys[OF assms] sum_mset_sum_list)
qed

lemma hist_count_eq:
  assumes "hist_ok h"
  shows "hist_count h = sum_list (mvals h)"
proof -
  have "0 \<le> sum_list (mvals h)" using assms by (intro sum_list_nonneg) (simp add: hist_ok_def)
  then show ?thesis using assms by (simp add: hist_count_def sum64_0 hist_ok_def in_i64_def)
qed

lemma int_length_concat: "int (length (concat xss)) = sum_list (map (\<lambda>xs. int (length xs)) xss)"
  by (induction xss) simp_all

lemma length_samples: "hist_ok h \<Longrightarrow> int (length (samples h)) = hist_count h"
proof -
  assume ok: "hist_ok h"
  have "int (length (samples h)) = sum_list (map (\<lambda>rt. int (nat (mget_or 0 h rt))) (sort (mkeys h)))"
    unfolding samples_def int_length_concat map_map o_def length_replicate ..
  also have "\<dots> = sum_list (map (mget_or 0 h) (sort (mkeys h)))"
    using ok by (intro arg_cong[of _ _ sum_list] map_cong) (simp_all add: hist_ok_def mget_or_nonneg)
  finally show ?thesis using ok hist_sum_sorted hist_count_eq by (simp add: hist_ok_def)
qed

lemma first_reaching_nth:
  assumes "\<forall>rt. 0 \<le> mget_or 0 h rt" "0 \<le> seen" "seen < rank" "rank \<le> seen + sum_list (map (mget_or 0 h) rts)"
    "seen + sum_list (map (mget_or 0 h) rts) < 2 ^ 63"
  shows "first_reaching h rank seen rts =
    Some (concat (map (\<lambda>rt. replicate (nat (mget_or 0 h rt)) rt) rts) ! nat (rank - seen - 1))"
  using assms(2-)
proof (induction rts arbitrary: seen)
  case (Cons rt rts)
  have nn: "0 \<le> mget_or 0 h rt" "0 \<le> sum_list (map (mget_or 0 h) rts)"
    using assms(1) by (auto intro!: sum_list_nonneg)
  then have sn: "i64 (seen + mget_or 0 h rt) = seen + mget_or 0 h rt"
    using Cons.prems by (intro i64_id) (simp add: in_i64_def)
  show ?case
  proof (cases "rank \<le> seen + mget_or 0 h rt")
    case True
    then show ?thesis using Cons.prems nn sn by (simp add: nth_append Let_def)
  next
    case False
    then have "nat (rank - seen - 1) - nat (mget_or 0 h rt) = nat (rank - (seen + mget_or 0 h rt) - 1)"
      "\<not> nat (rank - seen - 1) < nat (mget_or 0 h rt)" using nn by auto
    then show ?thesis using Cons.IH[of "seen + mget_or 0 h rt"] False Cons.prems nn sn
      by (simp add: nth_append Let_def add.assoc)
  qed
qed simp

lemma rank_of_bounds:
  assumes "1 \<le> cnt" "cnt \<le> 2 ^ 53"
  shows "1 \<le> rank_of p cnt" "rank_of p cnt \<le> cnt"
proof -
  have "fdiv (min (max p 0) 100) 100 \<le> 1"
    unfolding fdiv_def using is_f64_of_int[of 1] by (intro rnd64_le_f64) auto
  moreover have "0 \<le> fdiv (min (max p 0) 100) 100" by (intro fdiv_nonneg) auto
  ultimately have "fmul (fdiv (min (max p 0) 100) 100) (f64_of_int cnt) \<le> of_int cnt"
    using assms by (simp add: f64_of_int_exact) (intro fmul_le_f64 is_f64_of_int, auto intro: mult_left_le_one_le)
  then have "\<lceil>fmul (fdiv (min (max p 0) 100) 100) (f64_of_int cnt)\<rceil> \<le> cnt" by (simp add: ceiling_le_iff)
  then show "1 \<le> rank_of p cnt" "rank_of p cnt \<le> cnt" using assms unfolding rank_of_eq by simp_all
qed

lemma percentile_nth:
  assumes "hist_ok h" "samples h \<noteq> []"
  shows "percentile h p = samples h ! nat (rank_of p (int (length (samples h))) - 1)"
proof -
  let ?c = "hist_count h"
  have c: "1 \<le> ?c" "?c \<le> 2 ^ 53" "?c = sum_list (map (mget_or 0 h) (sort (mkeys h)))"
    using assms length_samples[OF assms(1)] hist_count_eq[OF assms(1)] hist_sum_sorted
    by (auto simp: hist_ok_def Suc_le_eq simp flip: length_greater_0_conv)
  have "first_reaching h (rank_of p ?c) 0 (sort (mkeys h)) = Some (samples h ! nat (rank_of p ?c - 0 - 1))"
    unfolding samples_def using rank_of_bounds[OF c(1,2), of p] c assms(1)
    by (intro first_reaching_nth) (auto simp: hist_ok_def mget_or_nonneg)
  then show ?thesis using c(1) by (simp add: percentile_def length_samples[OF assms(1)])
qed

lemma reported_ranks_ok: "list_all (\<lambda>p. share_ok p 100) [50, 90, 95, 99]"
  by code_simp

lemma rank_of_exact:
  assumes "p \<in> {50, 90, 95, 99}" "1 \<le> cnt" "cnt \<le> 2 ^ 40"
  shows "rank_of (of_int p) cnt = \<lceil>of_int (cnt * p) / 100 :: rat\<rceil>"
proof -
  have p: "1 \<le> p" "p \<le> 100" "share_ok p 100" using assms(1) reported_ranks_ok by auto
  have lo: "of_int p / of_int 100 * (1 - 1 / 2 ^ 53) \<le> fdiv (of_int p) (of_int 100)"
    unfolding fdiv_def using p by (intro rnd64_lower) simp
  have "\<lceil>fmul (of_int cnt) (fdiv (of_int p) (of_int 100))\<rceil> = \<lceil>of_int (cnt * p) / of_int 100 :: rat\<rceil>"
    using p assms(2,3) share_ok_bound[OF p(3)] lo by (intro ceil_fmul_exact) auto
  moreover have "min (max (of_int p) 0) 100 = (of_int p :: rat)" using p by simp
  moreover have "1 \<le> \<lceil>of_int (cnt * p) / 100 :: rat\<rceil>" using p assms(2) by (simp add: one_le_ceiling)
  ultimately show ?thesis using assms(2,3)
    unfolding rank_of_eq by (simp add: f64_of_int_exact fmul_def mult.commute)
qed

lemma mget_bump: "mget (bump k n m) k' = (if k' = k then Some (i64 (mget_or 0 m k + n)) else mget m k')"
  by (simp add: bump_def)

lemma wf_map_bump [simp]: "wf_map m \<Longrightarrow> wf_map (bump k n m)"
  by (simp add: bump_def)

lemma hist_merge_simps [simp]:
  "hist_merge h [] = h" "hist_merge h ((k, n) # g) = hist_merge (bump k n h) g"
  by (simp_all add: hist_merge_def)

lemma wf_map_hist_merge [simp]: "wf_map h \<Longrightarrow> wf_map (hist_merge h g)"
  by (induction g arbitrary: h) auto

lemma mget_hist_merge:
  assumes "wf_map g"
  shows "mget (hist_merge h g) k =
    (case mget g k of None \<Rightarrow> mget h k | Some n \<Rightarrow> Some (i64 (mget_or 0 h k + n)))"
  using assms
proof (induction g arbitrary: h)
  case (Cons kn g)
  obtain k' n where kn: "kn = (k', n)" by fastforce
  have "wf_map g" and fresh: "mget g k' = None" using Cons.prems kn by (auto simp: wf_map_def mget_None_iff)
  then show ?case using Cons.IH[of "bump k' n h"] kn
    by (cases "k = k'"; cases "mget g k") (simp_all add: mget_bump mget_Cons mget_or_def)
qed simp

lemma mget_or_hist_merge:
  assumes "wf_map g" "in_i64 (mget_or 0 h k + mget_or 0 g k)"
  shows "mget_or 0 (hist_merge h g) k = mget_or 0 h k + mget_or 0 g k"
  using assms(2) by (auto simp: mget_or_def mget_hist_merge[OF assms(1)] split: option.splits)

lemma sum_list_member_le:
  fixes f :: "'a \<Rightarrow> int"
  shows "\<forall>x \<in> set xs. 0 \<le> f x \<Longrightarrow> x \<in> set xs \<Longrightarrow> f x \<le> sum_list (map f xs)"
proof (induction xs)
  case (Cons a xs)
  have "0 \<le> sum_list (map f xs)" using Cons.prems by (intro sum_list_nonneg) auto
  then show ?case using Cons by auto
qed simp

lemma mget_or_le_sum:
  assumes "\<forall>n \<in> set (mvals h). (0::int) \<le> n"
  shows "mget_or 0 h k \<le> sum_list (mvals h)"
proof (cases "mget h k")
  case None
  then show ?thesis using assms by (auto simp: mget_or_def intro!: sum_list_nonneg)
next
  case (Some n)
  then have "n \<in> set (mvals h)" by (force simp: mvals_def dest: mget_SomeD)
  then show ?thesis using Some assms sum_list_member_le[of "mvals h" id n] by (simp add: mget_or_def)
qed

lemma sorted_samples: "sorted (samples h)"
proof -
  have "sorted (concat (map (\<lambda>rt. replicate (f rt) rt) rts))" if "sorted rts" for f and rts :: "rat list"
    using that by (induction rts) (auto simp: sorted_append sorted_replicate)
  then show ?thesis by (simp add: samples_def)
qed

lemma count_samples:
  assumes "wf_map h"
  shows "count (mset (samples h)) rt = nat (mget_or 0 h rt)"
proof -
  have "count (mset (concat (map (\<lambda>rt. replicate (f rt) rt) rts))) rt = (if rt \<in> set rts then f rt else 0)"
    if "distinct rts" for f rts
    using that by (induction rts) auto
  moreover have "distinct (sort (mkeys h))" using assms by (simp add: wf_map_def mkeys_def)
  moreover have "rt \<notin> set (mkeys h) \<Longrightarrow> mget_or 0 h rt = 0" by (simp add: in_mkeys mget_or_def)
  ultimately show ?thesis by (auto simp: samples_def)
qed

lemma hist_ok_merge:
  assumes "hist_ok h" "hist_ok g" "length (samples h) + length (samples g) \<le> 2 ^ 53"
  shows "hist_ok (hist_merge h g)" "mset (samples (hist_merge h g)) = mset (samples h) + mset (samples g)"
proof -
  have H: "wf_map h" "wf_map g" "\<forall>n \<in> set (mvals h). 0 \<le> n" "\<forall>n \<in> set (mvals g). 0 \<le> n"
    using assms by (auto simp: hist_ok_def)
  have tot: "sum_list (mvals h) + sum_list (mvals g) \<le> 2 ^ 53"
    using assms(3) length_samples[OF assms(1)] length_samples[OF assms(2)] hist_count_eq assms(1,2) by simp
  have in64: "in_i64 (mget_or 0 h k + mget_or 0 g k)" for k
    using tot mget_or_le_sum[OF H(3), of k] mget_or_le_sum[OF H(4), of k] mget_or_nonneg[OF H(3), of k]
      mget_or_nonneg[OF H(4), of k] by (simp add: in_i64_def)
  have val: "mget_or 0 (hist_merge h g) k = mget_or 0 h k + mget_or 0 g k" for k
    by (rule mget_or_hist_merge[OF H(2) in64])
  have wf: "wf_map (hist_merge h g)" using H by simp
  show eq: "mset (samples (hist_merge h g)) = mset (samples h) + mset (samples g)"
    using wf H mget_or_nonneg[OF H(3)] mget_or_nonneg[OF H(4)]
    by (intro multiset_eqI) (simp add: count_samples val nat_add_distrib)
  have nn: "\<forall>n \<in> set (mvals (hist_merge h g)). 0 \<le> n"
  proof
    fix n assume "n \<in> set (mvals (hist_merge h g))"
    then obtain k where "mget (hist_merge h g) k = Some n" using in_mvals[OF wf] by auto
    then have "n = mget_or 0 h k + mget_or 0 g k" using val[of k] by (simp add: mget_or_def)
    then show "0 \<le> n" using mget_or_nonneg[OF H(3)] mget_or_nonneg[OF H(4)] by simp
  qed
  have "int (length (samples (hist_merge h g))) = sum_list (map (mget_or 0 (hist_merge h g)) (sort (mkeys (hist_merge h g))))"
    unfolding samples_def int_length_concat map_map o_def length_replicate
    using mget_or_nonneg[OF nn] by (intro arg_cong[of _ _ sum_list] map_cong) auto
  then have "sum_list (mvals (hist_merge h g)) = int (length (samples (hist_merge h g)))"
    using hist_sum_sorted[OF wf] by simp
  moreover have "length (samples (hist_merge h g)) = length (samples h) + length (samples g)"
    using arg_cong[OF eq, of size] by simp
  ultimately show "hist_ok (hist_merge h g)" using wf nn assms(3) by (simp add: hist_ok_def)
qed

lemma pooled_samples:
  assumes "\<forall>g \<in> set hs. hist_ok g" "hist_ok h" "length (samples h) + length (concat (map samples hs)) \<le> 2 ^ 53"
  shows "hist_ok (foldl hist_merge h hs) \<and>
    mset (samples (foldl hist_merge h hs)) = mset (samples h) + mset (concat (map samples hs))"
  using assms
proof (induction hs arbitrary: h)
  case (Cons g hs)
  note M = hist_ok_merge[of h g]
  have "length (samples (hist_merge h g)) = length (samples h) + length (samples g)"
    using M(2) Cons.prems by (simp add: size_mset[symmetric] del: size_mset)
  then show ?case using Cons.IH[of "hist_merge h g"] M Cons.prems by simp
qed simp

text \<open>
  What a sharded run reports as a percentile is the percentile of all its samples: merging
  the shards' histograms and reading the 50th, 90th, 95th or 99th percentile gives the sample
  at the exact nearest rank of the pooled, sorted samples of every shard. The float
  computation of the rank is exact at these four, for up to \<open>2 ^ 40\<close> samples.
\<close>

theorem sharded_percentile_exact:
  assumes "\<forall>h \<in> set hs. hist_ok h" "pool = sort (concat (map samples hs))" "pool \<noteq> []"
    and "length pool \<le> 2 ^ 40" "p \<in> {50, 90, 95, 99}"
  shows "percentile (foldl hist_merge [] hs) (of_int p)
    = pool ! nat (\<lceil>of_int (int (length pool) * p) / 100 :: rat\<rceil> - 1)"
proof -
  let ?m = "foldl hist_merge [] hs"
  have "hist_ok []" "samples [] = []" by (simp_all add: hist_ok_def samples_def mvals_def mkeys_def)
  then have m: "hist_ok ?m" "mset (samples ?m) = mset pool"
    using pooled_samples[of hs "[]"] assms(1,2,4) by auto
  then have pool: "samples ?m = pool"
    using sorted_samples[of ?m] assms(2) by (metis properties_for_sort sorted_sort sort_key_id_if_sorted)
  have "rank_of (of_int p) (int (length pool)) = \<lceil>of_int (int (length pool) * p) / 100 :: rat\<rceil>"
    using assms(3-5) by (intro rank_of_exact) (auto simp: Suc_le_eq)
  then show ?thesis using percentile_nth[OF m(1), of "of_int p"] assms(3) unfolding pool by simp
qed

theorem sharded_percentile_exact_witness:
  "percentile (foldl hist_merge [] [[(1 / 10, 3), (1, 1)], [(1 / 10, 5), (2, 1)]]) 90 = 1"
proof -
  let ?hs = "[[(1 / 10, 3), (1, 1)], [(1 / 10, 5), (2, 1)]] :: histogram list"
  have s: "concat (map samples ?hs) = replicate 3 (1 / 10) @ [1] @ replicate 5 (1 / 10) @ [2]"
    by (simp add: samples_def mkeys_def mget_or_def mget_def eval_nat_numeral)
  have "sort (concat (map samples ?hs)) = replicate 8 (1 / 10) @ [1, 2]"
    unfolding s by (rule properties_for_sort) (simp_all add: eval_nat_numeral)
  then show ?thesis
    using sharded_percentile_exact[of ?hs "replicate 8 (1 / 10) @ [1, 2]" 90]
    by (simp add: hist_ok_def wf_map_def mvals_def nth_append)
qed

theorem percentiles_eq_percentile_witness:
  "mget (percentiles [(1, 2), (3, 1)] [50, 99]) 99 = Some (percentile [(1, 2), (3, 1)] 99)"
proof -
  have "0 \<le> hist_count [(1 :: rat, 2), (3, 1)]" by code_simp
  from percentiles_eq_percentile[OF this, of "[50, 99]" 99] show ?thesis by simp
qed

end
