(* ===== verification/Run_Report.thy ===== *)
theory Run_Report
  imports Metrics Load_Plan
begin

text \<open>
  The report domain of \<open>internal/domain/report\<close> and the outcomes of \<open>internal/domain/taurus/run.go\<close>:
  failure signatures and their attribution, the accumulator that folds intervals into a run's
  state, its snapshot and restoration, and the report read from it. Text is ASCII: a rune is
  a byte.
\<close>

section \<open>Outcomes\<close>

datatype outcome = OutcomePassed | OutcomeAborted | OutcomeFailed | OutcomeError

definition outcome_from_exit_code :: "int \<Rightarrow> outcome" where
  "outcome_from_exit_code code =
     (if code = 0 then OutcomePassed else if code = 2 then OutcomeAborted
      else if code = 3 then OutcomeFailed else OutcomeError)"

definition worst_outcome :: "outcome list \<Rightarrow> outcome" where
  "worst_outcome os =
     (if OutcomeError \<in> set os then OutcomeError
      else if OutcomeFailed \<in> set os then OutcomeFailed
      else if OutcomeAborted \<in> set os then OutcomeAborted
      else OutcomePassed)"

definition combine_outcomes :: "int list \<Rightarrow> outcome" where
  "combine_outcomes codes =
     (if codes = [] then OutcomeError else worst_outcome (map outcome_from_exit_code codes))"

definition counts_toward_verdict :: "outcome \<Rightarrow> bool" where
  "counts_toward_verdict o' \<longleftrightarrow> o' = OutcomePassed \<or> o' = OutcomeFailed"

text \<open>Outcomes by severity.\<close>

fun severity :: "outcome \<Rightarrow> nat" where
  "severity OutcomePassed = 0"
| "severity OutcomeAborted = 1"
| "severity OutcomeFailed = 2"
| "severity OutcomeError = 3"

instantiation outcome :: linorder
begin

definition less_eq_outcome :: "outcome \<Rightarrow> outcome \<Rightarrow> bool" where
  "less_eq_outcome a b \<longleftrightarrow> severity a \<le> severity b"

definition less_outcome :: "outcome \<Rightarrow> outcome \<Rightarrow> bool" where
  "less_outcome a b \<longleftrightarrow> severity a < severity b"

instance
proof
  fix x y :: outcome
  show "x \<le> y \<Longrightarrow> y \<le> x \<Longrightarrow> x = y"
    by (cases x; cases y) (auto simp: less_eq_outcome_def)
qed (auto simp: less_eq_outcome_def less_outcome_def)

end

section \<open>Signatures and attribution\<close>

datatype side = SideTarget | SideEngine | SideUnknown

fun side_string :: "side \<Rightarrow> string" where
  "side_string SideTarget = ''target''"
| "side_string SideEngine = ''engine''"
| "side_string SideUnknown = ''unknown''"

text \<open>\<open>strings.ToLower\<close>, \<open>strings.Contains\<close> and \<open>strconv.Atoi\<close> on ASCII text.\<close>

definition lower_char :: "char \<Rightarrow> char" where
  "lower_char c = (let n = of_char c :: nat in if 65 \<le> n \<and> n \<le> 90 then char_of (n + 32) else c)"

definition to_lower :: "string \<Rightarrow> string" where
  "to_lower = map lower_char"

fun has_prefix :: "string \<Rightarrow> string \<Rightarrow> bool" where
  "has_prefix s [] = True"
| "has_prefix [] (c # cs) = False"
| "has_prefix (d # ds) (c # cs) = (c = d \<and> has_prefix ds cs)"

fun contains :: "string \<Rightarrow> string \<Rightarrow> bool" where
  "contains [] sub = (sub = [])"
| "contains (c # cs) sub = (has_prefix (c # cs) sub \<or> contains cs sub)"

definition is_digit :: "char \<Rightarrow> bool" where
  "is_digit c \<longleftrightarrow> (let n = of_char c :: nat in 48 \<le> n \<and> n \<le> 57)"

definition digit_val :: "char \<Rightarrow> int" where
  "digit_val c = int (of_char c) - 48"

definition digits_val :: "string \<Rightarrow> int" where
  "digits_val s = foldl (\<lambda>n c. n * 10 + digit_val c) 0 s"

definition atoi :: "string \<Rightarrow> int option" where
  "atoi s =
     (let (neg, ds) = (case s of [] \<Rightarrow> (False, []) | c # cs \<Rightarrow>
                         if c = CHR ''-'' then (True, cs) else if c = CHR ''+'' then (False, cs) else (False, s));
          n = (if neg then - digits_val ds else digits_val ds)
      in if ds \<noteq> [] \<and> list_all is_digit ds \<and> in_i64 n then Some n else None)"

definition is_response_code :: "string \<Rightarrow> bool" where
  "is_response_code code =
     (case atoi (trim_space code) of None \<Rightarrow> False | Some n \<Rightarrow> 100 \<le> n \<and> n \<le> 599)"

definition engineFaults :: "string list" where
  "engineFaults = [''too many open files'', ''cannot assign requested address'', ''outofmemoryerror'',
     ''out of memory'', ''cannot allocate memory'', ''taurus internal exception'', ''tool error'',
     ''no space left on device'']"

definition targetFaults :: "string list" where
  "targetFaults = [''connection refused'', ''connection reset'', ''connection timed out'',
     ''read timed out'', ''i/o timeout'', ''timeout awaiting'', ''no route to host'', ''eofexception'',
     ''unexpected eof'', ''remote end closed connection'', ''connection aborted'']"

definition attribute_error :: "error_group \<Rightarrow> side" where
  "attribute_error e =
     (if is_response_code (eg_response_code e) then SideTarget
      else let msg = to_lower (eg_message e) in
        if msg = '''' then SideUnknown
        else if list_ex (contains msg) engineFaults then SideEngine
        else if list_ex (contains msg) targetFaults then SideTarget
        else SideUnknown)"

record signature =
  sg_label :: string
  sg_code :: string
  sg_side :: side

definition new_signature :: "string \<Rightarrow> error_group \<Rightarrow> signature" where
  "new_signature label e =
     (let code = trim_space (eg_response_code e);
          code = (if \<not> is_response_code code then '''' else code)
      in \<lparr>sg_label = label, sg_code = code, sg_side = attribute_error e\<rparr>)"

definition signature_string :: "signature \<Rightarrow> string" where
  "signature_string s = side_string (sg_side s) @ ''|'' @ sg_code s @ ''|'' @ sg_label s"

definition MaxExemplars :: nat where "MaxExemplars = 3"
definition MaxExemplarLen :: nat where "MaxExemplarLen = 300"

record error_signature =
  es_signature :: signature
  es_count :: int
  es_exemplars :: "string list"

definition add_exemplar :: "string \<Rightarrow> string list \<Rightarrow> string list" where
  "add_exemplar msg exemplars =
     (let msg = trim_space msg in
      if msg = '''' \<or> MaxExemplars \<le> length exemplars then exemplars
      else let msg = (if MaxExemplarLen < length msg then take MaxExemplarLen msg else msg)
           in if msg \<in> set exemplars then exemplars else exemplars @ [msg])"

definition merge_exemplars :: "string list \<Rightarrow> string list \<Rightarrow> string list" where
  "merge_exemplars kept incoming = fold add_exemplar incoming (fold add_exemplar kept [])"

section \<open>The accumulator\<close>

definition TotalLabel :: string where "TotalLabel = ''__total__''"

record label_state =
  ls_codes :: "(string, int) gomap"
  ls_samples :: int
  ls_failed :: int
  ls_latency :: histogram

record label_tally =
  lt_sum :: rat
  lt_samples :: int

record second_state =
  se_engine :: int
  se_labels :: int
  se_lat_sum :: rat
  se_lat_samples :: int
  se_label_latency :: "(string, label_tally) gomap"

record accumulator =
  ac_labels :: "(string, label_state) gomap"
  ac_seconds :: "(int, second_state) gomap"
  ac_signatures :: "(signature, error_signature) gomap"

definition new_accumulator :: accumulator where
  "new_accumulator = \<lparr>ac_labels = [], ac_seconds = [], ac_signatures = []\<rparr>"

definition zero_second :: second_state where
  "zero_second = \<lparr>se_engine = 0, se_labels = 0, se_lat_sum = 0, se_lat_samples = 0, se_label_latency = []\<rparr>"

definition zero_label :: label_state where
  "zero_label = \<lparr>ls_codes = [], ls_samples = 0, ls_failed = 0, ls_latency = []\<rparr>"

text \<open>The response-time tally of one interval, summed in bucket order.\<close>

definition tally_bucket :: "histogram \<Rightarrow> rat \<Rightarrow> rat \<times> int \<Rightarrow> rat \<times> int" where
  "tally_bucket lat rt st = (case st of (sm, n) \<Rightarrow>
     (fadd sm (fmul rt (f64_of_int (mget_or 0 lat rt))), i64 (n + mget_or 0 lat rt)))"

definition add_to_second :: "interval \<Rightarrow> second_state \<Rightarrow> second_state" where
  "add_to_second iv sec =
     (if iv_label iv = TotalLabel then sec\<lparr>se_engine := i64 (se_engine sec + iv_concurrency iv)\<rparr>
      else let sec = sec\<lparr>se_labels := i64 (se_labels sec + iv_concurrency iv)\<rparr> in
        if iv_latency iv = [] then sec
        else let rts = sort (mkeys (iv_latency iv));
                 t = mget_or \<lparr>lt_sum = 0, lt_samples = 0\<rparr> (se_label_latency sec) (iv_label iv);
                 (sm, n) = fold (tally_bucket (iv_latency iv)) rts (se_lat_sum sec, se_lat_samples sec);
                 (lsum, ln) = fold (tally_bucket (iv_latency iv)) rts (lt_sum t, lt_samples t)
             in sec\<lparr>se_lat_sum := sm, se_lat_samples := n,
                    se_label_latency := mput (iv_label iv) \<lparr>lt_sum = lsum, lt_samples = ln\<rparr> (se_label_latency sec)\<rparr>)"

definition add_to_label :: "interval \<Rightarrow> label_state \<Rightarrow> label_state" where
  "add_to_label iv st =
     st\<lparr>ls_samples := i64 (ls_samples st + iv_samples iv),
        ls_failed := i64 (ls_failed st + iv_failed iv),
        ls_latency := hist_merge (ls_latency st) (iv_latency iv),
        ls_codes := hist_merge (ls_codes st) (iv_response_codes iv)\<rparr>"

definition add_error :: "string \<Rightarrow> error_group \<Rightarrow> (signature, error_signature) gomap \<Rightarrow> (signature, error_signature) gomap" where
  "add_error label e sigs =
     (let sig = new_signature label e;
          ex = mget_or \<lparr>es_signature = sig, es_count = 0, es_exemplars = []\<rparr> sigs sig
      in mput sig (ex\<lparr>es_count := i64 (es_count ex + eg_count e),
                     es_exemplars := add_exemplar (eg_message e) (es_exemplars ex)\<rparr>) sigs)"

definition acc_add :: "accumulator \<Rightarrow> interval \<Rightarrow> accumulator" where
  "acc_add a iv =
     (let sec = mget_or zero_second (ac_seconds a) (iv_timestamp iv);
          a = a\<lparr>ac_seconds := mput (iv_timestamp iv) (add_to_second iv sec) (ac_seconds a)\<rparr>
      in if iv_label iv = TotalLabel then a
         else let st = mget_or zero_label (ac_labels a) (iv_label iv)
              in a\<lparr>ac_labels := mput (iv_label iv) (add_to_label iv st) (ac_labels a),
                   ac_signatures := fold (add_error (iv_label iv)) (iv_errors iv) (ac_signatures a)\<rparr>)"

section \<open>Reports\<close>

record step_load =
  sl_index :: int
  sl_throughput :: rat
  sl_concurrency :: int
  sl_duration :: int

record load =
  ld_concurrency :: int
  ld_throughput :: rat
  ld_duration :: int
  ld_steps :: "step_load list"
  ld_samples :: int
  ld_failed :: int

record label_summary =
  lb_label :: string
  lb_samples :: int
  lb_failed :: int
  lb_error_rate :: rat
  lb_latency :: "(rat, rat) gomap"
  lb_statuses :: "(string \<times> int) list"

record attribution =
  at_target :: int
  at_engine :: int
  at_unknown :: int

record label_soak_trend =
  lk_label :: string
  lk_first_half_ms :: rat
  lk_second_half_ms :: rat
  lk_slope_ms_per_min :: rat
  lk_leak_suspected :: bool

record soak_trend =
  sk_first_half_ms :: rat
  sk_second_half_ms :: rat
  sk_slope_ms_per_min :: rat
  sk_leak_suspected :: bool
  sk_labels :: "label_soak_trend list"

record cluster_result =
  cl_cluster :: string
  cl_outcome :: outcome
  cl_samples :: int
  cl_failed :: int

record meta =
  mt_execution_id :: int
  mt_scenario_id :: int
  mt_run_id :: int
  mt_engine :: string
  mt_cluster :: string
  mt_correlation_id :: string
  mt_started_at :: time
  mt_ended_at :: time
  mt_requested :: load
  mt_outcome :: outcome

record report =
  rp_execution_id :: int
  rp_scenario_id :: int
  rp_run_id :: int
  rp_engine :: string
  rp_cluster :: string
  rp_correlation_id :: string
  rp_started_at :: time
  rp_ended_at :: time
  rp_outcome :: outcome
  rp_requested :: load
  rp_achieved :: load
  rp_error_rate :: rat
  rp_latency :: "(rat, rat) gomap"
  rp_attribution :: attribution
  rp_errors :: "error_signature list"
  rp_labels :: "label_summary list"
  rp_cluster_results :: "cluster_result list"
  rp_soak_trend :: "soak_trend option"
  rp_starred :: bool
  rp_note :: string

definition reportedPercentiles :: "rat list" where
  "reportedPercentiles = [50, 90, 95, 99]"

definition rate :: "int \<Rightarrow> int \<Rightarrow> rat" where
  "rate part whole = (if whole \<le> 0 then 0 else fdiv (f64_of_int part) (f64_of_int whole))"

definition per_second :: "int \<Rightarrow> int \<Rightarrow> rat" where
  "per_second smp secs = (if secs \<le> 0 then 0 else fdiv (f64_of_int smp) (f64_of_int secs))"

text \<open>\<open>EndedAt.Sub(StartedAt).Round(time.Second).Seconds()\<close>\<close>

definition round_seconds :: "duration \<Rightarrow> int" where
  "round_seconds d = (d + 500000000) div 1000000000"

definition meta_achieved_seconds :: "meta \<Rightarrow> int" where
  "meta_achieved_seconds m =
     (if mt_started_at m \<noteq> 0 \<and> mt_started_at m < mt_ended_at m \<and>
         0 < round_seconds (mt_ended_at m - mt_started_at m)
      then round_seconds (mt_ended_at m - mt_started_at m)
      else ld_duration (mt_requested m))"

definition peak :: "accumulator \<Rightarrow> int" where
  "peak a = fold (\<lambda>sec pk. let n = (if se_labels sec < se_engine sec then se_engine sec else se_labels sec)
                          in if pk < n then n else pk) (mvals (ac_seconds a)) 0"

text \<open>The span of the measured seconds; the fold is the loop's running least and greatest second.\<close>

definition measured_span_seconds :: "accumulator \<Rightarrow> int option" where
  "measured_span_seconds a =
     (case mkeys (ac_seconds a) of [] \<Rightarrow> None
      | ts # rest \<Rightarrow> let (lo, hi) = fold (\<lambda>ts (lo, hi). (if ts < lo then ts else lo, if hi < ts then ts else hi)) rest (ts, ts)
          in Some (i64 (i64 (hi - lo) + 1)))"

definition achieved_seconds :: "accumulator \<Rightarrow> meta \<Rightarrow> int" where
  "achieved_seconds a m =
     (case measured_span_seconds a of Some n \<Rightarrow> n | None \<Rightarrow> meta_achieved_seconds m)"

definition status_labels :: "(string, int) gomap \<Rightarrow> (string \<times> int) list" where
  "status_labels codes = sort_key (\<lambda>(code, n). (- n, code)) codes"

definition attribute_count :: "error_signature \<Rightarrow> attribution \<Rightarrow> attribution" where
  "attribute_count e attr =
     (case sg_side (es_signature e) of
        SideTarget \<Rightarrow> attr\<lparr>at_target := i64 (at_target attr + es_count e)\<rparr>
      | SideEngine \<Rightarrow> attr\<lparr>at_engine := i64 (at_engine attr + es_count e)\<rparr>
      | SideUnknown \<Rightarrow> attr\<lparr>at_unknown := i64 (at_unknown attr + es_count e)\<rparr>)"

definition acc_errors :: "accumulator \<Rightarrow> error_signature list \<times> attribution" where
  "acc_errors a =
     (let es = mvals (ac_signatures a)
      in (sort_key (\<lambda>e. (- es_count e, signature_string (es_signature e))) es,
          fold attribute_count es \<lparr>at_target = 0, at_engine = 0, at_unknown = 0\<rparr>))"

section \<open>Soak trends\<close>

definition soakTrendMinSampledSeconds :: nat where "soakTrendMinSampledSeconds = 120"

definition mean_ms :: "rat \<Rightarrow> int \<Rightarrow> rat" where
  "mean_ms sm n = (if n \<le> 0 then 0 else fmul (fdiv sm (f64_of_int n)) 1000)"

text \<open>One half's sum and count, and one step of the regression's four sums.\<close>

definition half_sum :: "(int \<times> rat \<times> int) list \<Rightarrow> rat \<times> int" where
  "half_sum pts = fold (\<lambda>(_, sm, n) (s, k). (fadd s sm, i64 (k + n))) pts (0, 0)"

definition regress :: "int \<Rightarrow> int \<times> rat \<times> int \<Rightarrow> rat \<times> rat \<times> rat \<times> rat \<Rightarrow> rat \<times> rat \<times> rat \<times> rat" where
  "regress base pt st = (case (pt, st) of ((ts, sm, n), (sx, sy, sxy, sxx)) \<Rightarrow>
     let x = f64_of_int (i64 (ts - base)); y = fdiv sm (f64_of_int n)
     in (fadd sx x, fadd sy y, fadd sxy (fmul x y), fadd sxx (fmul x x)))"

definition soak_figures :: "(int \<times> rat \<times> int) list \<Rightarrow> rat \<times> rat \<times> rat \<times> bool" where
  "soak_figures pts =
     (let half = length pts div 2;
          (fsum, fn) = half_sum (take half pts); (ssum, sn) = half_sum (drop half pts);
          first = mean_ms fsum fn; second = mean_ms ssum sn;
          base = fst (hd pts);
          (sx, sy, sxy, sxx) = fold (regress base) pts (0, 0, 0, 0);
          n = f64_of_int (int (length pts));
          varX = fsub sxx (fdiv (fmul sx sx) n);
          slope = (if 0 < varX then fmul (fmul (fdiv (fsub sxy (fdiv (fmul sx sy) n)) varX) 1000) 60 else 0)
      in (first, second, slope, 0 < first \<and> fmul (3 / 2) first < second \<and> 0 < slope))"

definition soak_trend_of :: "(int, second_state) gomap \<Rightarrow> soak_trend option" where
  "soak_trend_of secs =
     (let sampled = filter (\<lambda>(_, sec). 0 < se_lat_samples sec) secs in
      if length sampled < soakTrendMinSampledSeconds then None
      else let pts = map (\<lambda>ts. let sec = mget_or zero_second secs ts in (ts, se_lat_sum sec, se_lat_samples sec))
                         (sort (map fst sampled));
               (f, s, sl, lk) = soak_figures pts
           in Some \<lparr>sk_first_half_ms = f, sk_second_half_ms = s, sk_slope_ms_per_min = sl,
                    sk_leak_suspected = lk, sk_labels = []\<rparr>)"

text \<open>One label's sampled seconds, gathered in the map's order and sorted by second.\<close>

definition label_points :: "(int, second_state) gomap \<Rightarrow> string \<Rightarrow> (int \<times> rat \<times> int) list" where
  "label_points secs name =
     map (\<lambda>(ts, t). (ts, lt_sum t, lt_samples t))
       (filter (\<lambda>(ts, t). 0 < lt_samples t)
         (concat (map (\<lambda>(ts, sec). case mget (se_label_latency sec) name of None \<Rightarrow> [] | Some t \<Rightarrow> [(ts, t)]) secs)))"

definition soak_label_names :: "(int, second_state) gomap \<Rightarrow> string list" where
  "soak_label_names secs = remdups (concat (map (\<lambda>(ts, sec).
     map fst (filter (\<lambda>(name, t). 0 < lt_samples t) (se_label_latency sec))) secs))"

definition soak_trend_labels :: "(int, second_state) gomap \<Rightarrow> label_soak_trend list" where
  "soak_trend_labels secs =
     concat (map (\<lambda>name. let pts = label_points secs name in
         if length pts < soakTrendMinSampledSeconds then []
         else let (f, s, sl, lk) = soak_figures (sort_key fst pts)
              in [\<lparr>lk_label = name, lk_first_half_ms = f, lk_second_half_ms = s, lk_slope_ms_per_min = sl,
                   lk_leak_suspected = lk\<rparr>])
       (sort (soak_label_names secs)))"

section \<open>From the accumulator to the report\<close>

definition label_summary_of :: "string \<Rightarrow> label_state \<Rightarrow> label_summary" where
  "label_summary_of name st =
     \<lparr>lb_label = name, lb_samples = ls_samples st, lb_failed = ls_failed st,
      lb_error_rate = rate (ls_failed st) (ls_samples st),
      lb_latency = percentiles (ls_latency st) reportedPercentiles,
      lb_statuses = status_labels (ls_codes st)\<rparr>"

definition acc_report :: "accumulator \<Rightarrow> meta \<Rightarrow> report" where
  "acc_report a m =
     (let sts = mvals (ac_labels a);
          smp = sum64 (map ls_samples sts) 0;
          fl = sum64 (map ls_failed sts) 0;
          overall = fold (\<lambda>st h. hist_merge h (ls_latency st)) sts [];
          secs = achieved_seconds a m;
          (errs, attr) = acc_errors a
      in \<lparr>rp_execution_id = mt_execution_id m, rp_scenario_id = mt_scenario_id m, rp_run_id = mt_run_id m,
          rp_engine = mt_engine m, rp_cluster = mt_cluster m, rp_correlation_id = mt_correlation_id m,
          rp_started_at = mt_started_at m, rp_ended_at = mt_ended_at m, rp_outcome = mt_outcome m,
          rp_requested = mt_requested m,
          rp_achieved = \<lparr>ld_concurrency = peak a, ld_throughput = per_second smp secs, ld_duration = secs,
                         ld_steps = [], ld_samples = smp, ld_failed = fl\<rparr>,
          rp_error_rate = rate fl smp,
          rp_latency = percentiles overall reportedPercentiles,
          rp_attribution = attr, rp_errors = errs,
          rp_labels = map (\<lambda>name. label_summary_of name (mget_or zero_label (ac_labels a) name)) (sort (mkeys (ac_labels a))),
          rp_cluster_results = [],
          rp_soak_trend = map_option (\<lambda>t. t\<lparr>sk_labels := soak_trend_labels (ac_seconds a)\<rparr>) (soak_trend_of (ac_seconds a)),
          rp_starred = False, rp_note = ''''\<rparr>)"

definition build :: "meta \<Rightarrow> interval list \<Rightarrow> report" where
  "build m ivs = acc_report (foldl acc_add new_accumulator ivs) m"

section \<open>Snapshots\<close>

record label_progress =
  lp_label :: string
  lp_samples :: int
  lp_failed :: int
  lp_latency :: histogram
  lp_codes :: "(string, int) gomap"

record second_progress =
  spr_second :: int
  spr_engine :: int
  spr_labels :: int
  spr_latency_sum :: rat
  spr_latency_samples :: int
  spr_label_latency :: "(string, label_tally) gomap"

record snapshot =
  sn_labels :: "label_progress list"
  sn_seconds :: "second_progress list"
  sn_signatures :: "error_signature list"

definition acc_snapshot :: "accumulator \<Rightarrow> snapshot" where
  "acc_snapshot a =
     \<lparr>sn_labels = sort_key lp_label (map (\<lambda>(name, st). \<lparr>lp_label = name, lp_samples = ls_samples st,
         lp_failed = ls_failed st, lp_latency = ls_latency st, lp_codes = ls_codes st\<rparr>) (ac_labels a)),
      sn_seconds = sort_key spr_second (map (\<lambda>(ts, sec). \<lparr>spr_second = ts, spr_engine = se_engine sec,
         spr_labels = se_labels sec, spr_latency_sum = se_lat_sum sec, spr_latency_samples = se_lat_samples sec,
         spr_label_latency = se_label_latency sec\<rparr>) (ac_seconds a)),
      sn_signatures = sort_key (\<lambda>e. signature_string (es_signature e)) (mvals (ac_signatures a))\<rparr>"

definition restore :: "snapshot \<Rightarrow> accumulator" where
  "restore s =
     \<lparr>ac_labels = fold (\<lambda>l. mput (lp_label l) \<lparr>ls_codes = lp_codes l, ls_samples = lp_samples l,
         ls_failed = lp_failed l, ls_latency = hist_merge [] (lp_latency l)\<rparr>) (sn_labels s) [],
      ac_seconds = fold (\<lambda>sec. mput (spr_second sec) \<lparr>se_engine = spr_engine sec, se_labels = spr_labels sec,
         se_lat_sum = spr_latency_sum sec, se_lat_samples = spr_latency_samples sec,
         se_label_latency = spr_label_latency sec\<rparr>) (sn_seconds s) [],
      ac_signatures = fold (\<lambda>e. mput (es_signature e) e) (sn_signatures s) []\<rparr>"

section \<open>Readings of a report\<close>

definition attribution_total :: "attribution \<Rightarrow> int" where
  "attribution_total a = i64 (i64 (at_target a + at_engine a) + at_unknown a)"

definition target_error_rate :: "report \<Rightarrow> rat" where
  "target_error_rate r =
     (if ld_samples (rp_achieved r) \<le> 0 then 0
      else fdiv (f64_of_int (at_target (rp_attribution r))) (f64_of_int (ld_samples (rp_achieved r))))"

definition engine_impaired :: "report \<Rightarrow> bool" where
  "engine_impaired r =
     (if at_engine (rp_attribution r) = 0 then False
      else at_target (rp_attribution r) < at_engine (rp_attribution r))"

definition shortfallTolerance :: rat where "shortfallTolerance = rnd64 (95 / 100)"

definition mean_requested_rate :: "load \<Rightarrow> rat" where
  "mean_requested_rate l =
     (if ld_steps l = [] then ld_throughput l
      else let (smp, secs) = fold (\<lambda>s (smp, secs). (fadd smp (fmul (sl_throughput s) (f64_of_int (sl_duration s))),
                                          i64 (secs + sl_duration s))) (ld_steps l) (0, 0)
           in if secs \<le> 0 then ld_throughput l else fdiv smp (f64_of_int secs))"

definition short_of_request :: "report \<Rightarrow> bool" where
  "short_of_request r =
     (if ld_throughput (rp_requested r) \<le> 0 then False
      else ld_throughput (rp_achieved r) < fmul (mean_requested_rate (rp_requested r)) shortfallTolerance)"

definition short_of_volume :: "report \<Rightarrow> bool" where
  "short_of_volume r =
     (if ld_throughput (rp_requested r) \<le> 0 then False
      else f64_of_int (ld_samples (rp_achieved r))
        < fmul (fmul (mean_requested_rate (rp_requested r)) (f64_of_int (ld_duration (rp_requested r)))) shortfallTolerance)"

text \<open>One second of a run, merged over every row its pods reported (\<open>MergeSecond\<close>).\<close>

definition zero_interval :: interval where
  "zero_interval = \<lparr>iv_seq = 0, iv_timestamp = 0, iv_label = '''', iv_concurrency = 0, iv_samples = 0,
     iv_succeeded = 0, iv_failed = 0, iv_bytes = 0, iv_latency = [], iv_response_codes = [], iv_errors = []\<rparr>"

fun merge_second_from :: "interval \<Rightarrow> int \<Rightarrow> interval list \<Rightarrow> interval \<times> int" where
  "merge_second_from merged engine [] = (merged, engine)"
| "merge_second_from merged engine (row # rows) =
     (if iv_label row = TotalLabel then merge_second_from merged (i64 (engine + iv_concurrency row)) rows
      else merge_second_from (merged\<lparr>
          iv_concurrency := i64 (iv_concurrency merged + iv_concurrency row),
          iv_samples := i64 (iv_samples merged + iv_samples row),
          iv_succeeded := i64 (iv_succeeded merged + iv_succeeded row),
          iv_failed := i64 (iv_failed merged + iv_failed row),
          iv_bytes := i64 (iv_bytes merged + iv_bytes row),
          iv_latency := hist_merge (iv_latency merged) (iv_latency row)\<rparr>) engine rows)"

definition merge_second :: "interval list \<Rightarrow> interval \<times> int" where
  "merge_second rows = merge_second_from zero_interval 0 rows"

section \<open>Trends\<close>

record trend_point =
  tp_run_id :: int
  tp_started_at :: time
  tp_outcome :: outcome
  tp_achieved_throughput :: rat
  tp_requested_throughput :: rat
  tp_error_rate :: rat
  tp_p50 :: rat
  tp_p90 :: rat
  tp_p95 :: rat
  tp_p99 :: rat
  tp_hit_target_qps :: bool
  tp_has_comparable_predecessor :: bool
  tp_regressed :: bool

definition report_comparable :: "report \<Rightarrow> report \<Rightarrow> bool" where
  "report_comparable a b \<longleftrightarrow>
     rp_execution_id a = rp_execution_id b \<and> rp_engine a = rp_engine b \<and> rp_cluster a = rp_cluster b \<and>
     ld_concurrency (rp_requested a) = ld_concurrency (rp_requested b) \<and>
     ld_throughput (rp_requested a) = ld_throughput (rp_requested b) \<and>
     ld_duration (rp_requested a) = ld_duration (rp_requested b)"

definition trend_point_of :: "report \<Rightarrow> report list \<Rightarrow> trend_point" where
  "trend_point_of r older =
     (let hit = \<not> short_of_request r; pred = find (report_comparable r) older
      in \<lparr>tp_run_id = rp_run_id r, tp_started_at = rp_started_at r, tp_outcome = rp_outcome r,
          tp_achieved_throughput = ld_throughput (rp_achieved r),
          tp_requested_throughput = ld_throughput (rp_requested r), tp_error_rate = rp_error_rate r,
          tp_p50 = mget_or 0 (rp_latency r) 50, tp_p90 = mget_or 0 (rp_latency r) 90,
          tp_p95 = mget_or 0 (rp_latency r) 95, tp_p99 = mget_or 0 (rp_latency r) 99,
          tp_hit_target_qps = hit, tp_has_comparable_predecessor = (pred \<noteq> None),
          tp_regressed = (case pred of None \<Rightarrow> False | Some other \<Rightarrow> \<not> hit \<and> \<not> short_of_request other)\<rparr>)"

fun trend_points :: "report list \<Rightarrow> trend_point list" where
  "trend_points [] = []"
| "trend_points (r # older) = trend_point_of r older # trend_points older"

definition build_trend :: "report list \<Rightarrow> int \<times> trend_point list" where
  "build_trend reports = ((case reports of [] \<Rightarrow> 0 | r # _ \<Rightarrow> rp_execution_id r), trend_points reports)"

end
