(* ===== verification/Report_View.thy ===== *)
theory Report_View
  imports Run_Report
begin

text \<open>
  What an accumulator means, apart from the order Go's maps are visited in. \<open>acc_view\<close> forgets
  that order; folding in an interval acts on views, a snapshot that is stored and restored has
  the view it was taken from, and the report is a function of the view. A run that crosses
  restarts of the control plane therefore ends in the report of a run that does not.
\<close>

section \<open>Views\<close>

definition label_view :: "label_state \<Rightarrow> int \<times> int \<times> (rat \<Rightarrow> int option) \<times> (string \<Rightarrow> int option)" where
  "label_view st = (ls_samples st, ls_failed st, mget (ls_latency st), mget (ls_codes st))"

definition second_view :: "second_state \<Rightarrow> int \<times> int \<times> rat \<times> int \<times> (string \<Rightarrow> label_tally option)" where
  "second_view sec = (se_engine sec, se_labels sec, se_lat_sum sec, se_lat_samples sec, mget (se_label_latency sec))"

definition acc_same :: "accumulator \<Rightarrow> accumulator \<Rightarrow> bool" where
  "acc_same a b \<longleftrightarrow>
     (\<forall>l. map_option label_view (mget (ac_labels a) l) = map_option label_view (mget (ac_labels b) l)) \<and>
     (\<forall>t. map_option second_view (mget (ac_seconds a) t) = map_option second_view (mget (ac_seconds b) t)) \<and>
     (\<forall>s. mget (ac_signatures a) s = mget (ac_signatures b) s)"

definition hist_wf :: "('k, int) gomap \<Rightarrow> bool" where
  "hist_wf h \<longleftrightarrow> wf_map h \<and> (\<forall>n \<in> set (mvals h). in_i64 n)"

definition label_wf :: "label_state \<Rightarrow> bool" where
  "label_wf st \<longleftrightarrow> hist_wf (ls_latency st) \<and> hist_wf (ls_codes st)"

text \<open>A well-formed accumulator: its maps are maps, counts are 64-bit, and a signature is stored
  under itself, with a code that cannot contain the separator of \<open>Signature.String\<close>.\<close>

definition acc_wf :: "accumulator \<Rightarrow> bool" where
  "acc_wf a \<longleftrightarrow> wf_map (ac_labels a) \<and> wf_map (ac_seconds a) \<and> wf_map (ac_signatures a) \<and>
     (\<forall>l st. mget (ac_labels a) l = Some st \<longrightarrow> label_wf st) \<and>
     (\<forall>t sec. mget (ac_seconds a) t = Some sec \<longrightarrow> wf_map (se_label_latency sec)) \<and>
     (\<forall>s e. mget (ac_signatures a) s = Some e \<longrightarrow> es_signature e = s \<and> CHR ''|'' \<notin> set (sg_code s))"

definition interval_wf :: "interval \<Rightarrow> bool" where
  "interval_wf iv \<longleftrightarrow> wf_map (iv_latency iv) \<and> wf_map (iv_response_codes iv)"

section \<open>Maps up to order\<close>

lemma hist_wf_Nil [simp]: "hist_wf []"
  by (simp add: hist_wf_def mvals_def)

lemma hist_wf_alt: "hist_wf h \<longleftrightarrow> wf_map h \<and> (\<forall>k n. mget h k = Some n \<longrightarrow> in_i64 n)"
  by (auto simp: hist_wf_def in_mvals)

lemma hist_wf_bump [simp]: "hist_wf h \<Longrightarrow> hist_wf (bump k n h)"
  by (simp add: hist_wf_alt mget_bump)

lemma hist_wf_merge [simp]: "hist_wf h \<Longrightarrow> hist_wf (hist_merge h g)"
  by (induction g arbitrary: h) auto

lemma mget_or_cong: "mget m k = mget m' k \<Longrightarrow> mget_or d m k = mget_or d m' k"
  by (simp add: mget_or_def)

lemma hist_merge_cong:
  "wf_map g \<Longrightarrow> mget h = mget h' \<Longrightarrow> mget (hist_merge h g) = mget (hist_merge h' g)"
  by (intro ext) (simp add: mget_hist_merge mget_or_def split: option.split)

lemma hist_merge_self: "hist_wf h \<Longrightarrow> mget (hist_merge [] h) = mget h"
  by (auto simp: fun_eq_iff mget_hist_merge hist_wf_alt mget_or_def split: option.splits)

text \<open>Values seen through a function: again a map.\<close>

lemma mget_map_snd: "mget (map (\<lambda>(k, v). (k, f v)) m) k = map_option f (mget m k)"
  by (induction m) (auto simp: mget_Cons)

lemma wf_map_map_snd: "wf_map (map (\<lambda>(k, v). (k, f v)) m) = wf_map m"
proof -
  have "map fst (map (\<lambda>(k, v). (k, f v)) m) = map fst m" by (induction m) auto
  then show ?thesis by (simp only: wf_map_def)
qed

lemma same_entries_view:
  assumes "wf_map m" "wf_map m'" "\<And>k. map_option f (mget m k) = map_option f (mget m' k)"
  shows "mset (map (\<lambda>(k, v). (k, f v)) m) = mset (map (\<lambda>(k, v). (k, f v)) m')"
  using assms by (intro gomap_same_entries) (simp_all add: wf_map_map_snd mget_map_snd)

lemma same_keys:
  assumes "wf_map m" "wf_map m'" "\<And>k. map_option f (mget m k) = map_option f (mget m' k)"
  shows "mset (mkeys m) = mset (mkeys m')"
proof -
  have k: "mset (mkeys x) = image_mset fst (mset (map (\<lambda>(k, v). (k, f v)) x))" for x
    by (induction x) (auto simp: mkeys_def)
  show ?thesis unfolding k same_entries_view[OF assms] ..
qed

lemma sort_key_perm:
  assumes "mset xs = mset ys" "inj_on f (set xs)"
  shows "sort_key f xs = sort_key f ys"
  by (rule sort_key_inj_key_eq[OF _ assms(2)]) (simp_all add: assms(1))

lemma sort_perm: "mset xs = mset ys \<Longrightarrow> sort xs = sort (ys :: 'a :: linorder list)"
  by (rule sort_key_perm) simp_all

lemma sum64_perm: "mset xs = mset ys \<Longrightarrow> sum64 xs 0 = sum64 ys 0"
  unfolding sum64_0 sum_mset_sum_list[symmetric] by simp

lemma first_reaching_cong: "mget h = mget h' \<Longrightarrow> first_reaching h r s rts = first_reaching h' r s rts"
  by (induction rts arbitrary: s) (simp_all add: mget_or_def Let_def)

lemma settle_all_cong: "mget h = mget h' \<Longrightarrow> settle_all h c s rts ps out = settle_all h' c s rts ps out"
  by (induction rts arbitrary: s ps out) (simp_all add: mget_or_def Let_def split: prod.split)

lemma percentiles_cong:
  assumes "wf_map h" "wf_map h'" "mget h = mget h'"
  shows "percentiles h ps = percentiles h' ps"
proof -
  have m: "mset h = mset h'" using assms by (intro gomap_same_entries) auto
  have "hist_count h = hist_count h'"
    unfolding hist_count_def mvals_def using m by (intro sum64_perm) (metis mset_map)
  moreover have "sort (mkeys h) = sort (mkeys h')"
    unfolding mkeys_def using m by (intro sort_perm) (metis mset_map)
  ultimately show ?thesis using settle_all_cong[OF assms(3)] by (simp add: percentiles_def Let_def)
qed

lemma status_labels_cong:
  assumes "wf_map h" "wf_map h'" "mget h = mget h'"
  shows "status_labels h = status_labels h'"
proof -
  have "mset h = mset h'" using assms by (intro gomap_same_entries) auto
  moreover have "inj_on (\<lambda>(code, n). (- n, code)) (set h)" by (auto simp: inj_on_def)
  ultimately show ?thesis unfolding status_labels_def by (rule sort_key_perm)
qed

section \<open>Folding in an interval\<close>

lemma label_view_add:
  "interval_wf iv \<Longrightarrow> label_view st = label_view st' \<Longrightarrow>
   label_view (add_to_label iv st) = label_view (add_to_label iv st')"
  by (auto simp: label_view_def add_to_label_def interval_wf_def intro!: hist_merge_cong)

lemma mget_mput_fun: "mget (mput k v m) = (mget m)(k \<mapsto> v)"
  by auto

lemma second_view_add:
  assumes "second_view sec = second_view sec'"
  shows "second_view (add_to_second iv sec) = second_view (add_to_second iv sec')"
  using assms
  by (simp add: second_view_def add_to_second_def mget_mput_fun mget_or_def Let_def split: prod.splits)

lemma map_option_view_or:
  "map_option v (mget m k) = map_option v (mget m' k) \<Longrightarrow> v (mget_or d m k) = v (mget_or d m' k)"
  by (auto simp: mget_or_def split: option.splits)

lemma add_error_cong:
  "mget s = mget s' \<Longrightarrow> mget (add_error l e s) = mget (add_error l e s')"
  by (simp add: add_error_def mget_mput_fun mget_or_def Let_def)

lemma add_errors_cong:
  "mget s = mget s' \<Longrightarrow> mget (fold (add_error l) es s) = mget (fold (add_error l) es s')"
proof (induction es arbitrary: s s')
  case (Cons e es)
  show ?case unfolding fold.simps o_apply by (rule Cons.IH, rule add_error_cong, rule Cons.prems)
qed simp

lemma acc_same_refl [simp]: "acc_same a a"
  by (simp add: acc_same_def)

lemma acc_same_add:
  assumes "acc_same a b" "interval_wf iv"
  shows "acc_same (acc_add a iv) (acc_add b iv)"
proof -
  have s: "second_view (add_to_second iv (mget_or zero_second (ac_seconds a) (iv_timestamp iv)))
      = second_view (add_to_second iv (mget_or zero_second (ac_seconds b) (iv_timestamp iv)))"
    using assms(1) by (intro second_view_add map_option_view_or) (simp add: acc_same_def)
  have l: "label_view (add_to_label iv (mget_or zero_label (ac_labels a) (iv_label iv)))
      = label_view (add_to_label iv (mget_or zero_label (ac_labels b) (iv_label iv)))"
    using assms by (intro label_view_add map_option_view_or) (simp_all add: acc_same_def)
  have e: "mget (fold (add_error (iv_label iv)) (iv_errors iv) (ac_signatures a))
      = mget (fold (add_error (iv_label iv)) (iv_errors iv) (ac_signatures b))"
    using assms(1) by (intro add_errors_cong) (simp add: acc_same_def fun_eq_iff)
  show ?thesis using assms(1) s l fun_cong[OF e] by (auto simp: acc_same_def acc_add_def Let_def)
qed

lemma acc_same_adds:
  "acc_same a b \<Longrightarrow> \<forall>iv \<in> set ivs. interval_wf iv \<Longrightarrow> acc_same (foldl acc_add a ivs) (foldl acc_add b ivs)"
  by (induction ivs arbitrary: a b) (auto intro: acc_same_add)

lemma bar_not_in_code: "CHR ''|'' \<notin> set (sg_code (new_signature l e))"
proof -
  have "CHR ''|'' \<notin> set s" if r: "is_response_code s" and t: "trim_space s = s" for s
  proof
    assume "CHR ''|'' \<in> set s"
    moreover obtain n where "atoi s = Some n"
      using r unfolding is_response_code_def t by (cases "atoi s") auto
    then have "\<forall>c \<in> set s. is_digit c \<or> c = CHR ''-'' \<or> c = CHR ''+''"
      by (cases s) (auto simp: atoi_def list_all_iff Let_def split: if_splits)
    ultimately show False by (auto simp: is_digit_def)
  qed
  then show ?thesis by (simp add: new_signature_def Let_def)
qed

lemma label_wf_add [simp]: "label_wf st \<Longrightarrow> label_wf (add_to_label iv st)"
  by (simp add: label_wf_def add_to_label_def)

lemma second_wf_add [simp]: "wf_map (se_label_latency sec) \<Longrightarrow> wf_map (se_label_latency (add_to_second iv sec))"
  by (simp add: add_to_second_def Let_def split: prod.splits)

definition sigs_wf :: "(signature, error_signature) gomap \<Rightarrow> bool" where
  "sigs_wf m \<longleftrightarrow> wf_map m \<and> (\<forall>s e. mget m s = Some e \<longrightarrow> es_signature e = s \<and> CHR ''|'' \<notin> set (sg_code s))"

lemma sigs_wf_add: "sigs_wf m \<Longrightarrow> sigs_wf (add_error l e m)"
  using bar_not_in_code[of l e] by (auto simp: sigs_wf_def add_error_def Let_def mget_or_def split: option.splits)

lemma sigs_wf_adds: "sigs_wf m \<Longrightarrow> sigs_wf (fold (add_error l) es m)"
  by (induction es arbitrary: m) (auto simp: sigs_wf_add)

lemma acc_wf_alt:
  "acc_wf a \<longleftrightarrow> wf_map (ac_labels a) \<and> wf_map (ac_seconds a) \<and> sigs_wf (ac_signatures a) \<and>
     (\<forall>l st. mget (ac_labels a) l = Some st \<longrightarrow> label_wf st) \<and>
     (\<forall>t sec. mget (ac_seconds a) t = Some sec \<longrightarrow> wf_map (se_label_latency sec))"
  by (auto simp: acc_wf_def sigs_wf_def)

lemma acc_wf_new [simp]: "acc_wf new_accumulator"
  by (simp add: acc_wf_def new_accumulator_def)

lemma acc_wf_add:
  assumes "acc_wf a"
  shows "acc_wf (acc_add a iv)"
proof -
  have "label_wf (mget_or zero_label (ac_labels a) l)" "wf_map (se_label_latency (mget_or zero_second (ac_seconds a) t))" for l t
    using assms by (auto simp: acc_wf_def mget_or_def zero_label_def zero_second_def label_wf_def split: option.splits)
  then show ?thesis using assms sigs_wf_adds by (auto simp: acc_wf_alt acc_add_def Let_def)
qed

lemma acc_wf_adds: "acc_wf a \<Longrightarrow> acc_wf (foldl acc_add a ivs)"
  by (induction ivs arbitrary: a) (auto simp: acc_wf_add)

section \<open>Snapshots restore\<close>

lemma mget_fold_mput:
  assumes "distinct (map f xs)"
  shows "mget (fold (\<lambda>x. mput (f x) (g x)) xs m) k =
    (case find (\<lambda>x. f x = k) xs of Some x \<Rightarrow> Some (g x) | None \<Rightarrow> mget m k)"
  using assms
proof (induction xs arbitrary: m)
  case (Cons x xs)
  have "find (\<lambda>x. f x = k) xs = None" if "f x = k"
    using Cons.prems that by (auto simp: find_None_iff image_iff)
  then show ?case using Cons by (auto split: option.splits)
qed simp

lemma find_key_iff:
  "distinct (map f xs) \<Longrightarrow> find (\<lambda>x. f x = k) xs = Some x \<longleftrightarrow> x \<in> set xs \<and> f x = k"
  by (induction xs) (auto split: if_splits)

lemma mget_fold_mput_in:
  "mget (fold (\<lambda>x. mput (f x) (g x)) xs m) k = Some y \<Longrightarrow> mget m k = Some y \<or> y \<in> g ` set xs"
  by (induction xs arbitrary: m) (force split: if_splits)+

lemma wf_map_fold_mput: "wf_map m \<Longrightarrow> wf_map (fold (\<lambda>x. mput (f x) (g x)) xs m)"
  by (induction xs arbitrary: m) auto

text \<open>Rebuilding a map from its entries, listed in any order.\<close>

lemma mget_rebuild:
  assumes "mset xs = mset (map (\<lambda>(k, v). h k v) m)" "wf_map m" "\<And>k v. mget m k = Some v \<Longrightarrow> f (h k v) = k"
  shows "mget (fold (\<lambda>x. mput (f x) (g x)) xs []) k = map_option (\<lambda>v. g (h k v)) (mget m k)"
proof -
  have im: "set xs = (\<lambda>(k, v). h k v) ` set m" using assms(1) by (metis set_mset_mset mset_map set_map)
  have fk: "f (h k v) = k" if "(k, v) \<in> set m" for k v using that assms(2,3) by (simp add: mget_in_set)
  have "map f (map (\<lambda>(k, v). h k v) m) = map fst m" using fk by (auto simp: map_eq_conv)
  then have "mset (map f xs) = mset (map fst m)" using assms(1) by (metis mset_map)
  then have d: "distinct (map f xs)" using assms(2) unfolding wf_map_def by (metis mset_eq_imp_distinct_iff)
  show ?thesis
  proof (cases "mget m k")
    case None
    then have "find (\<lambda>x. f x = k) xs = None"
      using im fk by (force simp: find_None_iff mget_None_iff)
    then show ?thesis using None by (simp add: mget_fold_mput[OF d])
  next
    case (Some v)
    then have "h k v \<in> set xs" using im by (force dest: mget_SomeD)
    then have "find (\<lambda>x. f x = k) xs = Some (h k v)" using Some assms(3) by (simp add: find_key_iff[OF d])
    then show ?thesis using Some by (simp add: mget_fold_mput[OF d])
  qed
qed

lemma mvals_map: "mvals m = map (\<lambda>(k, v). v) m"
  by (simp add: mvals_def case_prod_beta)

lemma restore_views:
  assumes "acc_wf a"
  shows "map_option label_view (mget (ac_labels (restore (acc_snapshot a))) l) = map_option label_view (mget (ac_labels a) l)"
    and "mget (ac_seconds (restore (acc_snapshot a))) t = mget (ac_seconds a) t"
    and "mget (ac_signatures (restore (acc_snapshot a))) s = mget (ac_signatures a) s"
proof -
  have W: "wf_map (ac_labels a)" "wf_map (ac_seconds a)" "wf_map (ac_signatures a)" using assms by (auto simp: acc_wf_def)
  have l: "mget (ac_labels (restore (acc_snapshot a))) l =
      map_option (\<lambda>st. \<lparr>ls_codes = ls_codes st, ls_samples = ls_samples st, ls_failed = ls_failed st,
        ls_latency = hist_merge [] (ls_latency st)\<rparr>) (mget (ac_labels a) l)"
    unfolding restore_def acc_snapshot_def by (simp, subst mget_rebuild[OF _ W(1)]) auto
  show "map_option label_view (mget (ac_labels (restore (acc_snapshot a))) l) = map_option label_view (mget (ac_labels a) l)"
    using assms unfolding l by (auto simp: acc_wf_def label_wf_def label_view_def hist_merge_self split: option.splits
        intro!: map_option_cong simp: option.map_comp o_def)
  show "mget (ac_seconds (restore (acc_snapshot a))) t = mget (ac_seconds a) t"
    unfolding restore_def acc_snapshot_def
    by (simp, subst mget_rebuild[OF _ W(2)]) (auto intro: option.map_ident_strong)
  show "mget (ac_signatures (restore (acc_snapshot a))) s = mget (ac_signatures a) s"
    unfolding restore_def acc_snapshot_def using assms
    by (simp, subst mget_rebuild[of _ "\<lambda>k v. v", OF _ W(3)]) (auto simp: option.map_ident mvals_map acc_wf_def)
qed

lemma restore_same: "acc_wf a \<Longrightarrow> acc_same (restore (acc_snapshot a)) a"
  by (simp add: acc_same_def restore_views)

lemma restore_wf:
  assumes "acc_wf a"
  shows "acc_wf (restore (acc_snapshot a))"
proof -
  have "label_wf st'" if "mget (ac_labels (restore (acc_snapshot a))) l = Some st'" for l st'
  proof -
    have "st' \<in> (\<lambda>l. \<lparr>ls_codes = lp_codes l, ls_samples = lp_samples l, ls_failed = lp_failed l,
        ls_latency = hist_merge [] (lp_latency l)\<rparr>) ` set (sn_labels (acc_snapshot a))"
      using that by (auto simp: restore_def dest!: mget_fold_mput_in)
    then obtain l' st where "(l', st) \<in> set (ac_labels a)" "st' = \<lparr>ls_codes = ls_codes st, ls_samples = ls_samples st,
        ls_failed = ls_failed st, ls_latency = hist_merge [] (ls_latency st)\<rparr>"
      by (auto simp: acc_snapshot_def)
    then show ?thesis using assms by (auto simp: acc_wf_def label_wf_def simp flip: mget_in_set)
  qed
  then show ?thesis using assms restore_views[OF assms]
    by (auto simp: acc_wf_def) (auto simp: restore_def intro!: wf_map_fold_mput)
qed

section \<open>The report is a function of the view\<close>

lemma mset_through_view:
  assumes "wf_map m" "wf_map m'" "\<And>k. map_option v (mget m k) = map_option v (mget m' k)" "\<And>k x. g k x = h k (v x)"
  shows "mset (map (\<lambda>(k, x). g k x) m) = mset (map (\<lambda>(k, x). g k x) m')"
proof -
  have k: "mset (map (\<lambda>(k, x). g k x) y) = image_mset (\<lambda>(k, x). h k x) (mset (map (\<lambda>(k, x). (k, v x)) y))" for y
    by (induction y) (auto simp: assms(4))
  show ?thesis unfolding k same_entries_view[OF assms(1-3)] ..
qed

lemma mvals_through_view:
  assumes "wf_map m" "wf_map m'" "\<And>k. map_option v (mget m k) = map_option v (mget m' k)" "\<And>x. g x = h (v x)"
  shows "mset (map g (mvals m)) = mset (map g (mvals m'))"
proof -
  have k: "map g (mvals y) = map (\<lambda>(k, x). g x) y" for y :: "('a \<times> 'b) list"
    by (auto simp: mvals_def)
  show ?thesis unfolding k by (rule mset_through_view[OF assms(1-3), where h = "\<lambda>_. h"]) (rule assms(4))
qed

lemma mget_overall:
  assumes "\<forall>st \<in> set sts. wf_map (lat st)"
  shows "mget (fold (\<lambda>st h. hist_merge h (lat st)) sts h) k =
    (if \<exists>st \<in> set sts. mget (lat st) k \<noteq> None
     then Some (i64 (mget_or 0 h k + sum_list (map (\<lambda>st. mget_or 0 (lat st) k) sts))) else mget h k)"
  using assms
proof (induction sts arbitrary: h)
  case (Cons st sts)
  define h1 where "h1 = hist_merge h (lat st)"
  have 0: "mget (lat st') k = None \<Longrightarrow> mget_or 0 (lat st') k = 0" for st' by (simp add: mget_or_def)
  have zero: "sum_list (map (\<lambda>st. mget_or 0 (lat st) k) sts) = 0" if "\<not> (\<exists>st \<in> set sts. mget (lat st) k \<noteq> None)"
  proof -
    have "map (\<lambda>st. mget_or 0 (lat st) k) sts = map (\<lambda>_. 0) sts" using that 0 by (intro map_cong) auto
    then show ?thesis by (simp only:) simp
  qed
  have h1: "mget h1 k = (case mget (lat st) k of None \<Rightarrow> mget h k | Some n \<Rightarrow> Some (i64 (mget_or 0 h k + n)))"
    unfolding h1_def using Cons.prems by (intro mget_hist_merge) simp
  have "mget (fold (\<lambda>st h. hist_merge h (lat st)) (st # sts) h) k =
      mget (fold (\<lambda>st h. hist_merge h (lat st)) sts h1) k" by (simp add: h1_def)
  then show ?case using Cons.IH[of h1] Cons.prems h1 zero
    by (cases "mget (lat st) k"; cases "\<exists>st \<in> set sts. mget (lat st) k \<noteq> None")
      (auto simp: mget_or_def i64_add_left add.assoc)
qed simp

lemma wf_overall: "wf_map h \<Longrightarrow> wf_map (fold (\<lambda>st h. hist_merge h (lat st)) sts h)"
  by (induction sts arbitrary: h) auto

lemma in_mvals_view:
  assumes "wf_map m" "wf_map m'" "\<And>k. map_option v (mget m k) = map_option v (mget m' k)"
  shows "v ` set (mvals m) = v ` set (mvals m')"
  using mvals_through_view[OF assms, of v id] by (metis id_apply mset_map set_image_mset set_mset_mset)

lemma overall_cong:
  assumes "acc_wf a" "acc_wf b" "acc_same a b"
  shows "mget (fold (\<lambda>st h. hist_merge h (ls_latency st)) (mvals (ac_labels a)) [])
    = mget (fold (\<lambda>st h. hist_merge h (ls_latency st)) (mvals (ac_labels b)) [])"
proof
  fix k
  have W: "wf_map (ac_labels a)" "wf_map (ac_labels b)" using assms by (auto simp: acc_wf_def)
  have V: "map_option label_view (mget (ac_labels a) l) = map_option label_view (mget (ac_labels b) l)" for l
    using assms(3) by (simp add: acc_same_def)
  have lw: "\<forall>st \<in> set (mvals (ac_labels x)). wf_map (ls_latency st)" if "acc_wf x" for x
    using that by (force simp: acc_wf_def label_wf_def hist_wf_def in_mvals)
  have "mset (map (\<lambda>st. mget_or 0 (ls_latency st) k) (mvals (ac_labels a)))
      = mset (map (\<lambda>st. mget_or 0 (ls_latency st) k) (mvals (ac_labels b)))"
    by (rule mvals_through_view[OF W V, where h = "\<lambda>(_, _, l, _). case l k of None \<Rightarrow> 0 | Some v \<Rightarrow> v"])
      (simp add: label_view_def mget_or_def)
  then have "sum_list (map (\<lambda>st. mget_or 0 (ls_latency st) k) (mvals (ac_labels a)))
      = sum_list (map (\<lambda>st. mget_or 0 (ls_latency st) k) (mvals (ac_labels b)))"
    unfolding sum_mset_sum_list[symmetric] by simp
  moreover have ex: "(\<exists>st \<in> set (mvals (ac_labels x)). mget (ls_latency st) k \<noteq> None)
      \<longleftrightarrow> (\<exists>w \<in> label_view ` set (mvals (ac_labels x)). (case w of (_, _, l, _) \<Rightarrow> l k) \<noteq> None)" for x
    by (simp add: label_view_def)
  ultimately show "mget (fold (\<lambda>st h. hist_merge h (ls_latency st)) (mvals (ac_labels a)) []) k
      = mget (fold (\<lambda>st h. hist_merge h (ls_latency st)) (mvals (ac_labels b)) []) k"
    unfolding mget_overall[OF lw[OF assms(1)]] mget_overall[OF lw[OF assms(2)]] ex in_mvals_view[OF W V] by simp
qed

lemma labels_cong:
  assumes "acc_wf a" "acc_wf b" "acc_same a b"
  shows "sum64 (map ls_samples (mvals (ac_labels a))) 0 = sum64 (map ls_samples (mvals (ac_labels b))) 0"
    "sum64 (map ls_failed (mvals (ac_labels a))) 0 = sum64 (map ls_failed (mvals (ac_labels b))) 0"
    "sort (mkeys (ac_labels a)) = sort (mkeys (ac_labels b))"
    "label_summary_of l (mget_or zero_label (ac_labels a) l) = label_summary_of l (mget_or zero_label (ac_labels b) l)"
proof -
  have W: "wf_map (ac_labels a)" "wf_map (ac_labels b)" using assms by (auto simp: acc_wf_def)
  have V: "map_option label_view (mget (ac_labels a) l) = map_option label_view (mget (ac_labels b) l)" for l
    using assms(3) by (simp add: acc_same_def)
  show "sum64 (map ls_samples (mvals (ac_labels a))) 0 = sum64 (map ls_samples (mvals (ac_labels b))) 0"
    by (rule sum64_perm, rule mvals_through_view[OF W V, where h = fst]) (simp add: label_view_def)
  show "sum64 (map ls_failed (mvals (ac_labels a))) 0 = sum64 (map ls_failed (mvals (ac_labels b))) 0"
    by (rule sum64_perm, rule mvals_through_view[OF W V, where h = "fst \<circ> snd"]) (simp add: label_view_def)
  show "sort (mkeys (ac_labels a)) = sort (mkeys (ac_labels b))" by (rule sort_perm, rule same_keys[OF W V])
  have lw: "label_wf (mget_or zero_label (ac_labels x) l)" if "acc_wf x" for x
    using that by (auto simp: acc_wf_def mget_or_def zero_label_def label_wf_def split: option.splits)
  have "label_view (mget_or zero_label (ac_labels a) l) = label_view (mget_or zero_label (ac_labels b) l)"
    by (rule map_option_view_or[OF V])
  then show "label_summary_of l (mget_or zero_label (ac_labels a) l) = label_summary_of l (mget_or zero_label (ac_labels b) l)"
    using lw[OF assms(1)] lw[OF assms(2)]
    by (auto simp: label_summary_of_def label_view_def label_wf_def hist_wf_def
        intro!: percentiles_cong status_labels_cong)
qed

lemma fold_max_Max: "fold max xs (x :: int) = Max (insert x (set xs))"
  by (metis Max.set_eq_fold list.simps(15))

definition second_peak :: "second_state \<Rightarrow> int" where
  "second_peak sec = max (se_labels sec) (se_engine sec)"

lemma peak_Max: "peak a = Max (insert 0 (second_peak ` set (mvals (ac_seconds a))))"
proof -
  have "(let n = (if se_labels sec < se_engine sec then se_engine sec else se_labels sec) in if pk < n then n else pk)
      = max (second_peak sec) pk" for sec pk
    by (simp add: second_peak_def Let_def max_def)
  then have "peak a = fold (\<lambda>sec. max (second_peak sec)) (mvals (ac_seconds a)) 0"
    unfolding peak_def by (intro fold_cong) auto
  also have "\<dots> = fold max (map second_peak (mvals (ac_seconds a))) 0" by (simp add: fold_map o_def)
  finally show ?thesis by (simp add: fold_max_Max)
qed

lemma fold_lo_hi:
  "fold (\<lambda>ts (lo, hi). (if ts < lo then ts else lo, if hi < ts then ts else hi)) rest (lo, hi)
   = (Min (insert lo (set rest)), Max (insert hi (set rest) :: int set))"
proof (induction rest arbitrary: lo hi)
  case (Cons t rest)
  have m: "(if t < lo then t else lo) = min lo t" "(if hi < t then t else hi) = max hi t" by auto
  have "Min (insert (min lo t) (set rest)) = Min (insert lo (set (t # rest)))"
    "Max (insert (max hi t) (set rest)) = Max (insert hi (set (t # rest)))"
    by (cases "set rest = {}"; simp add: min.assoc max.assoc)+
  then show ?case by (simp add: m Cons.IH)
qed simp

lemma measured_span:
  "measured_span_seconds a = (let ks = set (mkeys (ac_seconds a)) in
     if ks = {} then None else Some (i64 (i64 (Max ks - Min ks) + 1)))"
  by (cases "mkeys (ac_seconds a)") (simp_all add: measured_span_seconds_def fold_lo_hi Let_def)

lemma seconds_cong:
  assumes "acc_wf a" "acc_wf b" "acc_same a b"
  shows "peak a = peak b" "achieved_seconds a m = achieved_seconds b m"
proof -
  have W: "wf_map (ac_seconds a)" "wf_map (ac_seconds b)" using assms by (auto simp: acc_wf_def)
  have V: "map_option second_view (mget (ac_seconds a) t) = map_option second_view (mget (ac_seconds b) t)" for t
    using assms(3) by (simp add: acc_same_def)
  have sp: "second_peak ` X = (\<lambda>(e, l, _). max l e) ` second_view ` X" for X
    by (force simp: second_peak_def second_view_def image_iff)
  show "peak a = peak b" unfolding peak_Max sp in_mvals_view[OF W V] ..
  have "set (mkeys (ac_seconds a)) = set (mkeys (ac_seconds b))" using same_keys[OF W V] by (metis set_mset_mset)
  then show "achieved_seconds a m = achieved_seconds b m" by (simp add: achieved_seconds_def measured_span)
qed

lemma soak_trend_cong:
  assumes "acc_wf a" "acc_wf b" "acc_same a b"
  shows "soak_trend_of (ac_seconds a) = soak_trend_of (ac_seconds b)"
proof -
  have W: "wf_map (ac_seconds a)" "wf_map (ac_seconds b)" using assms by (auto simp: acc_wf_def)
  have V: "map_option second_view (mget (ac_seconds a) t) = map_option second_view (mget (ac_seconds b) t)" for t
    using assms(3) by (simp add: acc_same_def)
  define P where "P = (\<lambda>(_ :: int, sec :: second_state). 0 < se_lat_samples sec)"
  have f: "mset (map fst (filter P x)) = image_mset fst (filter_mset (\<lambda>(_, _, _, _, n, _). 0 < n) (mset (map (\<lambda>(t, s). (t, second_view s)) x)))" for x
    by (induction x) (auto simp: P_def second_view_def)
  have "mset (map fst (filter P (ac_seconds a))) = mset (map fst (filter P (ac_seconds b)))"
    unfolding f same_entries_view[OF W V] ..
  then have s: "sort (map fst (filter P (ac_seconds a))) = sort (map fst (filter P (ac_seconds b)))"
    and l: "length (filter P (ac_seconds a)) = length (filter P (ac_seconds b))"
    by (rule sort_perm, metis length_map mset_eq_length)
  have v: "second_view (mget_or zero_second (ac_seconds a) t) = second_view (mget_or zero_second (ac_seconds b) t)" for t
    by (rule map_option_view_or[OF V])
  have e: "(let sec = mget_or zero_second (ac_seconds a) t in (t, se_lat_sum sec, se_lat_samples sec))
      = (let sec = mget_or zero_second (ac_seconds b) t in (t, se_lat_sum sec, se_lat_samples sec))" for t
    using v[of t] by (simp add: second_view_def Let_def)
  have P: "(\<lambda>(_ :: int, sec). 0 < se_lat_samples sec) = P" by (simp add: P_def)
  show ?thesis unfolding soak_trend_of_def P Let_def[of "filter P _"] s l e ..
qed

lemma sort_set_eq:
  "set xs = set ys \<Longrightarrow> distinct xs \<Longrightarrow> distinct ys \<Longrightarrow> sort xs = sort (ys :: 'a :: linorder list)"
  by (metis distinct_sort set_sort sorted_distinct_set_unique sorted_sort)

lemma label_points_through_view:
  "mset (label_points x name) = image_mset (\<lambda>(ts, t). (ts, lt_sum t, lt_samples t))
    (filter_mset (\<lambda>(ts, t). 0 < lt_samples t)
      (\<Sum>\<^sub># (image_mset (\<lambda>(ts, _, _, _, _, f). case f name of None \<Rightarrow> {#} | Some t \<Rightarrow> {#(ts, t)#})
        (mset (map (\<lambda>(t, s). (t, second_view s)) x)))))"
  unfolding label_points_def
  by (induction x) (auto simp: second_view_def split: option.splits)

lemma label_points_inj:
  assumes "wf_map x"
  shows "inj_on fst (set (label_points x name))"
proof (rule inj_onI)
  fix p q assume a: "p \<in> set (label_points x name)" "q \<in> set (label_points x name)" "fst p = fst q"
  have pt: "\<exists>s t. (fst r, s) \<in> set x \<and> mget (se_label_latency s) name = Some t \<and> snd r = (lt_sum t, lt_samples t)"
    if "r \<in> set (label_points x name)" for r
    using that by (auto simp: label_points_def split: option.splits) metis
  obtain s t where p: "(fst p, s) \<in> set x" "mget (se_label_latency s) name = Some t" "snd p = (lt_sum t, lt_samples t)"
    using pt[OF a(1)] by auto
  obtain s' t' where q: "(fst p, s') \<in> set x" "mget (se_label_latency s') name = Some t'" "snd q = (lt_sum t', lt_samples t')"
    using pt[OF a(2)] a(3) by auto
  have "s = s'" using assms p(1) q(1) unfolding wf_map_def by (rule eq_key_imp_eq_value)
  then show "p = q" using p(2,3) q(2,3) a(3) by (simp add: prod_eq_iff)
qed

lemma soak_label_names_iff:
  assumes "acc_wf a"
  shows "name \<in> set (soak_label_names (ac_seconds a)) \<longleftrightarrow>
    (\<exists>w \<in> second_view ` set (mvals (ac_seconds a)). case w of (_, _, _, _, f) \<Rightarrow> \<exists>t. f name = Some t \<and> 0 < lt_samples t)"
proof -
  have "wf_map (se_label_latency sec)" if "(ts, sec) \<in> set (ac_seconds a)" for ts sec
    using that assms by (auto simp: acc_wf_def simp flip: mget_in_set)
  then have g: "mget (se_label_latency sec) name = Some t \<longleftrightarrow> (name, t) \<in> set (se_label_latency sec)"
    if "(ts, sec) \<in> set (ac_seconds a)" for ts sec t using that by (simp add: mget_in_set)
  have "name \<in> set (soak_label_names (ac_seconds a)) \<longleftrightarrow>
      (\<exists>p \<in> set (ac_seconds a). \<exists>t. (name, t) \<in> set (se_label_latency (snd p)) \<and> 0 < lt_samples t)"
    by (force simp: soak_label_names_def)
  also have "\<dots> \<longleftrightarrow> (\<exists>p \<in> set (ac_seconds a). \<exists>t. mget (se_label_latency (snd p)) name = Some t \<and> 0 < lt_samples t)"
    using g by (intro bex_cong) auto
  finally show ?thesis by (simp add: second_view_def mvals_def)
qed

lemma soak_labels_cong:
  assumes "acc_wf a" "acc_wf b" "acc_same a b"
  shows "soak_trend_labels (ac_seconds a) = soak_trend_labels (ac_seconds b)"
proof -
  have W: "wf_map (ac_seconds a)" "wf_map (ac_seconds b)" using assms by (auto simp: acc_wf_def)
  have V: "map_option second_view (mget (ac_seconds a) t) = map_option second_view (mget (ac_seconds b) t)" for t
    using assms(3) by (simp add: acc_same_def)
  have "set (soak_label_names (ac_seconds a)) = set (soak_label_names (ac_seconds b))"
    unfolding set_eq_iff soak_label_names_iff[OF assms(1)] soak_label_names_iff[OF assms(2)] in_mvals_view[OF W V] by simp
  then have n: "sort (soak_label_names (ac_seconds a)) = sort (soak_label_names (ac_seconds b))"
    by (intro sort_set_eq) (simp_all add: soak_label_names_def)
  have m: "mset (label_points (ac_seconds a) name) = mset (label_points (ac_seconds b) name)" for name
    unfolding label_points_through_view same_entries_view[OF W V] ..
  have e: "sort_key fst (label_points (ac_seconds a) name) = sort_key fst (label_points (ac_seconds b) name)"
    "length (label_points (ac_seconds a) name) = length (label_points (ac_seconds b) name)" for name
    by (rule sort_key_perm[OF m label_points_inj[OF W(1)]], rule mset_eq_length[OF m])
  show ?thesis unfolding soak_trend_labels_def n Let_def e ..
qed

lemma before_bar: "CHR ''|'' \<notin> set xs \<Longrightarrow> takeWhile (\<lambda>c. c \<noteq> CHR ''|'') (xs @ CHR ''|'' # ys) = xs"
  by (induction xs) auto

text \<open>\<open>Signature.String\<close> identifies a signature, since no code contains the separator.\<close>

lemma signature_string_inj:
  assumes "signature_string s = signature_string t" "CHR ''|'' \<notin> set (sg_code s)" "CHR ''|'' \<notin> set (sg_code t)"
  shows "s = t"
proof -
  have side: "CHR ''|'' \<notin> set (side_string x)" for x by (cases x) auto
  have "side_string (sg_side s) = side_string (sg_side t)"
    using arg_cong[OF assms(1), of "takeWhile (\<lambda>c. c \<noteq> CHR ''|'')"] before_bar[OF side] by (simp add: signature_string_def)
  moreover from this have rest: "sg_code s @ CHR ''|'' # sg_label s = sg_code t @ CHR ''|'' # sg_label t"
    using assms(1) by (simp add: signature_string_def)
  then have "sg_code s = sg_code t"
    using before_bar[OF assms(2), of "sg_label s"] before_bar[OF assms(3), of "sg_label t"] by simp
  moreover have "side_string x = side_string y \<Longrightarrow> x = y" for x y by (cases x; cases y) auto
  ultimately show ?thesis using rest by (cases s; cases t) simp
qed

lemma acc_errors_cong:
  assumes "acc_wf a" "acc_wf b" "acc_same a b"
  shows "acc_errors a = acc_errors b"
proof -
  have m: "mset (mvals (ac_signatures a)) = mset (mvals (ac_signatures b))"
    using mvals_through_view[of "ac_signatures a" "ac_signatures b" id id id] assms
    by (simp add: acc_wf_def acc_same_def)
  have inj: "inj_on (\<lambda>e. (- es_count e, signature_string (es_signature e))) (set (mvals (ac_signatures a)))"
  proof (rule inj_onI)
    fix x y assume "x \<in> set (mvals (ac_signatures a))" "y \<in> set (mvals (ac_signatures a))"
      and e: "(- es_count x, signature_string (es_signature x)) = (- es_count y, signature_string (es_signature y))"
    then obtain k k' where k: "mget (ac_signatures a) k = Some x" "mget (ac_signatures a) k' = Some y"
      using assms(1) by (auto simp: acc_wf_def in_mvals)
    then have "k = k'" using e assms(1) signature_string_inj[of k k'] by (auto simp: acc_wf_def)
    then show "x = y" using k by simp
  qed
  have comm: "attribute_count x \<circ> attribute_count y = attribute_count y \<circ> attribute_count x" for x y
    by (rule ext) (cases "sg_side (es_signature x)"; cases "sg_side (es_signature y)";
        simp add: attribute_count_def i64_add_left i64_add_right ac_simps)
  show ?thesis
    unfolding acc_errors_def Let_def sort_key_perm[OF m inj] fold_multiset_equiv[OF comm m] ..
qed

text \<open>The report depends on the accumulated view alone.\<close>

lemma acc_report_cong:
  assumes "acc_wf a" "acc_wf b" "acc_same a b"
  shows "acc_report a m = acc_report b m"
proof -
  note L = labels_cong[OF assms] and S = seconds_cong[OF assms]
  have o: "percentiles (fold (\<lambda>st h. hist_merge h (ls_latency st)) (mvals (ac_labels a)) []) ps =
      percentiles (fold (\<lambda>st h. hist_merge h (ls_latency st)) (mvals (ac_labels b)) []) ps" for ps
    by (rule percentiles_cong[OF wf_overall wf_overall overall_cong[OF assms]]) simp_all
  show ?thesis
    unfolding acc_report_def Let_def L(1-3) S o acc_errors_cong[OF assms] soak_trend_cong[OF assms]
      soak_labels_cong[OF assms] L(4) ..
qed

text \<open>
  C6. A run that outlives the process measuring it: however its measurements are cut into
  batches, with the state written down as a snapshot and restored between any two of them, the
  report is the one \<open>Build\<close> computes from all the intervals at once.
\<close>

theorem restarts_do_not_show:
  assumes "\<forall>ivs \<in> set batches. \<forall>iv \<in> set ivs. interval_wf iv"
  shows "acc_report (foldl (\<lambda>a ivs. foldl acc_add (restore (acc_snapshot a)) ivs) new_accumulator batches) m
    = build m (concat batches)"
proof -
  have "acc_wf (foldl (\<lambda>a ivs. foldl acc_add (restore (acc_snapshot a)) ivs) a batches) \<and>
      acc_wf (foldl acc_add b (concat batches)) \<and>
      acc_same (foldl (\<lambda>a ivs. foldl acc_add (restore (acc_snapshot a)) ivs) a batches) (foldl acc_add b (concat batches))"
    if "acc_wf a" "acc_wf b" "acc_same a b" for a b
    using assms that
  proof (induction batches arbitrary: a b)
    case (Cons ivs batches)
    have "acc_same (restore (acc_snapshot a)) b"
      using restore_same[OF Cons.prems(2)] Cons.prems(4) by (auto simp: acc_same_def)
    then have "acc_same (foldl acc_add (restore (acc_snapshot a)) ivs) (foldl acc_add b ivs)"
      using Cons.prems(1) by (intro acc_same_adds) auto
    moreover have "acc_wf (foldl acc_add (restore (acc_snapshot a)) ivs)" "acc_wf (foldl acc_add b ivs)"
      using Cons.prems(2,3) by (simp_all add: restore_wf acc_wf_adds)
    ultimately show ?case using Cons.IH Cons.prems(1) by simp
  qed simp
  from this[OF acc_wf_new acc_wf_new acc_same_refl] show ?thesis unfolding build_def by (intro acc_report_cong) auto
qed

theorem restarts_do_not_show_witness:
  "\<forall>m. acc_report (foldl (\<lambda>a ivs. foldl acc_add (restore (acc_snapshot a)) ivs) new_accumulator
     [[zero_interval], [zero_interval\<lparr>iv_label := ''b'', iv_samples := 2\<rparr>]]) m =
   build m [zero_interval, zero_interval\<lparr>iv_label := ''b'', iv_samples := 2\<rparr>]"
  using restarts_do_not_show[of "[[zero_interval], [zero_interval\<lparr>iv_label := ''b'', iv_samples := 2\<rparr>]]"]
  by (simp add: zero_interval_def interval_wf_def)

end
