(* ===== verification/Report_Totals.thy ===== *)
theory Report_Totals
  imports Report_View
begin

text \<open>
  What a report says of the intervals it was built from: its totals, its attribution and its
  percentiles, with the engine's own aggregate rows counted once, and the readings of trends
  and outcomes.
\<close>

section \<open>Sums over a map\<close>

lemma sum_mvals_mput:
  fixes f :: "'v \<Rightarrow> int"
  assumes "wf_map m"
  shows "sum_list (map f (mvals (mput k v m))) =
    sum_list (map f (mvals m)) - (case mget m k of None \<Rightarrow> 0 | Some v0 \<Rightarrow> f v0) + f v"
  using assms
proof (induction m)
  case Nil
  then show ?case by (simp add: mput_def mvals_def)
next
  case (Cons p m)
  obtain k' v' where p: "p = (k', v')" by fastforce
  have "mget m k' = None" "wf_map m" using Cons.prems p by (auto simp: wf_map_def mget_None_iff)
  then show ?case using Cons.IH p by (cases "k = k'") (auto simp: mput_def mvals_def mget_Cons split: option.splits)
qed

lemma i64_sum_mput:
  fixes f :: "'v \<Rightarrow> int"
  assumes "wf_map m" "f v = i64 ((case mget m k of None \<Rightarrow> 0 | Some v0 \<Rightarrow> f v0) + n)"
  shows "i64 (sum_list (map f (mvals (mput k v m)))) = i64 (sum_list (map f (mvals m)) + n)"
  unfolding sum_mvals_mput[OF assms(1)] assms(2) i64_add_right by (simp add: algebra_simps)

lemma mget_or_case: "f (mget_or d m k) = (case mget m k of None \<Rightarrow> f d | Some v \<Rightarrow> f v)"
  by (simp add: mget_or_def split: option.splits)

section \<open>Totals\<close>

text \<open>The rows that count: every interval but the engine's own aggregate.\<close>

definition label_rows :: "interval list \<Rightarrow> interval list" where
  "label_rows ivs = filter (\<lambda>iv. iv_label iv \<noteq> TotalLabel) ivs"

abbreviation acc_of :: "interval list \<Rightarrow> accumulator" where
  "acc_of ivs \<equiv> foldl acc_add new_accumulator ivs"

lemma label_rows_snoc: "label_rows (ivs @ [iv]) = (if iv_label iv = TotalLabel then label_rows ivs else label_rows ivs @ [iv])"
  by (simp add: label_rows_def)

lemma acc_of_wf: "acc_wf (acc_of ivs)"
  by (simp add: acc_wf_adds)

lemma acc_add_labels:
  "ac_labels (acc_add a iv) = (if iv_label iv = TotalLabel then ac_labels a
     else mput (iv_label iv) (add_to_label iv (mget_or zero_label (ac_labels a) (iv_label iv))) (ac_labels a))"
  "ac_signatures (acc_add a iv) = (if iv_label iv = TotalLabel then ac_signatures a
     else fold (add_error (iv_label iv)) (iv_errors iv) (ac_signatures a))"
  "ac_seconds (acc_add a iv) = mput (iv_timestamp iv)
     (add_to_second iv (mget_or zero_second (ac_seconds a) (iv_timestamp iv))) (ac_seconds a)"
  by (simp_all add: acc_add_def Let_def)

lemma label_total:
  assumes "\<And>iv st. iv \<in> set ivs \<Longrightarrow> f (add_to_label iv st) = i64 (f st + g iv)" "f zero_label = 0"
  shows "i64 (sum_list (map f (mvals (ac_labels (acc_of ivs))))) = i64 (sum_list (map g (label_rows ivs)))"
  using assms(1)
proof (induction ivs rule: rev_induct)
  case Nil
  then show ?case by (simp add: new_accumulator_def mvals_def label_rows_def)
next
  case (snoc iv ivs)
  show ?case
  proof (cases "iv_label iv = TotalLabel")
    case True
    then show ?thesis using snoc by (simp add: acc_add_labels label_rows_snoc)
  next
    case False
    have IH: "i64 (sum_list (map f (mvals (ac_labels (acc_of ivs))))) = i64 (sum_list (map g (label_rows ivs)))"
      using snoc by simp
    have w: "wf_map (ac_labels (acc_of ivs))" using acc_of_wf by (simp add: acc_wf_def)
    have f: "f (add_to_label iv (mget_or zero_label (ac_labels (acc_of ivs)) (iv_label iv))) =
        i64 ((case mget (ac_labels (acc_of ivs)) (iv_label iv) of None \<Rightarrow> 0 | Some v0 \<Rightarrow> f v0) + g iv)"
      unfolding snoc.prems[of iv, simplified] mget_or_case[of f] assms(2) ..
    have "i64 (sum_list (map f (mvals (ac_labels (acc_add (acc_of ivs) iv)))))
        = i64 (sum_list (map f (mvals (ac_labels (acc_of ivs)))) + g iv)"
      using False i64_sum_mput[OF w f] by (simp add: acc_add_labels)
    also have "\<dots> = i64 (sum_list (map g (label_rows ivs)) + g iv)" using IH by (metis i64_add_left)
    finally show ?thesis using False by (simp add: label_rows_snoc)
  qed
qed

lemma error_total:
  "i64 (sum_list (map es_count (mvals (ac_signatures (acc_of ivs)))))
    = i64 (sum_list (map (\<lambda>iv. sum_list (map eg_count (iv_errors iv))) (label_rows ivs)))"
proof -
  have adds: "i64 (sum_list (map es_count (mvals (fold (add_error l) es m))))
      = i64 (sum_list (map es_count (mvals m)) + sum_list (map eg_count es))" if "sigs_wf m" for l es m
    using that
  proof (induction es arbitrary: m)
    case (Cons e es)
    define sig where "sig = new_signature l e"
    define ex where "ex = mget_or \<lparr>es_signature = sig, es_count = 0, es_exemplars = []\<rparr> m sig"
    define v where "v = ex\<lparr>es_count := i64 (es_count ex + eg_count e), es_exemplars := add_exemplar (eg_message e) (es_exemplars ex)\<rparr>"
    have m: "add_error l e m = mput sig v m" by (simp add: add_error_def sig_def ex_def v_def Let_def)
    have "es_count v = i64 ((case mget m sig of None \<Rightarrow> 0 | Some v0 \<Rightarrow> es_count v0) + eg_count e)"
      unfolding v_def ex_def by (simp add: mget_or_def split: option.splits)
    then have "i64 (sum_list (map es_count (mvals (add_error l e m)))) = i64 (sum_list (map es_count (mvals m)) + eg_count e)"
      unfolding m using Cons.prems by (intro i64_sum_mput) (simp_all add: sigs_wf_def)
    then show ?case using Cons.IH[OF sigs_wf_add[OF Cons.prems]]
      by (simp add: add.assoc) (metis i64_add_left add.assoc)
  qed simp
  show ?thesis
  proof (induction ivs rule: rev_induct)
    case (snoc iv ivs)
    have "sigs_wf (ac_signatures (acc_of ivs))" using acc_of_wf by (simp add: acc_wf_alt)
    from adds[OF this] show ?case using snoc
      by (simp add: acc_add_labels label_rows_snoc) (metis i64_add_left)
  qed (simp add: new_accumulator_def mvals_def label_rows_def)
qed

lemma attribution_total_fold:
  "attribution_total (fold attribute_count es a) = i64 (at_target a + at_engine a + at_unknown a + sum_list (map es_count es))"
proof (induction es arbitrary: a)
  case Nil
  then show ?case by (simp add: attribution_total_def i64_add_left)
next
  case (Cons e es)
  let ?s = "sum_list (map es_count es)"
  have "i64 (at_target (attribute_count e a) + at_engine (attribute_count e a) + at_unknown (attribute_count e a) + ?s)
      = i64 (at_target a + at_engine a + at_unknown a + ?s + es_count e)"
    using i64_add_left[of "at_target a + es_count e" "at_engine a + at_unknown a + ?s"]
      i64_add_left[of "at_engine a + es_count e" "at_target a + at_unknown a + ?s"]
      i64_add_left[of "at_unknown a + es_count e" "at_target a + at_engine a + ?s"]
    by (cases "sg_side (es_signature e)") (simp_all add: attribute_count_def algebra_simps)
  then show ?case using Cons.IH[of "attribute_count e a"] by (simp add: ac_simps)
qed

text \<open>
  C8. The report counts every request and every failure once: samples and failures are the sums
  over the per-request rows (the engine's own aggregate rows left out), the attribution over
  target, engine and unknown adds up to all the errors reported in those rows, and the labels
  are the distinct labels of those rows, in order. Sums are 64-bit.
\<close>

theorem report_totals:
  "ld_samples (rp_achieved (build m ivs)) = i64 (sum_list (map iv_samples (label_rows ivs))) \<and>
   ld_failed (rp_achieved (build m ivs)) = i64 (sum_list (map iv_failed (label_rows ivs))) \<and>
   attribution_total (rp_attribution (build m ivs))
     = i64 (sum_list (map (\<lambda>iv. sum_list (map eg_count (iv_errors iv))) (label_rows ivs))) \<and>
   map lb_label (rp_labels (build m ivs)) = sorted_list_of_set (iv_label ` set (label_rows ivs))"
proof -
  let ?a = "acc_of ivs"
  have keys: "set (mkeys (ac_labels ?a)) = iv_label ` set (label_rows ivs)"
  proof (induction ivs rule: rev_induct)
    case Nil
    then show ?case by (simp add: new_accumulator_def mkeys_def label_rows_def)
  next
    case (snoc iv ivs)
    then show ?case by (simp add: acc_add_labels label_rows_snoc mkeys_mput)
  qed
  have "distinct (sort (mkeys (ac_labels ?a)))" using acc_of_wf[of ivs] by (simp add: acc_wf_def wf_map_def mkeys_def)
  then have srt: "sort (mkeys (ac_labels ?a)) = sorted_list_of_set (iv_label ` set (label_rows ivs))"
    using keys by (metis set_sort sorted_list_of_set.idem_if_sorted_distinct sorted_sort)
  have "map lb_label (rp_labels (build m ivs)) = sort (mkeys (ac_labels ?a))"
    by (simp add: build_def acc_report_def Let_def acc_errors_def o_def label_summary_of_def)
  moreover have "i64 (sum_list (map ls_samples (mvals (ac_labels ?a)))) = i64 (sum_list (map iv_samples (label_rows ivs)))"
    "i64 (sum_list (map ls_failed (mvals (ac_labels ?a)))) = i64 (sum_list (map iv_failed (label_rows ivs)))"
    by (rule label_total; simp add: add_to_label_def zero_label_def)+
  ultimately show ?thesis
    using srt error_total[of ivs]
    by (simp add: build_def acc_report_def Let_def acc_errors_def sum64_0 attribution_total_fold)
qed

section \<open>Latency\<close>

lemma i64_idem [simp]: "i64 (i64 x) = i64 x"
  by (rule i64_id) simp

lemma i64_sum_i64: "i64 (sum_list (map (\<lambda>x. i64 (f x)) xs)) = i64 (sum_list (map f xs))"
proof (induction xs)
  case (Cons x xs)
  have "i64 (i64 (f x) + sum_list (map (\<lambda>x. i64 (f x)) xs)) = i64 (f x + i64 (sum_list (map f xs)))"
    using Cons by (metis i64_add_left i64_add_right)
  then show ?case by (simp add: i64_add_right)
qed simp

lemma latency_value:
  assumes "\<forall>iv \<in> set ivs. interval_wf iv"
  shows "i64 (sum_list (map (\<lambda>st. mget_or 0 (ls_latency st) k) (mvals (ac_labels (acc_of ivs)))))
    = i64 (sum_list (map (\<lambda>iv. mget_or 0 (iv_latency iv) k) (label_rows ivs)))"
proof -
  let ?f = "\<lambda>st. i64 (mget_or 0 (ls_latency st) k)"
  have "i64 (sum_list (map ?f (mvals (ac_labels (acc_of ivs)))))
      = i64 (sum_list (map (\<lambda>iv. mget_or 0 (iv_latency iv) k) (label_rows ivs)))"
  proof (rule label_total)
    fix iv st assume "iv \<in> set ivs"
    then have "wf_map (iv_latency iv)" using assms by (simp add: interval_wf_def)
    then show "?f (add_to_label iv st) = i64 (?f st + mget_or 0 (iv_latency iv) k)"
      by (auto simp: add_to_label_def mget_or_def mget_hist_merge i64_add_left split: option.splits)
  qed (simp add: zero_label_def mget_or_def i64_def)
  then show ?thesis by (simp only: i64_sum_i64)
qed

lemma bex_mvals: "wf_map m \<Longrightarrow> (\<exists>s \<in> set (mvals m). P s) \<longleftrightarrow> (\<exists>l s. mget m l = Some s \<and> P s)"
  unfolding Bex_def by (subst in_mvals) blast+

lemma bex_mvals_mput:
  assumes "wf_map m"
  shows "(\<exists>s \<in> set (mvals (mput k v m)). P s) \<longleftrightarrow> P v \<or> (\<exists>l s. l \<noteq> k \<and> mget m l = Some s \<and> P s)"
  unfolding bex_mvals[OF wf_map_mput[OF assms]] mget_mput
  by (metis (full_types) option.inject)

lemma ex_split_at: "(\<exists>l s. A l s) \<longleftrightarrow> (\<exists>s. A k s) \<or> (\<exists>l s. l \<noteq> k \<and> A l s)"
  by metis

lemma latency_present:
  assumes "\<forall>iv \<in> set ivs. interval_wf iv"
  shows "(\<exists>st \<in> set (mvals (ac_labels (acc_of ivs))). mget (ls_latency st) k \<noteq> None)
    \<longleftrightarrow> (\<exists>iv \<in> set (label_rows ivs). mget (iv_latency iv) k \<noteq> None)"
  using assms
proof (induction ivs rule: rev_induct)
  case (snoc iv ivs)
  define m l P where "m = ac_labels (acc_of ivs)" and "l = iv_label iv"
    and P: "P = (\<lambda>s::label_state. mget (ls_latency s) k \<noteq> None)"
  have w: "wf_map m" using acc_of_wf by (simp add: acc_wf_def m_def)
  show ?case
  proof (cases "l = TotalLabel")
    case False
    define st where "st = mget_or zero_label m l"
    have new: "P (add_to_label iv st) \<longleftrightarrow> P st \<or> mget (iv_latency iv) k \<noteq> None"
      using snoc.prems by (simp add: P add_to_label_def mget_hist_merge interval_wf_def split: option.splits)
    have old: "P st \<longleftrightarrow> (\<exists>s. mget m l = Some s \<and> P s)"
      by (cases "mget m l") (simp_all add: P st_def mget_or_def zero_label_def)
    have "(\<exists>s \<in> set (mvals (mput l (add_to_label iv st) m)). P s)
        \<longleftrightarrow> (\<exists>s \<in> set (mvals m). P s) \<or> mget (iv_latency iv) k \<noteq> None"
      unfolding bex_mvals_mput[OF w, of l _ P] new old bex_mvals[OF w, of P]
      using ex_split_at[of "\<lambda>l s. mget m l = Some s \<and> P s" l] by argo
    moreover have "ac_labels (acc_of (ivs @ [iv])) = mput l (add_to_label iv st) m"
      using False by (simp add: acc_add_labels st_def m_def l_def)
    moreover have "(\<exists>s \<in> set (mvals m). P s) \<longleftrightarrow> (\<exists>iv \<in> set (label_rows ivs). mget (iv_latency iv) k \<noteq> None)"
      using snoc unfolding P m_def by (simp del: not_None_eq)
    ultimately show ?thesis using False unfolding P l_def
      by (simp add: label_rows_snoc disj_commute del: not_None_eq fold_append)
  qed (use snoc in \<open>simp add: l_def acc_add_labels label_rows_snoc\<close>)
qed (simp add: new_accumulator_def mvals_def label_rows_def)

lemma report_latency:
  assumes "\<forall>iv \<in> set ivs. interval_wf iv"
  shows "rp_latency (build m ivs) = percentiles (foldl hist_merge [] (map iv_latency (label_rows ivs))) reportedPercentiles"
proof -
  let ?sts = "mvals (ac_labels (acc_of ivs))"
  have rows: "\<forall>iv \<in> set (label_rows ivs). wf_map (iv_latency iv)" using assms by (auto simp: label_rows_def interval_wf_def)
  have sts: "\<forall>st \<in> set ?sts. wf_map (ls_latency st)"
    using acc_of_wf[of ivs] by (force simp: acc_wf_def label_wf_def hist_wf_def in_mvals)
  have fl: "foldl hist_merge [] (map iv_latency xs) = fold (\<lambda>iv h. hist_merge h (iv_latency iv)) xs []" for xs
    by (simp add: foldl_conv_fold fold_map o_def)
  have "mget (fold (\<lambda>st h. hist_merge h (ls_latency st)) ?sts []) = mget (fold (\<lambda>iv h. hist_merge h (iv_latency iv)) (label_rows ivs) [])"
    using latency_value[OF assms] latency_present[OF assms]
    by (intro ext) (simp add: mget_overall[OF sts] mget_overall[OF rows] mget_or_def[of _ "[]"])
  then show ?thesis unfolding fl
    by (simp add: build_def acc_report_def acc_errors_def Let_def)
      (intro percentiles_cong wf_overall, simp_all)
qed

text \<open>
  C2. End to end, the percentiles of a report are those of the run's samples: for every
  percentile a report carries, the value is the sample at the exact nearest rank among all the
  samples of all the rows of all the pods, whatever labels they were filed under and in
  whatever order they arrived.
\<close>

theorem report_percentiles_exact:
  assumes "\<forall>iv \<in> set ivs. interval_wf iv" "\<forall>iv \<in> set (label_rows ivs). hist_ok (iv_latency iv)"
    and "pool = sort (concat (map (\<lambda>iv. samples (iv_latency iv)) (label_rows ivs)))"
    and "pool \<noteq> []" "length pool \<le> 2 ^ 40" "p \<in> {50, 90, 95, 99}"
  shows "mget (rp_latency (build m ivs)) (of_int p) = Some (pool ! nat (\<lceil>of_int (int (length pool) * p) / 100 :: rat\<rceil> - 1))"
proof -
  let ?hs = "map iv_latency (label_rows ivs)"
  have ok: "\<forall>h \<in> set ?hs. hist_ok h" using assms(2) by auto
  have pool: "pool = sort (concat (map samples ?hs))" using assms(3) by (simp add: o_def)
  have "hist_ok []" "samples [] = []" by (simp_all add: hist_ok_def samples_def mvals_def mkeys_def)
  then have "hist_ok (foldl hist_merge [] ?hs)" using pooled_samples[OF ok, of "[]"] assms(5) pool by simp
  then have "0 \<le> hist_count (foldl hist_merge [] ?hs)" using length_samples by (metis of_nat_0_le_iff)
  then show ?thesis
    using assms(6) sharded_percentile_exact[OF ok pool assms(4-6)]
    by (auto simp: report_latency[OF assms(1)] percentiles_eq_percentile reportedPercentiles_def)
qed

theorem report_percentiles_exact_witness:
  "\<forall>m. mget (rp_latency (build m
     [zero_interval\<lparr>iv_label := ''home'', iv_latency := [(1 / 10, 3), (1, 1)]\<rparr>,
      zero_interval\<lparr>iv_label := TotalLabel, iv_latency := [(7, 9)]\<rparr>,
      zero_interval\<lparr>iv_label := ''pay'', iv_latency := [(1 / 10, 5), (2, 1)]\<rparr>])) 90 = Some 1"
proof
  fix m
  let ?ivs = "[zero_interval\<lparr>iv_label := ''home'', iv_latency := [(1 / 10, 3), (1, 1)]\<rparr>,
      zero_interval\<lparr>iv_label := TotalLabel, iv_latency := [(7, 9)]\<rparr>,
      zero_interval\<lparr>iv_label := ''pay'', iv_latency := [(1 / 10, 5), (2, 1)]\<rparr>]"
  have s: "concat (map (\<lambda>iv. samples (iv_latency iv)) (label_rows ?ivs)) = replicate 3 (1 / 10) @ [1] @ replicate 5 (1 / 10) @ [2]"
    by (simp add: label_rows_def TotalLabel_def samples_def mkeys_def mget_or_def mget_def eval_nat_numeral)
  have "sort (concat (map (\<lambda>iv. samples (iv_latency iv)) (label_rows ?ivs))) = replicate 8 (1 / 10) @ [1, 2]"
    unfolding s by (rule properties_for_sort) (simp_all add: eval_nat_numeral)
  then show "mget (rp_latency (build m ?ivs)) 90 = Some 1"
    using report_percentiles_exact[of ?ivs "replicate 8 (1 / 10) @ [1, 2]" 90 m]
    by (simp add: label_rows_def TotalLabel_def hist_ok_def wf_map_def mvals_def nth_append interval_wf_def
        zero_interval_def hist_wf_def)
qed

section \<open>Outcomes, exemplars and trends\<close>

lemma worst_outcome_Max: "os \<noteq> [] \<Longrightarrow> worst_outcome os = Max (set os)"
proof -
  assume ne: "os \<noteq> []"
  have "worst_outcome os \<in> set os"
    using ne by (cases "hd os") (auto simp: worst_outcome_def dest: hd_in_set)
  moreover have "\<forall>x \<in> set os. x \<le> worst_outcome os"
  proof
    fix x assume "x \<in> set os"
    then show "x \<le> worst_outcome os" by (cases x rule: outcome.exhaust) (auto simp: worst_outcome_def less_eq_outcome_def)
  qed
  ultimately show ?thesis by (metis List.finite_set Max_eqI)
qed

lemma outcome_passed_iff: "outcome_from_exit_code c = OutcomePassed \<longleftrightarrow> c = 0"
  by (simp add: outcome_from_exit_code_def)

text \<open>
  The outcome of a run is that of its worst engine: with the outcomes ordered passed,
  aborted, failed, errored, combining the exit codes gives their maximum, a run with no exit
  code is errored, and a run passes exactly when at least one engine reported and all of them
  exited with 0.
\<close>

theorem combine_outcomes_worst:
  "combine_outcomes codes = (if codes = [] then OutcomeError else Max (outcome_from_exit_code ` set codes))
   \<and> (combine_outcomes codes = OutcomePassed \<longleftrightarrow> codes \<noteq> [] \<and> set codes \<subseteq> {0})"
proof
  show "combine_outcomes codes = (if codes = [] then OutcomeError else Max (outcome_from_exit_code ` set codes))"
    by (simp add: combine_outcomes_def worst_outcome_Max)
  have "worst_outcome os = OutcomePassed \<longleftrightarrow> set os \<subseteq> {OutcomePassed}" for os
    by (auto simp: worst_outcome_def) (metis outcome.exhaust)
  then show "combine_outcomes codes = OutcomePassed \<longleftrightarrow> codes \<noteq> [] \<and> set codes \<subseteq> {0}"
    by (auto simp: combine_outcomes_def outcome_passed_iff subset_iff image_iff)
qed

definition exemplars_ok :: "string list \<Rightarrow> bool" where
  "exemplars_ok xs \<longleftrightarrow> length xs \<le> MaxExemplars \<and> distinct xs \<and> (\<forall>x \<in> set xs. x \<noteq> [] \<and> length x \<le> MaxExemplarLen)"

lemma add_exemplar_ok: "exemplars_ok xs \<Longrightarrow> exemplars_ok (add_exemplar msg xs)"
  by (auto simp: exemplars_ok_def add_exemplar_def Let_def MaxExemplarLen_def)

lemma add_error_exemplars:
  "(\<forall>s e. mget sigs s = Some e \<longrightarrow> exemplars_ok (es_exemplars e)) \<Longrightarrow>
   mget (add_error l g sigs) s = Some e \<Longrightarrow> exemplars_ok (es_exemplars e)"
  by (auto simp: add_error_def Let_def mget_or_def exemplars_ok_def[of "[]"] MaxExemplars_def
      intro!: add_exemplar_ok split: if_splits option.splits)

lemma fold_add_error_exemplars:
  "(\<forall>s e. mget sigs s = Some e \<longrightarrow> exemplars_ok (es_exemplars e)) \<Longrightarrow>
   \<forall>s e. mget (fold (add_error l) gs sigs) s = Some e \<longrightarrow> exemplars_ok (es_exemplars e)"
proof (induction gs arbitrary: sigs)
  case (Cons g gs)
  have "\<forall>s e. mget (add_error l g sigs) s = Some e \<longrightarrow> exemplars_ok (es_exemplars e)"
    using add_error_exemplars Cons.prems by blast
  then show ?case using Cons.IH by simp
qed simp

lemma acc_of_exemplars: "\<forall>s e. mget (ac_signatures (acc_of ivs)) s = Some e \<longrightarrow> exemplars_ok (es_exemplars e)"
proof (induction ivs rule: rev_induct)
  case (snoc iv ivs)
  then show ?case using fold_add_error_exemplars by (simp add: acc_add_labels)
qed (simp add: new_accumulator_def)

lemma report_errors: "set (rp_errors (build m ivs)) = set (mvals (ac_signatures (acc_of ivs)))"
  by (simp add: build_def acc_report_def acc_errors_def Let_def)

text \<open>
  A report stays small however many failures a run has: every failure signature it lists
  carries at most three exemplar messages, all different, none empty and none longer than 300
  characters, and it lists the signatures by falling count.
\<close>

theorem report_exemplars_bounded:
  "list_all (\<lambda>e. exemplars_ok (es_exemplars e)) (rp_errors (build m ivs))
   \<and> sorted (map (\<lambda>e. - es_count e) (rp_errors (build m ivs)))"
proof
  show "list_all (\<lambda>e. exemplars_ok (es_exemplars e)) (rp_errors (build m ivs))"
    using acc_of_exemplars acc_of_wf[of ivs] unfolding list_all_iff report_errors
    by (auto simp: acc_wf_def sigs_wf_def in_mvals)
  have "sorted (map (\<lambda>e. (- es_count e, signature_string (es_signature e))) (rp_errors (build m ivs)))"
    by (simp add: build_def acc_report_def acc_errors_def Let_def)
  then show "sorted (map (\<lambda>e. - es_count e) (rp_errors (build m ivs)))"
    unfolding sorted_map by (rule sorted_wrt_mono_rel[rotated]) (auto simp: less_eq_prod_def)
qed

lemma trend_points_nth:
  "i < length rs \<Longrightarrow> trend_points rs ! i = trend_point_of (rs ! i) (drop (Suc i) rs)"
proof (induction rs arbitrary: i)
  case (Cons r rs)
  then show ?case by (cases i) auto
qed simp

lemma length_trend_points [simp]: "length (trend_points rs) = length rs"
  by (induction rs) auto

lemma find_first:
  "(\<exists>y. find P xs = Some y \<and> Q y) \<longleftrightarrow> (\<exists>j < length xs. P (xs ! j) \<and> Q (xs ! j) \<and> (\<forall>k < j. \<not> P (xs ! k)))"
  by (auto simp: find_Some_iff)

text \<open>
  A trend marks a run as regressed exactly when it fell short of the rate it asked for
  while its nearest older comparable run (same execution, engine, cluster and requested load)
  did not; runs in between that are not comparable neither hide nor cause a regression.
  Reports are newest first.
\<close>

theorem trend_regressed_iff:
  assumes "i < length rs"
  shows "tp_regressed (snd (build_trend rs) ! i) \<longleftrightarrow>
    short_of_request (rs ! i) \<and>
    (\<exists>j. i < j \<and> j < length rs \<and> report_comparable (rs ! i) (rs ! j) \<and> \<not> short_of_request (rs ! j)
         \<and> (\<forall>k. i < k \<and> k < j \<longrightarrow> \<not> report_comparable (rs ! i) (rs ! k)))"
proof -
  let ?P = "report_comparable (rs ! i)" and ?xs = "drop (Suc i) rs"
  have "tp_regressed (snd (build_trend rs) ! i) \<longleftrightarrow>
      short_of_request (rs ! i) \<and> (\<exists>y. find ?P ?xs = Some y \<and> \<not> short_of_request y)"
    using assms by (auto simp: build_trend_def trend_points_nth trend_point_of_def Let_def split: option.splits)
  also have "(\<exists>y. find ?P ?xs = Some y \<and> \<not> short_of_request y) \<longleftrightarrow>
      (\<exists>j < length ?xs. ?P (rs ! (Suc i + j)) \<and> \<not> short_of_request (rs ! (Suc i + j)) \<and> (\<forall>k < j. \<not> ?P (rs ! (Suc i + k))))"
    unfolding find_first by (rule ex_cong) (use assms in auto)
  also have "\<dots> \<longleftrightarrow> (\<exists>j. i < j \<and> j < length rs \<and> ?P (rs ! j) \<and> \<not> short_of_request (rs ! j)
         \<and> (\<forall>k. i < k \<and> k < j \<longrightarrow> \<not> ?P (rs ! k)))"
    (is "?L \<longleftrightarrow> ?R")
  proof
    assume ?L
    then obtain j where j: "j < length ?xs" "?P (rs ! (Suc i + j))" "\<not> short_of_request (rs ! (Suc i + j))"
      "\<forall>k < j. \<not> ?P (rs ! (Suc i + k))" by blast
    have "\<not> ?P (rs ! k)" if "i < k" "k < Suc i + j" for k
      using j(4)[rule_format, of "k - Suc i"] that by simp
    then show ?R using j by (intro exI[of _ "Suc i + j"]) auto
  next
    assume ?R
    then obtain j where "i < j" "j < length rs" "?P (rs ! j)" "\<not> short_of_request (rs ! j)"
      "\<forall>k. i < k \<and> k < j \<longrightarrow> \<not> ?P (rs ! k)" by blast
    then show ?L by (intro exI[of _ "j - Suc i"]) auto
  qed
  finally show ?thesis .
qed

definition sample_report :: "rat \<Rightarrow> string \<Rightarrow> report" where
  "sample_report achieved engine =
     (build \<lparr>mt_execution_id = 7, mt_scenario_id = 1, mt_run_id = 1, mt_engine = engine, mt_cluster = ''eu'',
       mt_correlation_id = '''', mt_started_at = 1, mt_ended_at = 2,
       mt_requested = \<lparr>ld_concurrency = 5, ld_throughput = 100, ld_duration = 60, ld_steps = [], ld_samples = 0, ld_failed = 0\<rparr>,
       mt_outcome = OutcomePassed\<rparr> [])
     \<lparr>rp_achieved := \<lparr>ld_concurrency = 5, ld_throughput = achieved, ld_duration = 60, ld_steps = [], ld_samples = 0, ld_failed = 0\<rparr>\<rparr>"

theorem trend_regressed_iff_witness:
  "tp_regressed (snd (build_trend [sample_report 94 ''jmeter'', sample_report 10 ''k6'', sample_report 95 ''jmeter'']) ! 0)"
proof -
  have "94 < fmul 100 shortfallTolerance" "\<not> 95 < fmul 100 shortfallTolerance" by code_simp+
  then have "short_of_request (sample_report 94 ''jmeter'')" "\<not> short_of_request (sample_report 95 ''jmeter'')"
    "\<not> report_comparable (sample_report 94 ''jmeter'') (sample_report 10 ''k6'')"
    "report_comparable (sample_report 94 ''jmeter'') (sample_report 95 ''jmeter'')"
    by (simp_all add: short_of_request_def report_comparable_def sample_report_def mean_requested_rate_def
        build_def acc_report_def acc_errors_def Let_def)
  then show ?thesis
    using trend_regressed_iff[of 0 "[sample_report 94 ''jmeter'', sample_report 10 ''k6'', sample_report 95 ''jmeter'']"]
    by (auto intro!: exI[of _ 2] simp: less_Suc_eq numeral_2_eq_2)
qed

end
