(* ===== verification/Criteria.thy ===== *)
theory Criteria
  imports Run_Report
begin

text \<open>
  Pass/fail criteria: the evaluator of \<open>internal/domain/report/criteria.go\<close>, the rewrite that
  the compiler applies (\<open>internal/domain/compile/criteria_rewrite.go\<close>) and the contract of a
  calibration's target-health criterion (\<open>internal/domain/calibration/criterion.go\<close>). The
  regular expressions are deterministic, so each is a function that consumes its input from
  the left and returns the captures. Text is ASCII.
\<close>

section \<open>Matching\<close>

text \<open>\<open>\s\<close> of the regular expressions.\<close>

definition re_space :: "char \<Rightarrow> bool" where
  "re_space c \<longleftrightarrow> (let n = of_char c :: nat in n = 32 \<or> n = 9 \<or> n = 10 \<or> n = 12 \<or> n = 13)"

definition is_letter :: "char \<Rightarrow> bool" where
  "is_letter c \<longleftrightarrow> (let n = of_char c :: nat in (65 \<le> n \<and> n \<le> 90) \<or> (97 \<le> n \<and> n \<le> 122))"

definition subject_char :: "char \<Rightarrow> bool" where
  "subject_char c \<longleftrightarrow> is_letter c \<or> is_digit c \<or> c = CHR ''_'' \<or> c = CHR ''-''"

text \<open>The first alternative that is a prefix, and what follows it.\<close>

fun alternative :: "string list \<Rightarrow> string \<Rightarrow> (string \<times> string) option" where
  "alternative [] s = None"
| "alternative (a # as) s = (if has_prefix s a then Some (a, drop (length a) s) else alternative as s)"

text \<open>\<open>[0-9]+(?:\.[0-9]+)?\<close>\<close>

definition match_number :: "string \<Rightarrow> (string \<times> string) option" where
  "match_number s =
     (let ds = takeWhile is_digit s; rest = dropWhile is_digit s in
      if ds = [] then None
      else case rest of
        c # rest' \<Rightarrow>
          (let fs = takeWhile is_digit rest' in
           if c = CHR ''.'' \<and> fs \<noteq> [] then Some (ds @ c # fs, dropWhile is_digit rest') else Some (ds, rest))
      | [] \<Rightarrow> Some (ds, rest))"

definition match_unit :: "string \<Rightarrow> string \<times> string" where
  "match_unit s = (case alternative [''%'', ''ms'', ''s''] s of None \<Rightarrow> ('''', s) | Some (u, rest) \<Rightarrow> (u, rest))"

text \<open>\<open>^\s*(subject)\s*(op)\s*(threshold)\s*(unit)?\s*$\<close> for a list of operators.\<close>

definition match_criterion :: "string list \<Rightarrow> string \<Rightarrow> (string \<times> string \<times> string \<times> string) option" where
  "match_criterion ops c =
     (let s = dropWhile re_space c;
          subject = takeWhile subject_char s;
          s = dropWhile re_space (dropWhile subject_char s)
      in if subject = [] then None
         else case alternative ops s of
           None \<Rightarrow> None
         | Some (op, s) \<Rightarrow>
             (case match_number (dropWhile re_space s) of
                None \<Rightarrow> None
              | Some (threshold, s) \<Rightarrow>
                  (case match_unit (dropWhile re_space s) of (unit, s) \<Rightarrow>
                     if dropWhile re_space s = [] then Some (subject, op, threshold, unit) else None)))"

definition criterionPattern :: "string \<Rightarrow> (string \<times> string \<times> string \<times> string) option" where
  "criterionPattern = match_criterion [''>='', ''<='', ''=='', ''>'', ''<'', ''='']"

definition floorCriterion :: "string \<Rightarrow> (string \<times> string \<times> string \<times> string) option" where
  "floorCriterion = match_criterion [''<='', ''<'']"

section \<open>Numbers\<close>

text \<open>
  \<open>strconv.ParseFloat\<close> on the text these patterns let through: a decimal or hexadecimal
  literal with an optional exponent, underscores between digits. A value that rounds beyond
  the largest float64 is a range error; the words for infinity and NaN, which are no key of a
  percentile map, are errors here as well.
\<close>

definition hex_val :: "char \<Rightarrow> int option" where
  "hex_val c = (let n = of_char c :: nat in
     if is_digit c then Some (digit_val c) else if 97 \<le> n \<and> n \<le> 102 then Some (int n - 87) else None)"

fun underscore_ok :: "bool \<Rightarrow> char \<Rightarrow> string \<Rightarrow> bool" where
  "underscore_ok hex prev [] = (prev \<noteq> CHR ''_'')"
| "underscore_ok hex prev (c # cs) =
     (if is_digit c \<or> (hex \<and> hex_val c \<noteq> None) then underscore_ok hex CHR ''0'' cs
      else if c = CHR ''_'' then prev = CHR ''0'' \<and> underscore_ok hex CHR ''_'' cs
      else prev \<noteq> CHR ''_'' \<and> underscore_ok hex CHR ''!'' cs)"

definition number_value :: "int \<Rightarrow> string \<Rightarrow> int" where
  "number_value base s = foldl (\<lambda>n c. n * base + (case hex_val c of Some v \<Rightarrow> v | None \<Rightarrow> 0)) 0 s"

text \<open>An exponent: a sign and at least one digit.\<close>

definition exponent_value :: "string \<Rightarrow> int option" where
  "exponent_value s =
     (case s of
        c # cs \<Rightarrow> if c = CHR ''-'' then (if cs \<noteq> [] \<and> list_all is_digit cs then Some (- digits_val cs) else None)
                  else if list_all is_digit s then Some (digits_val s) else None
      | [] \<Rightarrow> None)"

definition is_mant :: "bool \<Rightarrow> char \<Rightarrow> bool" where
  "is_mant hex c \<longleftrightarrow> (if hex then hex_val c \<noteq> None else is_digit c)"

definition unsigned_value :: "string \<Rightarrow> rat option" where
  "unsigned_value s =
     (let hex = has_prefix s ''0x''; body = (if hex then drop 2 s else s) in
      if \<not> underscore_ok hex (if hex then CHR ''0'' else CHR ''!'') body then None
      else let t = filter (\<lambda>c. c \<noteq> CHR ''_'') body;
               base = (if hex then 16 else 10); b = (if hex then 2 else 10 :: rat);
               ints = takeWhile (is_mant hex) t; rest = dropWhile (is_mant hex) t;
               (fracs, rest) = (case rest of c # cs \<Rightarrow> if c = CHR ''.'' then (takeWhile (is_mant hex) cs, dropWhile (is_mant hex) cs) else ([], rest)
                                           | [] \<Rightarrow> ([], []));
               mant = of_int (number_value base (ints @ fracs)) / of_int (base ^ length fracs)
           in if ints @ fracs = [] then None
              else case rest of
                [] \<Rightarrow> if hex then None else Some mant
              | c # cs \<Rightarrow> if c = (if hex then CHR ''p'' else CHR ''e'')
                  then map_option (\<lambda>e. mant * b powi e) (exponent_value cs) else None)"

definition parse_float :: "string \<Rightarrow> rat option" where
  "parse_float s =
     (let (neg, body) = (case s of c # cs \<Rightarrow> if c = CHR ''-'' then (True, cs) else (False, s) | [] \<Rightarrow> (False, s))
      in case unsigned_value body of
           None \<Rightarrow> None
         | Some x \<Rightarrow> let y = rnd64 x in if 2 powi 1024 \<le> y then None else Some (if neg then - y else y))"

section \<open>Evaluation\<close>

record failed_criterion =
  fc_criterion :: string
  fc_unparsed :: bool

definition criterion_triggered :: "rat \<Rightarrow> string \<Rightarrow> rat \<Rightarrow> bool" where
  "criterion_triggered measured op threshold =
     (if op = ''>'' then threshold < measured
      else if op = ''>='' then threshold \<le> measured
      else if op = ''<'' then measured < threshold
      else if op = ''<='' then measured \<le> threshold
      else if op = ''='' \<or> op = ''=='' then measured = threshold
      else False)"

definition unparsed :: "string \<Rightarrow> failed_criterion option" where
  "unparsed c = Some \<lparr>fc_criterion = c, fc_unparsed = True\<rparr>"

definition judge :: "string \<Rightarrow> rat \<Rightarrow> string \<Rightarrow> rat \<Rightarrow> failed_criterion option" where
  "judge c measured op threshold =
     (if criterion_triggered measured op threshold then Some \<lparr>fc_criterion = c, fc_unparsed = False\<rparr> else None)"

definition evaluate_one :: "report \<Rightarrow> string \<Rightarrow> failed_criterion option" where
  "evaluate_one r c =
     (case criterionPattern c of
        None \<Rightarrow> unparsed c
      | Some (subject, op, threshold, unit) \<Rightarrow>
          (let subject = to_lower subject in
           case parse_float threshold of
             None \<Rightarrow> unparsed c
           | Some rawThreshold \<Rightarrow>
               if subject = ''failures'' \<or> subject = ''fail''
               then if unit \<noteq> ''%'' then unparsed c else judge c (fmul (rp_error_rate r) 100) op rawThreshold
               else if has_prefix subject ''p''
               then (case parse_float (drop 1 subject) of
                       None \<Rightarrow> unparsed c
                     | Some pct \<Rightarrow>
                         (case mget (rp_latency r) pct of
                            None \<Rightarrow> unparsed c
                          | Some latency \<Rightarrow>
                              if unit = ''ms'' \<or> unit = '''' then judge c latency op (fdiv rawThreshold 1000)
                              else if unit = ''s'' then judge c latency op rawThreshold
                              else unparsed c))
               else unparsed c))"

definition floors_to_violations :: "string list \<Rightarrow> string list" where
  "floors_to_violations criteria = map (\<lambda>c. case floorCriterion c of
     None \<Rightarrow> c
   | Some (subject, op, threshold, unit) \<Rightarrow>
       subject @ (if op = ''<'' then ''>='' else ''>'') @ threshold @ unit) criteria"

definition evaluate_criteria :: "report \<Rightarrow> string list \<Rightarrow> failed_criterion list" where
  "evaluate_criteria r criteria = List.map_filter (evaluate_one r) (floors_to_violations criteria)"

section \<open>The compiler's copy of the rewrite\<close>

definition floor_to_violation :: "string \<Rightarrow> string" where
  "floor_to_violation c =
     (case floorCriterion c of
        None \<Rightarrow> c
      | Some (subject, op, threshold, unit) \<Rightarrow>
          if op = ''<'' then subject @ ''>='' @ threshold @ unit
          else if op = ''<='' then subject @ ''>'' @ threshold @ unit
          else c)"

definition floor_criteria_to_violation :: "string list \<Rightarrow> string list" where
  "floor_criteria_to_violation criteria = map floor_to_violation criteria"

section \<open>Target-health criteria of a calibration\<close>

text \<open>\<open>strings.FieldsFunc\<close> on commas and newlines.\<close>

definition criterion_sep :: "char \<Rightarrow> bool" where
  "criterion_sep c \<longleftrightarrow> c = CHR '','' \<or> c = CHR 0x0A"

function fields_func :: "(char \<Rightarrow> bool) \<Rightarrow> string \<Rightarrow> string list" where
  "fields_func f s =
     (case dropWhile f s of [] \<Rightarrow> []
      | c # cs \<Rightarrow> takeWhile (\<lambda>x. \<not> f x) (c # cs) # fields_func f (dropWhile (\<lambda>x. \<not> f x) (c # cs)))"
  by pat_completeness auto
termination
proof (relation "measure (length \<circ> snd)")
  fix f :: "char \<Rightarrow> bool" and s c cs
  assume d: "dropWhile f s = c # cs"
  then have "\<not> f c" by (metis dropWhile_eq_Cons_conv)
  then have "length (dropWhile (\<lambda>x. \<not> f x) (c # cs)) \<le> length cs" by (simp add: length_dropWhile_le)
  moreover have "length (c # cs) \<le> length s" using d by (metis length_dropWhile_le)
  ultimately show "((f, dropWhile (\<lambda>x. \<not> f x) (c # cs)), f, s) \<in> measure (length \<circ> snd)" by simp
qed simp

declare fields_func.simps [simp del]

definition split_criterion :: "string \<Rightarrow> string list" where
  "split_criterion raw = filter (\<lambda>e. e \<noteq> '''') (map trim_space (fields_func criterion_sep raw))"

text \<open>\<open>^(failures|p95|p50|avg-rt|concurrency)\s*(>|<|>=|<=)\s*[0-9.]+(ms|s|%|)?$\<close>\<close>

definition criterionExpression :: "string \<Rightarrow> bool" where
  "criterionExpression e =
     (case alternative [''failures'', ''p95'', ''p50'', ''avg-rt'', ''concurrency''] e of
        None \<Rightarrow> False
      | Some (_, s) \<Rightarrow>
          (case alternative [''>='', ''<='', ''>'', ''<''] (dropWhile re_space s) of
             None \<Rightarrow> False
           | Some (_, s) \<Rightarrow>
               let s = dropWhile re_space s; num = (\<lambda>c. is_digit c \<or> c = CHR ''.'')
               in takeWhile num s \<noteq> [] \<and> dropWhile num s \<in> {'''', ''ms'', ''s'', ''%''}))"

datatype criterion_err = CritErrInvalid

definition validate_criterion :: "string \<Rightarrow> criterion_err option" where
  "validate_criterion raw =
     (let exprs = split_criterion raw in
      if exprs = [] then Some CritErrInvalid
      else if list_all criterionExpression exprs then None else Some CritErrInvalid)"

section \<open>What a match captures\<close>

definition number_form :: "string \<Rightarrow> bool" where
  "number_form t \<longleftrightarrow> (\<exists>ds fs. ds \<noteq> [] \<and> list_all is_digit ds \<and> list_all is_digit fs
      \<and> (t = ds \<or> fs \<noteq> [] \<and> t = ds @ CHR ''.'' # fs))"

lemma char_classes:
  "subject_char c \<Longrightarrow> \<not> re_space c" "is_digit c \<Longrightarrow> \<not> re_space c" "is_digit c \<Longrightarrow> c \<noteq> CHR ''=''"
  "\<not> is_digit CHR ''%''" "\<not> is_digit CHR ''m''" "\<not> is_digit CHR ''s''" "\<not> is_digit CHR ''.''"
  "\<not> subject_char CHR ''>''" "\<not> subject_char CHR ''<''" "\<not> re_space CHR ''>''"
  "\<not> re_space CHR ''%''" "\<not> re_space CHR ''m''" "\<not> re_space CHR ''s''"
  by (auto simp: subject_char_def re_space_def is_letter_def is_digit_def Let_def)

lemma takeWhile_all: "list_all P xs \<Longrightarrow> (ys = [] \<or> \<not> P (hd ys)) \<Longrightarrow> takeWhile P (xs @ ys) = xs"
  by (cases ys) (auto simp: list_all_iff takeWhile_tail)

lemma dropWhile_all: "list_all P xs \<Longrightarrow> (ys = [] \<or> \<not> P (hd ys)) \<Longrightarrow> dropWhile P (xs @ ys) = ys"
  by (cases ys) (auto simp: list_all_iff dropWhile_append3)

lemma dropWhile_hd: "xs \<noteq> [] \<Longrightarrow> \<not> P (hd xs) \<Longrightarrow> dropWhile P xs = xs"
  by (cases xs) auto

lemma list_all_takeWhile: "list_all P (takeWhile P xs)"
  by (auto simp: list_all_iff dest: set_takeWhileD)

lemma alternative_mem: "alternative as s = Some (a, rest) \<Longrightarrow> a \<in> set as \<and> s = a @ rest"
proof (induction as)
  case (Cons b bs)
  have p: "has_prefix s b \<Longrightarrow> s = b @ drop (length b) s" for s b
    by (induction s b rule: has_prefix.induct) auto
  show ?case using Cons p by (auto split: if_splits)
qed simp

lemma match_number_form: "match_number s = Some (t, rest) \<Longrightarrow> number_form t"
  unfolding match_number_def Let_def number_form_def
  by (auto split: if_splits list.splits intro: list_all_takeWhile)

lemma match_criterion_Some:
  "match_criterion ops c = Some (subject, op, threshold, unit) \<longleftrightarrow>
     (let s = dropWhile re_space c in
      subject = takeWhile subject_char s \<and> subject \<noteq> [] \<and>
      (\<exists>s1 s2 s3. alternative ops (dropWhile re_space (dropWhile subject_char s)) = Some (op, s1) \<and>
         match_number (dropWhile re_space s1) = Some (threshold, s2) \<and>
         match_unit (dropWhile re_space s2) = (unit, s3) \<and> dropWhile re_space s3 = []))"
  unfolding match_criterion_def Let_def
  by (simp split: option.split prod.split) blast

lemma match_criterion_captures:
  assumes "match_criterion ops c = Some (subject, op, threshold, unit)"
  shows "subject \<noteq> []" "list_all subject_char subject" "op \<in> set ops" "number_form threshold"
    "unit \<in> {'''', ''%'', ''ms'', ''s''}"
proof -
  obtain s1 s2 s3 where m: "subject = takeWhile subject_char (dropWhile re_space c)" "subject \<noteq> []"
      "alternative ops (dropWhile re_space (dropWhile subject_char (dropWhile re_space c))) = Some (op, s1)"
      "match_number (dropWhile re_space s1) = Some (threshold, s2)" "match_unit (dropWhile re_space s2) = (unit, s3)"
    using assms unfolding match_criterion_Some Let_def by blast
  from m(1,2) show "subject \<noteq> []" "list_all subject_char subject" by (simp_all add: list_all_takeWhile)
  from m(3) show "op \<in> set ops" by (blast dest: alternative_mem)
  from m(4) show "number_form threshold" by (rule match_number_form)
  from m(5) show "unit \<in> {'''', ''%'', ''ms'', ''s''}"
    by (auto simp: match_unit_def split: if_splits)
qed

section \<open>Reading a text written without blanks\<close>

lemma match_number_append:
  assumes "number_form t" "unit \<in> {'''', ''%'', ''ms'', ''s''}"
  shows "match_number (t @ unit) = Some (t, unit)"
proof -
  obtain ds fs where ds: "ds \<noteq> []" "list_all is_digit ds" "list_all is_digit fs"
    and t: "t = ds \<or> fs \<noteq> [] \<and> t = ds @ CHR ''.'' # fs"
    using assms(1) by (auto simp: number_form_def)
  have u: "unit = [] \<or> \<not> is_digit (hd unit)" "unit = [] \<or> hd unit \<noteq> CHR ''.''"
    using assms(2) by (auto simp: char_classes)
  from t show ?thesis
  proof
    assume "t = ds"
    then show ?thesis using ds u takeWhile_all[OF ds(2) u(1)] dropWhile_all[OF ds(2) u(1)]
      by (auto simp: match_number_def Let_def split: list.split)
  next
    assume t: "fs \<noteq> [] \<and> t = ds @ CHR ''.'' # fs"
    have "takeWhile is_digit (t @ unit) = ds" "dropWhile is_digit (t @ unit) = CHR ''.'' # fs @ unit"
      using t ds takeWhile_all[OF ds(2), of "CHR ''.'' # fs @ unit"] dropWhile_all[OF ds(2), of "CHR ''.'' # fs @ unit"]
      by (auto simp: char_classes)
    then show ?thesis
      using ds t u by (simp add: match_number_def Let_def takeWhile_all[OF ds(3)] dropWhile_all[OF ds(3)])
  qed
qed

lemma match_unit_exact: "unit \<in> {'''', ''%'', ''ms'', ''s''} \<Longrightarrow> match_unit unit = (unit, [])"
  by (auto simp: match_unit_def)

lemma number_form_hd: "number_form t \<Longrightarrow> \<exists>d ds. t = d # ds \<and> is_digit d"
  by (auto simp: number_form_def neq_Nil_conv)

lemma unit_no_space: "unit \<in> {'''', ''%'', ''ms'', ''s''} \<Longrightarrow> dropWhile re_space unit = unit"
  by (auto simp: char_classes)

lemma criterionPattern_violation:
  assumes "subject \<noteq> []" "list_all subject_char subject" "number_form threshold"
    "unit \<in> {'''', ''%'', ''ms'', ''s''}" "op \<in> {''>='', ''>''}"
  shows "criterionPattern (subject @ op @ threshold @ unit) = Some (subject, op, threshold, unit)"
proof -
  obtain d ds where d: "threshold = d # ds" "is_digit d" using number_form_hd[OF assms(3)] by blast
  have s0: "dropWhile re_space (subject @ op @ threshold @ unit) = subject @ op @ threshold @ unit"
    using assms(1,2) by (cases subject) (auto simp: char_classes)
  have o: "op @ threshold @ unit \<noteq> []" "\<not> subject_char (hd (op @ threshold @ unit))" "\<not> re_space (hd (op @ threshold @ unit))"
    using assms(5) by (auto simp: char_classes)
  have s1: "takeWhile subject_char (subject @ op @ threshold @ unit) = subject"
    "dropWhile subject_char (subject @ op @ threshold @ unit) = op @ threshold @ unit"
    using takeWhile_all[OF assms(2)] dropWhile_all[OF assms(2)] o by blast+
  have s2: "alternative [''>='', ''<='', ''=='', ''>'', ''<'', ''=''] (op @ threshold @ unit) = Some (op, threshold @ unit)"
    using assms(5) d char_classes(3)[OF d(2)] by auto
  have s3: "dropWhile re_space (threshold @ unit) = threshold @ unit" using d by (simp add: char_classes)
  have s4: "dropWhile re_space (op @ threshold @ unit) = op @ threshold @ unit"
    using o(1,3) by (rule dropWhile_hd)
  show ?thesis
    unfolding criterionPattern_def match_criterion_Some Let_def s0 s1 s4 s2
    using assms(1) s3 match_number_append[OF assms(3,4)] unit_no_space[OF assms(4)] match_unit_exact[OF assms(4)]
    by simp
qed

section \<open>Floors and violations\<close>

definition is_floor :: "string \<Rightarrow> bool" where
  "is_floor op \<longleftrightarrow> op = ''<'' \<or> op = ''<=''"

lemma floorCriterion_iff:
  "floorCriterion c = Some (subject, op, threshold, unit) \<longleftrightarrow>
   criterionPattern c = Some (subject, op, threshold, unit) \<and> is_floor op"
proof -
  have "alternative [''<='', ''<''] s = Some (op, rest) \<longleftrightarrow>
      alternative [''>='', ''<='', ''=='', ''>'', ''<'', ''=''] s = Some (op, rest) \<and> is_floor op" for s rest
    by (cases s; cases "tl s") (auto simp: is_floor_def)
  then show ?thesis
    unfolding floorCriterion_def criterionPattern_def match_criterion_Some Let_def by blast
qed

definition violation_form :: "string \<Rightarrow> string" where
  "violation_form c = hd (floors_to_violations [c])"

lemma floors_map: "floors_to_violations cs = map violation_form cs"
  by (simp add: floors_to_violations_def violation_form_def)

definition inverted :: "string \<Rightarrow> string" where
  "inverted op = (if op = ''<'' then ''>='' else if op = ''<='' then ''>'' else op)"

lemma violation_form_cases:
  assumes "criterionPattern c = Some (subject, op, threshold, unit)"
  shows "criterionPattern (violation_form c) = Some (subject, inverted op, threshold, unit)"
    "violation_form c = (if is_floor op then subject @ inverted op @ threshold @ unit else c)"
proof -
  note cap = match_criterion_captures[OF assms[unfolded criterionPattern_def]]
  have fl: "is_floor op \<Longrightarrow> floorCriterion c = Some (subject, op, threshold, unit)"
    using assms floorCriterion_iff[of c] by blast
  have nf: "floorCriterion c = None" if "\<not> is_floor op"
  proof (cases "floorCriterion c")
    case (Some m)
    obtain a b d e where "m = (a, b, d, e)" by (cases m)
    then have "criterionPattern c = Some (a, b, d, e)" "is_floor b" using Some floorCriterion_iff by blast+
    then show ?thesis using assms that by simp
  qed simp
  show v: "violation_form c = (if is_floor op then subject @ inverted op @ threshold @ unit else c)"
    using fl nf by (auto simp: violation_form_def floors_to_violations_def inverted_def is_floor_def)
  show "criterionPattern (violation_form c) = Some (subject, inverted op, threshold, unit)"
    using assms criterionPattern_violation[OF cap(1,2,4,5), of "''>=''"] criterionPattern_violation[OF cap(1,2,4,5), of "''>''"]
    unfolding v by (auto simp: inverted_def is_floor_def)
qed

lemma violation_form_unmatched: "criterionPattern c = None \<Longrightarrow> violation_form c = c"
proof -
  assume "criterionPattern c = None"
  then have "floorCriterion c = None"
    using floorCriterion_iff[of c] by (cases "floorCriterion c") auto
  then show ?thesis by (simp add: violation_form_def floors_to_violations_def)
qed

lemma violation_form_idem: "violation_form (violation_form c) = violation_form c"
proof (cases "criterionPattern c")
  case (Some m)
  obtain subject op threshold unit where "m = (subject, op, threshold, unit)" by (cases m)
  then have "criterionPattern (violation_form c) = Some (subject, inverted op, threshold, unit)"
    using violation_form_cases(1) Some by blast
  moreover have "\<not> is_floor (inverted op)" by (simp add: inverted_def is_floor_def)
  ultimately show ?thesis using violation_form_cases(2) by presburger
qed (simp add: violation_form_unmatched)

text \<open>What a criterion compares: the measured value and its threshold in the same unit.\<close>

definition criterion_values :: "report \<Rightarrow> string \<Rightarrow> string \<Rightarrow> string \<Rightarrow> (rat \<times> rat) option" where
  "criterion_values r subject threshold unit =
     (case parse_float threshold of
        None \<Rightarrow> None
      | Some t \<Rightarrow>
          if to_lower subject \<in> {''failures'', ''fail''}
          then if unit = ''%'' then Some (fmul (rp_error_rate r) 100, t) else None
          else if has_prefix (to_lower subject) ''p''
          then case Option.bind (parse_float (tl (to_lower subject))) (mget (rp_latency r)) of
                 None \<Rightarrow> None
               | Some l \<Rightarrow> if unit \<in> {''ms'', ''''} then Some (l, fdiv t 1000)
                            else if unit = ''s'' then Some (l, t) else None
          else None)"

lemma evaluate_one_values:
  assumes "criterionPattern c = Some (subject, op, threshold, unit)"
  shows "evaluate_one r c = (case criterion_values r subject threshold unit of
     None \<Rightarrow> unparsed c | Some (x, t) \<Rightarrow> judge c x op t)"
  using assms
  by (cases "parse_float threshold"; cases "parse_float (tl (to_lower subject))")
    (simp_all add: evaluate_one_def criterion_values_def Let_def drop_Suc split: option.split)

lemma inverted_triggered:
  "criterion_triggered x (inverted op) t \<longleftrightarrow> (if is_floor op then \<not> criterion_triggered x op t else criterion_triggered x op t)"
  by (auto simp: inverted_def is_floor_def criterion_triggered_def)

text \<open>
  C28. What a criterion says is what it decides. Evaluating a criterion of the supported
  grammar against a report lists it as failed exactly when the report breaks it: a floor
  (\<open>p95<800ms\<close>) when the measured value does not satisfy the comparison, any other form
  (\<open>failures>10%\<close>) when the comparison holds. A criterion that does not parse, or whose
  subject or unit the report has no value for, is listed as unparsed and never as failed;
  nothing else is listed.
\<close>

theorem criterion_verdict:
  "evaluate_criteria r [c] =
     (case criterionPattern c of
        None \<Rightarrow> [\<lparr>fc_criterion = c, fc_unparsed = True\<rparr>]
      | Some (subject, op, threshold, unit) \<Rightarrow>
          (case criterion_values r subject threshold unit of
             None \<Rightarrow> [\<lparr>fc_criterion = violation_form c, fc_unparsed = True\<rparr>]
           | Some (measured, bound) \<Rightarrow>
               if criterion_triggered measured op bound \<noteq> is_floor op
               then [\<lparr>fc_criterion = violation_form c, fc_unparsed = False\<rparr>] else []))"
proof (cases "criterionPattern c")
  case None
  then show ?thesis
    by (simp add: evaluate_criteria_def floors_map violation_form_unmatched evaluate_one_def unparsed_def List.map_filter_def)
next
  case (Some m)
  obtain subject op threshold unit where m: "m = (subject, op, threshold, unit)" by (cases m)
  have "criterionPattern (violation_form c) = Some (subject, inverted op, threshold, unit)"
    using violation_form_cases(1) Some m by blast
  from evaluate_one_values[OF this] show ?thesis
    using Some m
    by (auto simp: evaluate_criteria_def floors_map unparsed_def judge_def inverted_triggered List.map_filter_def
        split: option.split)
qed

text \<open>
  The engine and the report judge one grammar: the rewrite that the compiler applies to a
  run's configuration and the evaluator's own copy agree on every list of criteria, rewriting
  twice is rewriting once, and judging the compiled text gives the same list of failed
  criteria as judging the text the user wrote.
\<close>

theorem compiler_and_report_agree:
  "floor_criteria_to_violation cs = floors_to_violations cs
   \<and> floors_to_violations (floors_to_violations cs) = floors_to_violations cs
   \<and> evaluate_criteria r (floor_criteria_to_violation cs) = evaluate_criteria r cs"
proof -
  have "floor_to_violation c = violation_form c" for c
  proof (cases "floorCriterion c")
    case (Some m)
    obtain subject op threshold unit where m: "m = (subject, op, threshold, unit)" by (cases m)
    then have "op \<in> {''<'', ''<=''}"
      using Some match_criterion_captures(3)[of "[''<='', ''<'']" c] by (auto simp: floorCriterion_def)
    then show ?thesis using Some m by (auto simp: floor_to_violation_def violation_form_def floors_to_violations_def)
  qed (simp add: floor_to_violation_def violation_form_def floors_to_violations_def)
  then have 1: "floor_criteria_to_violation cs = floors_to_violations cs"
    by (simp add: floor_criteria_to_violation_def floors_map)
  have 2: "floors_to_violations (floors_to_violations cs) = floors_to_violations cs"
    by (simp add: floors_map violation_form_idem)
  then show ?thesis using 1 by (simp add: evaluate_criteria_def)
qed

section \<open>Target-health criteria\<close>

lemma fields_func_sep: "f c \<Longrightarrow> fields_func f (c # s) = fields_func f s"
  by (subst (1 2) fields_func.simps) simp

lemma fields_func_field:
  assumes "x \<noteq> []" "list_all (\<lambda>c. \<not> f c) x" "s = [] \<or> f (hd s)"
  shows "fields_func f (x @ s) = x # fields_func f s"
proof -
  have "dropWhile f (x @ s) = x @ s" using assms by (cases x) auto
  moreover have "takeWhile (\<lambda>c. \<not> f c) (x @ s) = x" "dropWhile (\<lambda>c. \<not> f c) (x @ s) = s"
    using assms takeWhile_all[OF assms(2)] dropWhile_all[OF assms(2)] by auto
  ultimately show ?thesis using assms(1)
    by (subst fields_func.simps) (auto split: list.split)
qed

definition expression_ok :: "string \<Rightarrow> bool" where
  "expression_ok e \<longleftrightarrow> e \<noteq> [] \<and> trim_space e = e \<and> list_all (\<lambda>c. \<not> criterion_sep c) e"

lemma trim_space_cons: "ascii_space c \<Longrightarrow> trim_space (c # s) = trim_space s"
  by (simp add: trim_space_def)

lemma space_fields: "\<not> criterion_sep CHR '' ''" "ascii_space CHR '' ''" "criterion_sep CHR '',''"
  by (auto simp: criterion_sep_def ascii_space_def Let_def)

text \<open>The expressions of a criterion field, written one after the other.\<close>

fun join_rest :: "string list \<Rightarrow> string" where
  "join_rest [] = ''''"
| "join_rest (e # es) = '', '' @ e @ join_rest es"

definition join_criterion :: "string list \<Rightarrow> string" where
  "join_criterion es = (case es of [] \<Rightarrow> '''' | e # es \<Rightarrow> e @ join_rest es)"

lemma join_rest_hd: "join_rest es = [] \<or> criterion_sep (hd (join_rest es))"
  by (cases es) (auto simp: space_fields)

lemma split_join_rest:
  "list_all expression_ok es \<Longrightarrow> map trim_space (fields_func criterion_sep (join_rest es)) = es"
proof (induction es)
  case (Cons e es)
  have e: "e \<noteq> []" "trim_space e = e" "list_all (\<lambda>c. \<not> criterion_sep c) (CHR '' '' # e)"
    using Cons.prems by (auto simp: expression_ok_def space_fields)
  have "fields_func criterion_sep (join_rest (e # es)) = (CHR '' '' # e) # fields_func criterion_sep (join_rest es)"
    using fields_func_sep[of criterion_sep "CHR '',''"] fields_func_field[OF _ e(3) join_rest_hd] by (simp add: space_fields)
  then show ?case using Cons e by (simp add: trim_space_cons space_fields)
qed (simp add: fields_func.simps)

text \<open>
  Splitting a criterion field undoes joining: expressions that are not blank, carry no
  comma or newline and no surrounding space come back as they were, in order, from the field
  that lists them separated by comma and space.
\<close>

theorem split_criterion_join:
  assumes "list_all expression_ok es"
  shows "split_criterion (join_criterion es) = es"
proof (cases es)
  case (Cons e es')
  have e: "e \<noteq> []" "trim_space e = e" "list_all (\<lambda>c. \<not> criterion_sep c) e" and es: "list_all expression_ok es'"
    using assms Cons by (auto simp: expression_ok_def)
  have "map trim_space (fields_func criterion_sep (e @ join_rest es')) = e # es'"
    using fields_func_field[OF e(1,3) join_rest_hd] split_join_rest[OF es] e(2) by simp
  moreover have "filter (\<lambda>e. e \<noteq> '''') (e # es') = e # es'"
    using assms Cons by (auto simp: filter_id_conv list_all_iff expression_ok_def)
  ultimately show ?thesis using Cons by (simp add: split_criterion_def join_criterion_def)
qed (simp add: split_criterion_def join_criterion_def fields_func.simps)

theorem split_criterion_join_witness:
  "split_criterion ''failures>10%, p95<500ms'' = [''failures>10%'', ''p95<500ms'']"
  using split_criterion_join[of "[''failures>10%'', ''p95<500ms'']"]
  by (simp add: join_criterion_def expression_ok_def trim_space_def ascii_space_def criterion_sep_def)

text \<open>
  A calibration accepts criteria its own evaluator cannot read: \<open>avg-rt>500ms\<close>,
  \<open>concurrency>10\<close>, \<open>failures>5\<close> and \<open>p95>1.2.3\<close> all validate, and against every report each
  is listed as unparsed.
\<close>

theorem accepted_but_unreadable:
  "list_all (\<lambda>c. validate_criterion c = None
       \<and> evaluate_criteria r (split_criterion c) = [\<lparr>fc_criterion = c, fc_unparsed = True\<rparr>])
     [''avg-rt>500ms'', ''concurrency>10'', ''failures>5'', ''p95>1.2.3'']"
proof -
  have v: "validate_criterion ''avg-rt>500ms'' = None" "validate_criterion ''concurrency>10'' = None"
    "validate_criterion ''failures>5'' = None" "validate_criterion ''p95>1.2.3'' = None" by code_simp+
  have s: "split_criterion ''avg-rt>500ms'' = [''avg-rt>500ms'']" "split_criterion ''concurrency>10'' = [''concurrency>10'']"
    "split_criterion ''failures>5'' = [''failures>5'']" "split_criterion ''p95>1.2.3'' = [''p95>1.2.3'']" by code_simp+
  have p: "criterionPattern ''avg-rt>500ms'' = Some (''avg-rt'', ''>'', ''500'', ''ms'')"
    "criterionPattern ''concurrency>10'' = Some (''concurrency'', ''>'', ''10'', '''')"
    "criterionPattern ''failures>5'' = Some (''failures'', ''>'', ''5'', '''')"
    "criterionPattern ''p95>1.2.3'' = None" by code_simp+
  have w: "violation_form ''avg-rt>500ms'' = ''avg-rt>500ms''" "violation_form ''concurrency>10'' = ''concurrency>10''"
    "violation_form ''failures>5'' = ''failures>5''" "violation_form ''p95>1.2.3'' = ''p95>1.2.3''" by code_simp+
  have t: "to_lower ''avg-rt'' = ''avg-rt''" "to_lower ''concurrency'' = ''concurrency''" "to_lower ''failures'' = ''failures''"
    by code_simp+
  show ?thesis unfolding list.pred_inject v s
    by (auto simp: evaluate_criteria_def floors_map w evaluate_one_values[OF p(1)] evaluate_one_values[OF p(2)]
        evaluate_one_values[OF p(3)] criterion_values_def t evaluate_one_def[of _ "''p95>1.2.3''"] p(4) unparsed_def
        List.map_filter_def split: option.split)
qed

lemma parse_float_int:
  assumes "unsigned_value (c # s) = Some (of_int n)" "c \<noteq> CHR ''-''" "\<bar>n\<bar> \<le> 2 ^ 53"
  shows "parse_float (c # s) = Some (of_int n)"
proof -
  have "of_int n \<le> (2 ^ 53 :: rat)" using assms(3) by (metis abs_le_D1 of_int_le_iff of_int_numeral of_int_power)
  also have "\<dots> < 2 powi 1024" by (simp add: power_int_def power_strict_increasing del: power_numeral)
  finally show ?thesis using assms by (simp add: parse_float_def rnd64_of_int Let_def)
qed

text \<open>
  The text of a failed floor is not the configured one: the report of a breached
  \<open>p95<500ms\<close> names \<open>p95>=500ms\<close>, an expression the user never wrote.
\<close>

theorem failed_floor_renamed:
  assumes "mget (rp_latency r) 95 = Some l" "1 / 2 \<le> l"
  shows "evaluate_criteria r [''p95<500ms''] = [\<lparr>fc_criterion = ''p95>=500ms'', fc_unparsed = False\<rparr>]"
proof -
  have p: "criterionPattern ''p95>=500ms'' = Some (''p95'', ''>='', ''500'', ''ms'')" by code_simp
  have v: "violation_form ''p95<500ms'' = ''p95>=500ms''" "to_lower ''p95'' = ''p95''" by code_simp+
  have u: "unsigned_value ''500'' = Some (of_int 500)" "unsigned_value ''95'' = Some (of_int 95)" by code_simp+
  have f: "parse_float ''500'' = Some 500" "parse_float ''95'' = Some 95"
    using parse_float_int[OF u(1)] parse_float_int[OF u(2)] by simp_all
  have "is_f64 (1 / 2)" unfolding is_f64_def by (rule exI[of _ 1], rule exI[of _ "-1"]) (simp add: power_int_minus)
  then have f': "fdiv 500 1000 = 1 / 2" by (simp add: fdiv_def rnd64_exact)
  show ?thesis using assms
    by (simp add: evaluate_criteria_def floors_map v evaluate_one_values[OF p] criterion_values_def f f' judge_def
        criterion_triggered_def List.map_filter_def)
qed

theorem failed_floor_renamed_witness:
  "\<forall>m. evaluate_criteria ((build m [])\<lparr>rp_latency := [(95, 1)]\<rparr>) [''p95<500ms''] =
     [\<lparr>fc_criterion = ''p95>=500ms'', fc_unparsed = False\<rparr>]"
  using failed_floor_renamed[where l = 1] by (simp add: mget_Cons)

end
