(* ===== verification/Compile.thy ===== *)
theory Compile
  imports Criteria
begin

text \<open>
  From a load profile to the configuration an engine runs: the scenarios of
  \<open>internal/domain/scenario\<close>, the configuration model of \<open>internal/domain/taurus/taurus.go\<close>, the
  trace-context headers of \<open>internal/domain/telemetry\<close> and the compiler of
  \<open>internal/domain/compile\<close>. A nil map or slice is an empty one. Text is ASCII.
\<close>

section \<open>Decimal text\<close>

text \<open>\<open>strconv.FormatInt\<close> in base ten.\<close>

fun nat_digits :: "nat \<Rightarrow> string" where
  "nat_digits n = (if n < 10 then [char_of (48 + n)] else nat_digits (n div 10) @ [char_of (48 + n mod 10)])"

declare nat_digits.simps [simp del]

definition itoa :: "int \<Rightarrow> string" where
  "itoa i = (if i < 0 then CHR ''-'' # nat_digits (nat (- i)) else nat_digits (nat i))"

section \<open>Scenarios\<close>

definition MaxTemplateNameLen :: nat where "MaxTemplateNameLen = 128"

definition KindPortable :: string where "KindPortable = ''portable''"
definition KindNative :: string where "KindNative = ''native''"

record scenario =
  sc_id :: int
  sc_name :: string
  sc_project_id :: int
  sc_kind :: string
  sc_engine :: string
  sc_tenant_id :: "int option"
  sc_created_by :: string
  sc_updated_by :: string
  sc_created_time :: time
  sc_is_template :: bool
  sc_template_name :: string

datatype scenario_err = ScErrNameRequired | ScErrNameTooLong | ScErrProjectRequired | ScErrKindUnknown
  | ScErrEngineUnknown | ScErrPortableEnginePinned | ScErrNativeEngineRequired
  | ScErrTemplateNameRequired | ScErrTemplateNameTooLong | ScErrEngineNeedsScript | ScErrEnginePinned

definition scenario_validate :: "scenario \<Rightarrow> scenario_err option" where
  "scenario_validate s =
     (if sc_name s = '''' then Some ScErrNameRequired
      else if MaxNameLen < length (sc_name s) then Some ScErrNameTooLong
      else if sc_is_template s \<and> sc_template_name s = '''' then Some ScErrTemplateNameRequired
      else if sc_is_template s \<and> MaxTemplateNameLen < length (sc_template_name s) then Some ScErrTemplateNameTooLong
      else if \<not> sc_is_template s \<and> sc_template_name s \<noteq> '''' then Some ScErrTemplateNameRequired
      else if sc_project_id s \<le> 0 \<and> \<not> sc_is_template s then Some ScErrProjectRequired
      else if sc_kind s = KindPortable then (if sc_engine s \<noteq> '''' then Some ScErrPortableEnginePinned else None)
      else if sc_kind s = KindNative
      then (if sc_engine s = '''' then Some ScErrNativeEngineRequired
            else if \<not> executor_known (sc_engine s) then Some ScErrEngineUnknown else None)
      else Some ScErrKindUnknown)"

definition zero_scenario :: scenario where
  "zero_scenario = \<lparr>sc_id = 0, sc_name = '''', sc_project_id = 0, sc_kind = '''', sc_engine = '''',
     sc_tenant_id = None, sc_created_by = '''', sc_updated_by = '''', sc_created_time = 0,
     sc_is_template = False, sc_template_name = ''''\<rparr>"

definition validated :: "scenario \<Rightarrow> scenario_err + scenario" where
  "validated s = (case scenario_validate s of Some e \<Rightarrow> Inl e | None \<Rightarrow> Inr s)"

definition scenario_new :: "string \<Rightarrow> int \<Rightarrow> scenario_err + scenario" where
  "scenario_new name projectID =
     validated (zero_scenario\<lparr>sc_name := trim_space name, sc_project_id := projectID, sc_kind := KindPortable\<rparr>)"

definition scenario_new_native :: "string \<Rightarrow> int \<Rightarrow> string \<Rightarrow> scenario_err + scenario" where
  "scenario_new_native name projectID engine =
     validated (zero_scenario\<lparr>sc_name := trim_space name, sc_project_id := projectID, sc_kind := KindNative, sc_engine := engine\<rparr>)"

definition scenario_new_template :: "string \<Rightarrow> string \<Rightarrow> scenario_err + scenario" where
  "scenario_new_template name templateName =
     validated (zero_scenario\<lparr>sc_name := trim_space name, sc_template_name := trim_space templateName,
       sc_is_template := True, sc_kind := KindPortable\<rparr>)"

definition supported_engines :: "scenario \<Rightarrow> string list" where
  "supported_engines s =
     (if sc_kind s = KindNative then [sc_engine s]
      else if sc_kind s = KindPortable then declarative_executors else [])"

definition can_run_on :: "scenario \<Rightarrow> string \<Rightarrow> scenario_err option" where
  "can_run_on s engine =
     (if \<not> executor_known engine then Some ScErrEngineUnknown
      else if sc_kind s = KindNative then (if engine \<noteq> sc_engine s then Some ScErrEnginePinned else None)
      else if sc_kind s = KindPortable
      then (if \<not> accepts_declarative_requests engine then Some ScErrEngineNeedsScript else None)
      else Some ScErrKindUnknown)"

section \<open>Configurations\<close>

text \<open>A decoded YAML value: the body of a request.\<close>

datatype yaml_value = YNull | YBool bool | YNumber rat | YString string
  | YList "yaml_value list" | YMap "(string \<times> yaml_value) list"

record assertion =
  as_contains :: "string list"
  as_subject :: string
  as_regexp :: "bool option"
  as_not :: "bool option"

record request =
  rq_url :: string
  rq_label :: string
  rq_method :: string
  rq_headers :: "(string, string) gomap"
  rq_body :: yaml_value
  rq_assert :: "assertion list"

record data_source =
  ds_path :: string
  ds_delimiter :: string
  ds_loop :: "bool option"
  ds_quoted :: "bool option"

record taurus_scenario =
  ts_script :: string
  ts_default_address :: string
  ts_headers :: "(string, string) gomap"
  ts_requests :: "request list"
  ts_data_sources :: "data_source list"
  ts_timeout :: duration
  ts_keep_alive :: "bool option"

record taurus_execution =
  te_executor :: string
  te_concurrency :: int
  te_ramp_up :: duration
  te_hold_for :: duration
  te_iterations :: int
  te_throughput :: int
  te_scenario :: string

record reporter =
  rep_module :: string
  rep_criteria :: "string list"
  rep_filename :: string
  rep_dump_csv :: string

record bzt_module =
  mo_class :: string
  mo_path :: string
  mo_sequential :: "bool option"

record settings =
  st_artifacts_dir :: string
  st_check_updates :: "bool option"
  st_verbose :: "bool option"

record config =
  cfg_execution :: "taurus_execution list"
  cfg_scenarios :: "(string, taurus_scenario) gomap"
  cfg_reporting :: "reporter list"
  cfg_services :: "string list"
  cfg_settings :: "settings option"
  cfg_modules :: "(string, bzt_module) gomap"

datatype taurus_err = TaErrNoExecution | TaErrExecutorRequired | TaErrConcurrencyInvalid
  | TaErrScenarioRequired | TaErrScenarioUndefined | TaErrScenarioEmpty | TaErrDurationRequired

definition execution_check :: "(string, taurus_scenario) gomap \<Rightarrow> taurus_execution \<Rightarrow> taurus_err option" where
  "execution_check scenarios e =
     (if te_executor e = '''' then Some TaErrExecutorRequired
      else if te_concurrency e \<le> 0 then Some TaErrConcurrencyInvalid
      else if te_scenario e = '''' then Some TaErrScenarioRequired
      else if mget scenarios (te_scenario e) = None then Some TaErrScenarioUndefined
      else if te_hold_for e = 0 \<and> te_iterations e = 0 then Some TaErrDurationRequired
      else None)"

text \<open>The first error of a list of checks.\<close>

fun first_err :: "'e option list \<Rightarrow> 'e option" where
  "first_err [] = None"
| "first_err (None # cs) = first_err cs"
| "first_err (Some e # cs) = Some e"

definition config_validate :: "config \<Rightarrow> taurus_err option" where
  "config_validate c =
     (if cfg_execution c = [] then Some TaErrNoExecution
      else first_err (map (execution_check (cfg_scenarios c)) (cfg_execution c)
        @ map (\<lambda>(name, s). if ts_script s = '''' \<and> ts_requests s = [] then Some TaErrScenarioEmpty else None) (cfg_scenarios c)))"

section \<open>The compiler\<close>

record scenario_input =
  si_scenario :: scenario
  si_script_path :: string
  si_default_address :: string
  si_requests :: "request list"
  si_headers :: "(string, string) gomap"
  si_timeout :: duration
  si_keep_alive :: "bool option"
  si_data_paths :: "string list"

record compile_input =
  ci_execution :: execution
  ci_tests :: "entry list"
  ci_engine :: string
  ci_scenarios :: "(int, scenario_input) gomap"
  ci_headers :: "(string, string) gomap"
  ci_criteria :: "string list"
  ci_sequential :: bool

datatype compile_err = CoErrNoEntries | CoErrEngineRequired | CoErrScenarioMissing | CoErrScriptRequired
  | CoErrRequestsRequired | CoErrScenario scenario_err | CoErrTaurus taurus_err

text \<open>The loop of \<open>slug\<close>: what was written so far and whether the last character was a hyphen.\<close>

fun slug_loop :: "string \<Rightarrow> bool \<Rightarrow> string" where
  "slug_loop [] lastHyphen = []"
| "slug_loop (r # rs) lastHyphen =
     (if is_letter r \<or> is_digit r then r # slug_loop rs False
      else if \<not> lastHyphen then CHR ''-'' # slug_loop rs True
      else slug_loop rs lastHyphen)"

definition trim_hyphens :: "string \<Rightarrow> string" where
  "trim_hyphens s = rev (dropWhile (\<lambda>c. c = CHR ''-'') (rev (dropWhile (\<lambda>c. c = CHR ''-'') s)))"

definition slug :: "string \<Rightarrow> string" where
  "slug s = trim_hyphens (slug_loop (to_lower s) True)"

definition scenario_key :: "scenario \<Rightarrow> string" where
  "scenario_key s = slug (sc_name s) @ ''-'' @ itoa (sc_id s)"

definition request_label :: "scenario \<Rightarrow> request \<Rightarrow> int \<Rightarrow> string" where
  "request_label s r i =
     (let target = slug (rq_url r) in
      if target \<noteq> '''' then slug (sc_name s) @ ''-'' @ target else slug (sc_name s) @ ''-'' @ itoa i)"

definition data_sources :: "string list \<Rightarrow> data_source list" where
  "data_sources paths =
     map (\<lambda>p. \<lparr>ds_path = p, ds_delimiter = '''', ds_loop = None, ds_quoted = None\<rparr>) (sort paths)"

definition mput_all :: "('k \<times> 'v) list \<Rightarrow> ('k, 'v) gomap \<Rightarrow> ('k, 'v) gomap" where
  "mput_all kvs m = fold (\<lambda>(k, v). mput k v) kvs m"

definition compile_scenario :: "scenario_input \<Rightarrow> (string, string) gomap \<Rightarrow> compile_err + taurus_scenario" where
  "compile_scenario si headers =
     (if sc_kind (si_scenario si) = KindNative
      then if si_script_path si = '''' then Inl CoErrScriptRequired
           else Inr \<lparr>ts_script = si_script_path si, ts_default_address = '''', ts_headers = headers, ts_requests = [],
                     ts_data_sources = data_sources (si_data_paths si), ts_timeout = 0, ts_keep_alive = None\<rparr>
      else if si_requests si = [] then Inl CoErrRequestsRequired
      else let reqs = map (\<lambda>(i, r). if rq_label r = '''' then r\<lparr>rq_label := request_label (si_scenario si) r (int i)\<rparr> else r)
                        (enumerate 0 (si_requests si));
               merged = mput_all headers (mput_all (si_headers si) [])
           in Inr \<lparr>ts_script = '''', ts_default_address = si_default_address si, ts_headers = merged, ts_requests = reqs,
                   ts_data_sources = data_sources (si_data_paths si), ts_timeout = si_timeout si,
                   ts_keep_alive = si_keep_alive si\<rparr>)"

text \<open>The loop over the entries: the executions and scenarios compiled so far.\<close>

fun compile_entries :: "compile_input \<Rightarrow> entry list \<Rightarrow> taurus_execution list \<Rightarrow> (string, taurus_scenario) gomap
    \<Rightarrow> compile_err + taurus_execution list \<times> (string, taurus_scenario) gomap" where
  "compile_entries inp [] exs scs = Inr (exs, scs)"
| "compile_entries inp (en # ens) exs scs =
     (case mget (ci_scenarios inp) (en_scenario_id en) of
        None \<Rightarrow> Inl CoErrScenarioMissing
      | Some si \<Rightarrow>
          (case can_run_on (si_scenario si) (ci_engine inp) of
             Some e \<Rightarrow> Inl (CoErrScenario e)
           | None \<Rightarrow>
               let key = scenario_key (si_scenario si) in
               (case compile_scenario si (ci_headers inp) of
                  Inl e \<Rightarrow> Inl e
                | Inr ts \<Rightarrow>
                    compile_entries inp ens
                      (exs @ [\<lparr>te_executor = ci_engine inp, te_concurrency = en_concurrency en,
                               te_ramp_up = i64 (seconds (en_rampup en)), te_hold_for = i64 (seconds (en_duration en)),
                               te_iterations = 0, te_throughput = en_throughput en, te_scenario = key\<rparr>])
                      (mput key ts scs))))"

definition compile_taurus :: "compile_input \<Rightarrow> compile_err + config" where
  "compile_taurus inp =
     (if ci_engine inp = '''' then Inl CoErrEngineRequired
      else if ci_tests inp = [] then Inl CoErrNoEntries
      else case compile_entries inp (ci_tests inp) [] [] of
        Inl e \<Rightarrow> Inl e
      | Inr (exs, scs) \<Rightarrow>
          let cfg = \<lparr>cfg_execution = exs, cfg_scenarios = scs,
                cfg_reporting = (if ci_criteria inp \<noteq> []
                   then [\<lparr>rep_module = ''passfail'', rep_criteria = floor_criteria_to_violation (ci_criteria inp),
                          rep_filename = '''', rep_dump_csv = ''''\<rparr>] else []),
                cfg_services = [], cfg_settings = None,
                cfg_modules = (if ci_sequential inp \<and> 1 < length exs
                   then [(''local'', \<lparr>mo_class = '''', mo_path = '''', mo_sequential = Some True\<rparr>)] else [])\<rparr>
          in case config_validate cfg of Some e \<Rightarrow> Inl (CoErrTaurus e) | None \<Rightarrow> Inr cfg)"

section \<open>Trace context\<close>

record trace_context =
  tc_trace_id :: string
  tc_parent_id :: string

record identity =
  id_tenant_id :: "int option"
  id_project_id :: int
  id_execution_id :: int
  id_run_correlation_id :: string

fun join_with :: "string \<Rightarrow> string list \<Rightarrow> string" where
  "join_with sep [] = ''''"
| "join_with sep [x] = x"
| "join_with sep (x # xs) = x @ sep @ join_with sep xs"

definition baggage :: "identity \<Rightarrow> string" where
  "baggage ident = join_with '',''
     ((case id_tenant_id ident of None \<Rightarrow> [] | Some t \<Rightarrow> [''honryu.tenant='' @ itoa t])
      @ [''honryu.service='' @ itoa (id_project_id ident), ''honryu.execution='' @ itoa (id_execution_id ident),
         ''honryu.run='' @ id_run_correlation_id ident])"

definition telemetry_headers :: "trace_context \<Rightarrow> identity \<Rightarrow> (string, string) gomap" where
  "telemetry_headers tc ident =
     [(''traceparent'', ''00-'' @ tc_trace_id tc @ ''-'' @ tc_parent_id tc @ ''-00''), (''baggage'', baggage ident)]"

section \<open>Decimal text reads back\<close>

lemma digit_char: "d < 10 \<Longrightarrow> is_digit (char_of (48 + d)) \<and> digit_val (char_of (48 + d)) = int d"
  by (simp add: is_digit_def digit_val_def Let_def take_bit_nat_eq_self)

lemma nat_digits_spec:
  "nat_digits n \<noteq> [] \<and> list_all is_digit (nat_digits n) \<and> digits_val (nat_digits n) = int n"
proof (induction n rule: nat_digits.induct)
  case (1 n)
  show ?case
  proof (cases "n < 10")
    case True
    then show ?thesis using digit_char by (simp add: nat_digits.simps[of n] digits_val_def)
  next
    case False
    have "int (n div 10) * 10 + int (n mod 10) = int n" by presburger
    then show ?thesis using 1[OF False] False digit_char[of "n mod 10"]
      by (simp add: nat_digits.simps[of n] digits_val_def)
  qed
qed

lemma itoa_nonneg: "0 \<le> i \<Longrightarrow> itoa i = nat_digits (nat i)"
  by (simp add: itoa_def)

lemma digit_not_sign: "is_digit c \<Longrightarrow> c \<noteq> CHR ''-'' \<and> c \<noteq> CHR ''+''"
  by (auto simp: is_digit_def Let_def)

lemma atoi_itoa: "in_i64 i \<Longrightarrow> atoi (itoa i) = Some i"
proof (cases "i < 0")
  case True
  assume "in_i64 i"
  then show ?thesis using True nat_digits_spec[of "nat (- i)"] by (simp add: itoa_def atoi_def)
next
  case False
  assume r: "in_i64 i"
  obtain c cs where c: "nat_digits (nat i) = c # cs" using nat_digits_spec[of "nat i"] by (cases "nat_digits (nat i)") auto
  then have "c \<noteq> CHR ''-''" "c \<noteq> CHR ''+''" using nat_digits_spec[of "nat i"] digit_not_sign by auto
  then show ?thesis using False r c nat_digits_spec[of "nat i"] by (simp add: itoa_def atoi_def)
qed

lemma itoa_inj: "0 \<le> i \<Longrightarrow> 0 \<le> j \<Longrightarrow> itoa i = itoa j \<Longrightarrow> i = j"
  by (metis int_nat_eq itoa_nonneg nat_digits_spec)

section \<open>Scenario keys\<close>

lemma hyphen_not_digit: "\<not> is_digit CHR ''-''"
  by (simp add: is_digit_def Let_def)

text \<open>The digits after the last hyphen of a key are the scenario's id.\<close>

lemma key_suffix: "0 \<le> i \<Longrightarrow> takeWhile is_digit (rev (s @ ''-'' @ itoa i)) = rev (itoa i)"
proof -
  assume "0 \<le> i"
  then have "list_all is_digit (rev (itoa i))" using nat_digits_spec by (simp add: itoa_nonneg list_all_iff)
  from takeWhile_all[OF this, of "CHR ''-'' # rev s"] show ?thesis by (simp add: hyphen_not_digit)
qed

lemma scenario_key_inj:
  "0 \<le> sc_id s \<Longrightarrow> 0 \<le> sc_id s' \<Longrightarrow> scenario_key s = scenario_key s' \<Longrightarrow> sc_id s = sc_id s'"
  unfolding scenario_key_def by (metis itoa_inj key_suffix rev_rev_ident)

lemma mget_mput_all: "mget (mput_all kvs m) k = (case mget (rev kvs) k of Some v \<Rightarrow> Some v | None \<Rightarrow> mget m k)"
proof (induction kvs arbitrary: m)
  case (Cons kv kvs)
  obtain k' v where kv: "kv = (k', v)" by (cases kv)
  have "mget (xs @ [(k', v)]) k = (case mget xs k of Some y \<Rightarrow> Some y | None \<Rightarrow> if k = k' then Some v else None)" for xs
    by (auto simp: mget_def map_add_def split: option.split)
  then show ?case using Cons[of "mput k' v m"] by (simp add: mput_all_def kv split: option.split)
qed (simp add: mput_all_def)

lemma mget_rev: "wf_map m \<Longrightarrow> mget (rev m) k = mget m k"
proof -
  assume w: "wf_map m"
  then have "wf_map (rev m)" by (simp add: wf_map_def flip: rev_map)
  then have "mget (rev m) k = Some v \<longleftrightarrow> mget m k = Some v" for v using w by (simp add: mget_in_set)
  then show ?thesis by (metis not_Some_eq)
qed

section \<open>What the compiler produces\<close>

text \<open>The execution block of an entry.\<close>

definition exec_block :: "string \<Rightarrow> scenario_input \<Rightarrow> entry \<Rightarrow> taurus_execution" where
  "exec_block engine si en =
     \<lparr>te_executor = engine, te_concurrency = en_concurrency en, te_ramp_up = i64 (seconds (en_rampup en)),
      te_hold_for = i64 (seconds (en_duration en)), te_iterations = 0, te_throughput = en_throughput en,
      te_scenario = scenario_key (si_scenario si)\<rparr>"

text \<open>An entry the compiler accepts, with its scenario and the workload compiled from it.\<close>

definition compiles_to :: "compile_input \<Rightarrow> entry \<Rightarrow> scenario_input \<Rightarrow> taurus_scenario \<Rightarrow> bool" where
  "compiles_to inp en si ts \<longleftrightarrow>
     mget (ci_scenarios inp) (en_scenario_id en) = Some si \<and> can_run_on (si_scenario si) (ci_engine inp) = None
     \<and> compile_scenario si (ci_headers inp) = Inr ts"

definition si_of :: "compile_input \<Rightarrow> entry \<Rightarrow> scenario_input" where
  "si_of inp en = the (mget (ci_scenarios inp) (en_scenario_id en))"

definition ts_of :: "compile_input \<Rightarrow> entry \<Rightarrow> taurus_scenario" where
  "ts_of inp en = projr (compile_scenario (si_of inp en) (ci_headers inp))"

definition compilable :: "compile_input \<Rightarrow> entry \<Rightarrow> bool" where
  "compilable inp en \<longleftrightarrow> (\<exists>si ts. compiles_to inp en si ts)"

lemma compilable_iff: "compilable inp en \<longleftrightarrow> compiles_to inp en (si_of inp en) (ts_of inp en)"
  by (auto simp: compilable_def compiles_to_def si_of_def ts_of_def)

abbreviation key_of :: "compile_input \<Rightarrow> entry \<Rightarrow> string" where
  "key_of inp en \<equiv> scenario_key (si_scenario (si_of inp en))"

lemma compile_entries_ok:
  "list_all (compilable inp) ens \<Longrightarrow> compile_entries inp ens exs scs =
     Inr (exs @ map (\<lambda>en. exec_block (ci_engine inp) (si_of inp en) en) ens,
          fold (\<lambda>en. mput (key_of inp en) (ts_of inp en)) ens scs)"
proof (induction ens arbitrary: exs scs)
  case (Cons en ens)
  then have "compiles_to inp en (si_of inp en) (ts_of inp en)" by (simp add: compilable_iff)
  then show ?case using Cons by (simp add: compiles_to_def exec_block_def Let_def)
qed simp

lemma compile_entries_err: "\<not> list_all (compilable inp) ens \<Longrightarrow> \<exists>e. compile_entries inp ens exs scs = Inl e"
proof (induction ens arbitrary: exs scs)
  case (Cons en ens)
  then show ?case
    by (cases "compilable inp en")
      (auto simp: compilable_def compiles_to_def Let_def split: option.split sum.split)
qed simp

lemma first_err_None: "first_err cs = None \<longleftrightarrow> set cs \<subseteq> {None}"
  by (induction cs rule: first_err.induct) auto

lemma fold_mput_lookup:
  assumes "\<forall>x \<in> set xs. \<forall>y \<in> set xs. f x = f y \<longrightarrow> g x = g y" "x \<in> set xs"
  shows "mget (fold (\<lambda>x. mput (f x) (g x)) xs m) (f x) = Some (g x)"
  using assms
proof (induction xs arbitrary: m rule: rev_induct)
  case (snoc y ys)
  show ?case
  proof (cases "f x = f y")
    case True
    then have "g x = g y" using snoc.prems(1)[rule_format, of x y] snoc.prems(2) by simp
    then show ?thesis using True by simp
  next
    case False
    then have "x \<in> set ys" using snoc.prems(2) by auto
    moreover have "\<forall>x \<in> set ys. \<forall>y \<in> set ys. f x = f y \<longrightarrow> g x = g y"
      using snoc.prems(1) by (metis Un_iff set_append)
    ultimately have "mget (fold (\<lambda>x. mput (f x) (g x)) ys m) (f x) = Some (g x)" by (intro snoc.IH)
    then show ?thesis using False by simp
  qed
qed simp

lemma fold_mput_entries:
  "(k, v) \<in> set (fold (\<lambda>x. mput (f x) (g x)) xs []) \<Longrightarrow> \<exists>x \<in> set xs. k = f x \<and> v = g x"
proof (induction xs rule: rev_induct)
  case (snoc y ys)
  have "set (mput (f y) (g y) m) \<subseteq> insert (f y, g y) (set m)" for m
    by (induction m) (auto simp: mput_def)
  then have "(k, v) = (f y, g y) \<or> (k, v) \<in> set (fold (\<lambda>x. mput (f x) (g x)) ys [])"
    using snoc.prems by (simp only: fold_append o_apply fold_simps) blast
  then show ?case using snoc.IH by auto
qed simp

lemma compiled_scenario_nonempty: "compile_scenario si h = Inr ts \<Longrightarrow> ts_script ts \<noteq> '''' \<or> ts_requests ts \<noteq> []"
  by (auto simp: compile_scenario_def Let_def enumerate_eq_zip split: if_splits)

text \<open>Scenarios are stored under their own ids.\<close>

definition scenarios_by_id :: "compile_input \<Rightarrow> bool" where
  "scenarios_by_id inp \<longleftrightarrow> (\<forall>i si. mget (ci_scenarios inp) i = Some si \<longrightarrow> sc_id (si_scenario si) = i \<and> 0 \<le> i)"

lemma key_determines_workload:
  assumes "scenarios_by_id inp" "compilable inp a" "compilable inp b" "key_of inp a = key_of inp b"
  shows "ts_of inp a = ts_of inp b"
proof -
  have ids: "sc_id (si_scenario (si_of inp e)) = en_scenario_id e" "0 \<le> en_scenario_id e" if "compilable inp e" for e
    using that assms(1) by (auto simp: compilable_iff compiles_to_def scenarios_by_id_def)
  have "sc_id (si_scenario (si_of inp a)) = sc_id (si_scenario (si_of inp b))"
    by (rule scenario_key_inj) (use ids assms in auto)
  then have "en_scenario_id a = en_scenario_id b" using ids assms(2,3) by metis
  then show ?thesis by (simp add: ts_of_def si_of_def)
qed

lemma compiled_config_valid:
  assumes "scenarios_by_id inp" "list_all (compilable inp) ens" "ens \<noteq> []" "ci_engine inp \<noteq> ''''"
    and c: "cfg_execution cfg = map (\<lambda>en. exec_block (ci_engine inp) (si_of inp en) en) ens"
      "cfg_scenarios cfg = fold (\<lambda>en. mput (key_of inp en) (ts_of inp en)) ens []"
  shows "config_validate cfg = None \<longleftrightarrow> list_all (\<lambda>en. 0 < en_concurrency en \<and> i64 (seconds (en_duration en)) \<noteq> 0) ens"
proof -
  have look: "mget (cfg_scenarios cfg) (key_of inp en) = Some (ts_of inp en)" if "en \<in> set ens" for en
    unfolding c(2) using that assms(2) key_determines_workload[OF assms(1)]
    by (intro fold_mput_lookup) (auto simp: list_all_iff)
  have key: "scenario_key s \<noteq> ''''" for s by (simp add: scenario_key_def)
  have ex: "execution_check (cfg_scenarios cfg) (exec_block (ci_engine inp) (si_of inp en) en) = None
      \<longleftrightarrow> 0 < en_concurrency en \<and> i64 (seconds (en_duration en)) \<noteq> 0" if "en \<in> set ens" for en
    using look[OF that] assms(4) key by (auto simp: execution_check_def exec_block_def)
  have "ts_script ts \<noteq> '''' \<or> ts_requests ts \<noteq> []" if kts: "(k, ts) \<in> set (cfg_scenarios cfg)" for k ts
  proof -
    obtain en where "en \<in> set ens" "ts = ts_of inp en" using fold_mput_entries[OF kts[unfolded c(2)]] by blast
    then have "compile_scenario (si_of inp en) (ci_headers inp) = Inr ts"
      using assms(2) by (auto simp: list_all_iff compilable_iff compiles_to_def)
    then show ?thesis by (rule compiled_scenario_nonempty)
  qed
  then have "set (map (\<lambda>(name, s). if ts_script s = '''' \<and> ts_requests s = [] then Some TaErrScenarioEmpty else None) (cfg_scenarios cfg)) \<subseteq> {None}"
    by (auto split: if_splits)
  then show ?thesis
    using assms(3) c(1) by (simp add: config_validate_def first_err_None image_subset_iff ex list_all_iff)
qed

text \<open>The configuration the compiler builds before it validates it.\<close>

definition compiled :: "compile_input \<Rightarrow> config" where
  "compiled inp = \<lparr>cfg_execution = map (\<lambda>en. exec_block (ci_engine inp) (si_of inp en) en) (ci_tests inp),
     cfg_scenarios = fold (\<lambda>en. mput (key_of inp en) (ts_of inp en)) (ci_tests inp) [],
     cfg_reporting = (if ci_criteria inp \<noteq> []
        then [\<lparr>rep_module = ''passfail'', rep_criteria = floor_criteria_to_violation (ci_criteria inp),
               rep_filename = '''', rep_dump_csv = ''''\<rparr>] else []),
     cfg_services = [], cfg_settings = None,
     cfg_modules = (if ci_sequential inp \<and> 1 < length (ci_tests inp)
        then [(''local'', \<lparr>mo_class = '''', mo_path = '''', mo_sequential = Some True\<rparr>)] else [])\<rparr>"

lemma compile_taurus_eq:
  assumes "ci_engine inp \<noteq> ''''" "ci_tests inp \<noteq> []" "list_all (compilable inp) (ci_tests inp)"
  shows "compile_taurus inp = (case config_validate (compiled inp) of Some e \<Rightarrow> Inl (CoErrTaurus e) | None \<Rightarrow> Inr (compiled inp))"
  using assms(1,2) compile_entries_ok[OF assms(3), of "[]" "[]"]
  unfolding compile_taurus_def compiled_def Let_def by (simp cong: if_cong option.case_cong split del: if_split)

lemma compile_taurus_Inr:
  "compile_taurus inp = Inr cfg \<longleftrightarrow> ci_engine inp \<noteq> '''' \<and> ci_tests inp \<noteq> [] \<and> list_all (compilable inp) (ci_tests inp)
     \<and> config_validate (compiled inp) = None \<and> cfg = compiled inp"
proof (cases "ci_engine inp \<noteq> '''' \<and> ci_tests inp \<noteq> [] \<and> list_all (compilable inp) (ci_tests inp)")
  case True
  then show ?thesis using compile_taurus_eq[of inp] by (auto split: option.split)
next
  case False
  then show ?thesis
    using compile_entries_err[of inp "ci_tests inp" "[]" "[]"] by (auto simp: compile_taurus_def)
qed

text \<open>
  C19. Compilation succeeds exactly when it should. With the scenarios filed under their ids, the
  compiler returns a configuration if and only if an engine is chosen, there is at least one
  entry, and every entry names a supplied scenario that can run on the engine and has its script or
  its requests, asks for at least one user and for a hold that is not zero (after the conversion
  to nanoseconds, which wraps).
\<close>

theorem compile_succeeds_iff:
  assumes "scenarios_by_id inp"
  shows "(\<exists>cfg. compile_taurus inp = Inr cfg) \<longleftrightarrow>
     ci_engine inp \<noteq> '''' \<and> ci_tests inp \<noteq> [] \<and>
     list_all (\<lambda>en. compilable inp en \<and> 0 < en_concurrency en \<and> i64 (seconds (en_duration en)) \<noteq> 0) (ci_tests inp)"
proof -
  have "config_validate (compiled inp) = None \<longleftrightarrow> list_all (\<lambda>en. 0 < en_concurrency en \<and> i64 (seconds (en_duration en)) \<noteq> 0) (ci_tests inp)"
    if "ci_engine inp \<noteq> ''''" "ci_tests inp \<noteq> []" "list_all (compilable inp) (ci_tests inp)"
    by (rule compiled_config_valid[OF assms that(3,2,1)]) (simp_all add: compiled_def)
  then show ?thesis unfolding compile_taurus_Inr by (auto simp: list_all_iff)
qed

definition demo_scenario :: scenario where
  "demo_scenario = zero_scenario\<lparr>sc_id := 7, sc_name := ''Check out'', sc_project_id := 1, sc_kind := KindNative, sc_engine := ''k6''\<rparr>"

definition demo_input :: compile_input where
  "demo_input = \<lparr>ci_execution = projr (execution_new ''nightly'' 1), ci_tests = [demo_entry], ci_engine = ''k6'',
     ci_scenarios = [(7, \<lparr>si_scenario = demo_scenario, si_script_path = ''/honryu/config/scenario/a.js'', si_default_address = '''',
       si_requests = [], si_headers = [], si_timeout = 0, si_keep_alive = None, si_data_paths = []\<rparr>)],
     ci_headers = telemetry_headers \<lparr>tc_trace_id = ''aa'', tc_parent_id = ''bb''\<rparr>
       \<lparr>id_tenant_id = None, id_project_id = 1, id_execution_id = 3, id_run_correlation_id = ''aa''\<rparr>,
     ci_criteria = [''p95<800ms''], ci_sequential = False\<rparr>"

lemma demo_input_by_id: "scenarios_by_id demo_input"
  by (auto simp: scenarios_by_id_def demo_input_def demo_scenario_def mget_Cons split: if_splits)

theorem compile_succeeds_iff_witness: "\<exists>cfg. compile_taurus demo_input = Inr cfg"
proof -
  have "compilable demo_input demo_entry"
    by (simp add: compilable_def compiles_to_def demo_input_def demo_entry_def mget_Cons can_run_on_def demo_scenario_def
        executor_known_def declarative_support_def compile_scenario_def KindNative_def)
  then show ?thesis
    unfolding compile_succeeds_iff[OF demo_input_by_id]
    by (simp add: demo_input_def demo_entry_def seconds_def in_i64_def)
qed

text \<open>
  C18. Every entry runs its own workload: in a compiled configuration the executions are the
  entries in order, each with the chosen engine and the entry's users, rate, ramp-up and hold,
  and the scenario its key names is the one compiled from that entry's scenario, also when
  scenarios share a name. Every request of it is labelled, and the trace-context headers of
  the deployment reach it unchanged, whatever headers the scenario brings along. The
  pass/fail criteria are the configured ones in violation form.
\<close>

theorem compile_faithful:
  assumes "scenarios_by_id inp" "wf_map (ci_headers inp)" "compile_taurus inp = Inr cfg"
  shows "length (cfg_execution cfg) = length (ci_tests inp)
    \<and> (\<forall>i < length (ci_tests inp). \<exists>si ts. compiles_to inp (ci_tests inp ! i) si ts
         \<and> cfg_execution cfg ! i = exec_block (ci_engine inp) si (ci_tests inp ! i)
         \<and> mget (cfg_scenarios cfg) (te_scenario (cfg_execution cfg ! i)) = Some ts
         \<and> (\<forall>k v. mget (ci_headers inp) k = Some v \<longrightarrow> mget (ts_headers ts) k = Some v)
         \<and> (\<forall>r \<in> set (ts_requests ts). rq_label r \<noteq> ''''))
    \<and> concat (map rep_criteria (cfg_reporting cfg)) = floor_criteria_to_violation (ci_criteria inp)"
proof -
  have ok: "list_all (compilable inp) (ci_tests inp)" and cfg: "cfg = compiled inp"
    using assms(3) unfolding compile_taurus_Inr by auto
  have headers: "mget (ts_headers ts) k = Some v" if "compile_scenario si (ci_headers inp) = Inr ts" "mget (ci_headers inp) k = Some v" for si ts k v
    using that mget_rev[OF assms(2)] by (auto simp: compile_scenario_def Let_def mget_mput_all split: if_splits)
  have labels: "rq_label r \<noteq> ''''" if "compile_scenario si h = Inr ts" "r \<in> set (ts_requests ts)" for si h ts r
    using that by (auto simp: compile_scenario_def Let_def request_label_def split: if_splits)
  have "\<exists>si ts. compiles_to inp (ci_tests inp ! i) si ts
         \<and> cfg_execution cfg ! i = exec_block (ci_engine inp) si (ci_tests inp ! i)
         \<and> mget (cfg_scenarios cfg) (te_scenario (cfg_execution cfg ! i)) = Some ts
         \<and> (\<forall>k v. mget (ci_headers inp) k = Some v \<longrightarrow> mget (ts_headers ts) k = Some v)
         \<and> (\<forall>r \<in> set (ts_requests ts). rq_label r \<noteq> '''')" if i: "i < length (ci_tests inp)" for i
  proof -
    let ?en = "ci_tests inp ! i"
    have en: "?en \<in> set (ci_tests inp)" using i by simp
    then have c: "compiles_to inp ?en (si_of inp ?en) (ts_of inp ?en)" using ok by (simp add: list_all_iff compilable_iff)
    then have cs: "compile_scenario (si_of inp ?en) (ci_headers inp) = Inr (ts_of inp ?en)" by (simp add: compiles_to_def)
    have "mget (cfg_scenarios cfg) (key_of inp ?en) = Some (ts_of inp ?en)"
      unfolding cfg compiled_def config.simps using en ok key_determines_workload[OF assms(1)]
      by (intro fold_mput_lookup) (simp_all add: list_all_iff)
    moreover have "cfg_execution cfg ! i = exec_block (ci_engine inp) (si_of inp ?en) ?en" using i by (simp add: cfg compiled_def)
    ultimately show ?thesis using c headers[OF cs] labels[OF cs]
      by (intro exI[of _ "si_of inp ?en"] exI[of _ "ts_of inp ?en"]) (simp add: exec_block_def)
  qed
  moreover have "concat (map rep_criteria (cfg_reporting cfg)) = floor_criteria_to_violation (ci_criteria inp)"
    by (simp add: cfg compiled_def floor_criteria_to_violation_def)
  ultimately show ?thesis by (simp add: cfg compiled_def)
qed

theorem compile_faithful_witness:
  "\<exists>cfg. compile_taurus demo_input = Inr cfg \<and> te_throughput (cfg_execution cfg ! 0) = 90
     \<and> concat (map rep_criteria (cfg_reporting cfg)) = [''p95>=800ms'']"
proof -
  have c: "compilable demo_input demo_entry"
    by (simp add: compilable_def compiles_to_def demo_input_def demo_entry_def mget_Cons can_run_on_def demo_scenario_def
        executor_known_def declarative_support_def compile_scenario_def KindNative_def)
  have "config_validate (compiled demo_input) = None" by code_simp
  moreover have "ci_engine demo_input \<noteq> ''''" "ci_tests demo_input = [demo_entry]" by (simp_all add: demo_input_def)
  ultimately have ok: "compile_taurus demo_input = Inr (compiled demo_input)"
    using c unfolding compile_taurus_Inr by simp
  have "wf_map (ci_headers demo_input)" by (simp add: demo_input_def telemetry_headers_def wf_map_def)
  from compile_faithful[OF demo_input_by_id this ok]
  obtain si where "cfg_execution (compiled demo_input) ! 0 = exec_block ''k6'' si demo_entry"
      "concat (map rep_criteria (cfg_reporting (compiled demo_input))) = floor_criteria_to_violation [''p95<800ms'']"
    by (auto simp: demo_input_def)
  moreover have "floor_criteria_to_violation [''p95<800ms''] = [''p95>=800ms'']" by code_simp
  ultimately show ?thesis using ok by (simp add: exec_block_def demo_entry_def)
qed

end
