(* ===== verification/Run_Store.thy ===== *)
theory Run_Store
  imports Load_Plan
begin

text \<open>
  The run store: the run markers and history of \<open>internal/ports/fake/run_repository.go\<close>, the
  orphaned shard completions of \<open>orphan_repository.go\<close> and the launches of
  \<open>usage_repository.go\<close>. The store's mutex makes each operation atomic. Sequence numbers are
  unbounded here: no store gets through 2^63 of them. Launch history and open launches share
  their records in the code, so an open launch is an index into the history.
\<close>

section \<open>State\<close>

text \<open>The sentinel errors of \<open>internal/ports\<close>; \<open>PortErrOther\<close> is an error a store is told to return.\<close>

datatype port_err = PortErrNotFound | PortErrFileExists | PortErrRunActive | PortErrNoActiveRun
  | PortErrLaunchActive | PortErrEnginesUnreachable | PortErrObjectNotFound | PortErrClusterExists
  | PortErrUnsequencedBatch | PortErrProgressRunRequired | PortErrProgressScenarioRequired
  | PortErrOther string

record run_record =
  rr_run_id :: int
  rr_execution_id :: int
  rr_started_time :: time
  rr_end_time :: "time option"
  rr_correlation_id :: string

record open_run =
  or_execution_id :: int
  or_run_id :: int
  or_started_time :: time

record running_scenario =
  rn_execution_id :: int
  rn_scenario_id :: int
  rn_started_time :: time

record orphan_completion =
  oc_execution_id :: int
  oc_scenario_id :: int
  oc_shard_index :: int
  oc_exit_code :: "int option"
  oc_finished_at :: time

record launch_record =
  la_execution_id :: int
  la_context :: string
  la_owner :: string
  la_engines :: int
  la_vu :: int
  la_started_time :: time
  la_end_time :: "time option"

record run_store =
  rs_run_seq :: int
  rs_current_run :: "(int, int) gomap"
  rs_run_history :: "(int, run_record) gomap"
  rs_running :: "(int, (int, time) gomap) gomap"
  rs_mark_running_err :: "port_err option"
  rs_orphans :: "(int, (int \<times> int, orphan_completion) gomap) gomap"
  rs_deploy_context :: string
  rs_open_launch :: "(int, nat) gomap"
  rs_launch_history :: "launch_record list"

definition new_run_store :: run_store where
  "new_run_store = \<lparr>rs_run_seq = 0, rs_current_run = [], rs_run_history = [], rs_running = [],
     rs_mark_running_err = None, rs_orphans = [], rs_deploy_context = ''default'', rs_open_launch = [],
     rs_launch_history = []\<rparr>"

section \<open>Run markers\<close>

definition start_run :: "time \<Rightarrow> int \<Rightarrow> string \<Rightarrow> (port_err, run_store, int) act" where
  "start_run now executionID correlationID s =
     (if mget (rs_current_run s) executionID \<noteq> None then (Inl PortErrRunActive, s)
      else let runID = rs_run_seq s + 1 in
        (Inr runID, s\<lparr>rs_run_seq := runID,
           rs_current_run := mput executionID runID (rs_current_run s),
           rs_run_history := mput runID \<lparr>rr_run_id = runID, rr_execution_id = executionID,
              rr_started_time = now, rr_end_time = None, rr_correlation_id = correlationID\<rparr> (rs_run_history s)\<rparr>))"

definition current_run :: "run_store \<Rightarrow> int \<Rightarrow> int option" where
  "current_run s executionID = mget (rs_current_run s) executionID"

definition open_runs :: "run_store \<Rightarrow> open_run list" where
  "open_runs s =
     sort_key (\<lambda>r. (or_started_time r, or_run_id r))
       (map (\<lambda>(executionID, runID). \<lparr>or_execution_id = executionID, or_run_id = runID,
          or_started_time = (case mget (rs_run_history s) runID of Some rec \<Rightarrow> rr_started_time rec | None \<Rightarrow> 0)\<rparr>)
        (rs_current_run s))"

definition stop_run :: "time \<Rightarrow> int \<Rightarrow> (port_err, run_store, unit) act" where
  "stop_run now executionID s =
     (case mget (rs_current_run s) executionID of
        None \<Rightarrow> (Inr (), s)
      | Some runID \<Rightarrow>
          (Inr (), s\<lparr>rs_run_history :=
             (case mget (rs_run_history s) runID of
                Some rec \<Rightarrow> if rr_end_time rec = None then mput runID (rec\<lparr>rr_end_time := Some now\<rparr>) (rs_run_history s)
                            else rs_run_history s
              | None \<Rightarrow> rs_run_history s),
             rs_current_run := mdel executionID (rs_current_run s)\<rparr>))"

definition run_history :: "run_store \<Rightarrow> int \<Rightarrow> port_err + run_record" where
  "run_history s runID = (case mget (rs_run_history s) runID of None \<Rightarrow> Inl PortErrNotFound | Some rec \<Rightarrow> Inr rec)"

definition mark_scenario_running :: "time \<Rightarrow> int \<Rightarrow> int \<Rightarrow> (port_err, run_store, unit) act" where
  "mark_scenario_running now executionID scenarioID s =
     (case rs_mark_running_err s of
        Some e \<Rightarrow> (Inl e, s)
      | None \<Rightarrow>
          let scenarios = mget_or [] (rs_running s) executionID;
              scenarios = (if mget scenarios scenarioID = None then mput scenarioID now scenarios else scenarios)
          in (Inr (), s\<lparr>rs_running := mput executionID scenarios (rs_running s)\<rparr>))"

definition clear_scenario_running :: "int \<Rightarrow> int \<Rightarrow> (port_err, run_store, unit) act" where
  "clear_scenario_running executionID scenarioID s =
     (let scenarios = mdel scenarioID (mget_or [] (rs_running s) executionID)
      in (Inr (), s\<lparr>rs_running := (if scenarios = [] then mdel executionID (rs_running s)
                                 else mput executionID scenarios (rs_running s))\<rparr>))"

definition sort_running_scenarios :: "running_scenario list \<Rightarrow> running_scenario list" where
  "sort_running_scenarios = sort_key (\<lambda>r. (rn_execution_id r, rn_scenario_id r))"

definition running_scenarios_by_execution :: "run_store \<Rightarrow> int \<Rightarrow> running_scenario list" where
  "running_scenarios_by_execution s executionID =
     sort_running_scenarios (map (\<lambda>(scenarioID, started).
        \<lparr>rn_execution_id = executionID, rn_scenario_id = scenarioID, rn_started_time = started\<rparr>)
       (mget_or [] (rs_running s) executionID))"

definition running_scenarios :: "run_store \<Rightarrow> running_scenario list" where
  "running_scenarios s =
     sort_running_scenarios (concat (map (\<lambda>(executionID, scenarios). map (\<lambda>(scenarioID, started).
        \<lparr>rn_execution_id = executionID, rn_scenario_id = scenarioID, rn_started_time = started\<rparr>) scenarios)
       (rs_running s)))"

text \<open>The later of two records: by start, then by run id.\<close>

definition later_run :: "int \<Rightarrow> run_record \<Rightarrow> run_record option \<Rightarrow> run_record option" where
  "later_run executionID rec latest =
     (if rr_execution_id rec \<noteq> executionID then latest
      else case latest of
        None \<Rightarrow> Some rec
      | Some l \<Rightarrow> if rr_started_time l < rr_started_time rec
                      \<or> (rr_started_time rec = rr_started_time l \<and> rr_run_id l < rr_run_id rec)
                   then Some rec else latest)"

definition last_run :: "run_store \<Rightarrow> int \<Rightarrow> port_err + run_record" where
  "last_run s executionID =
     (case fold (later_run executionID) (mvals (rs_run_history s)) None of
        None \<Rightarrow> Inl PortErrNotFound | Some rec \<Rightarrow> Inr rec)"

section \<open>Orphaned completions\<close>

definition record_orphan_completion :: "orphan_completion \<Rightarrow> (port_err, run_store, unit) act" where
  "record_orphan_completion oc s =
     (let byShard = mget_or [] (rs_orphans s) (oc_execution_id oc)
      in (Inr (), s\<lparr>rs_orphans := mput (oc_execution_id oc)
            (mput (oc_scenario_id oc, oc_shard_index oc) oc byShard) (rs_orphans s)\<rparr>))"

definition orphan_completions :: "run_store \<Rightarrow> int \<Rightarrow> orphan_completion list" where
  "orphan_completions s executionID =
     sort_key (\<lambda>oc. (oc_scenario_id oc, oc_shard_index oc)) (mvals (mget_or [] (rs_orphans s) executionID))"

definition clear_orphan_completions :: "int \<Rightarrow> (port_err, run_store, unit) act" where
  "clear_orphan_completions executionID s = (Inr (), s\<lparr>rs_orphans := mdel executionID (rs_orphans s)\<rparr>)"

section \<open>Launches\<close>

definition start_launch :: "time \<Rightarrow> int \<Rightarrow> string \<Rightarrow> int \<Rightarrow> int \<Rightarrow> (port_err, run_store, unit) act" where
  "start_launch now executionID owner engines vu s =
     (if mget (rs_open_launch s) executionID \<noteq> None then (Inl PortErrLaunchActive, s)
      else (Inr (), s\<lparr>rs_open_launch := mput executionID (length (rs_launch_history s)) (rs_open_launch s),
         rs_launch_history := rs_launch_history s @ [\<lparr>la_execution_id = executionID,
            la_context = rs_deploy_context s, la_owner = owner, la_engines = engines, la_vu = vu,
            la_started_time = now, la_end_time = None\<rparr>]\<rparr>))"

definition finish_launch :: "time \<Rightarrow> int \<Rightarrow> int \<Rightarrow> (port_err, run_store, unit) act" where
  "finish_launch now executionID vu s =
     (case mget (rs_open_launch s) executionID of
        None \<Rightarrow> (Inr (), s)
      | Some i \<Rightarrow> (Inr (), s\<lparr>
          rs_launch_history := (rs_launch_history s)[i := (rs_launch_history s ! i)\<lparr>la_end_time := Some now, la_vu := vu\<rparr>],
          rs_open_launch := mdel executionID (rs_open_launch s)\<rparr>))"

definition launch_history :: "run_store \<Rightarrow> time \<Rightarrow> time \<Rightarrow> launch_record list" where
  "launch_history s t_from t_to =
     filter (\<lambda>rec. case la_end_time rec of None \<Rightarrow> False
                   | Some e \<Rightarrow> \<not> (la_started_time rec < t_from \<or> t_to < e)) (rs_launch_history s)"

section \<open>Well-formedness\<close>

text \<open>
  The markers and the history agree: an execution's current run is the one record of it that
  has no end, and every other record of the store is closed.
\<close>

definition open_rec :: "(int, run_record) gomap \<Rightarrow> int \<Rightarrow> int \<Rightarrow> bool" where
  "open_rec h eid rid \<longleftrightarrow> (case mget h rid of None \<Rightarrow> False | Some rec \<Rightarrow> rr_execution_id rec = eid \<and> rr_end_time rec = None)"

definition runs_ok :: "run_store \<Rightarrow> bool" where
  "runs_ok s \<longleftrightarrow>
     wf_map (rs_current_run s) \<and> wf_map (rs_run_history s) \<and>
     (\<forall>eid rid. mget (rs_current_run s) eid = Some rid \<longleftrightarrow> open_rec (rs_run_history s) eid rid) \<and>
     (\<forall>rid rec. mget (rs_run_history s) rid = Some rec \<longrightarrow> rr_run_id rec = rid \<and> rid \<le> rs_run_seq s)"

lemma open_rec_mput:
  "open_rec (mput rid rec h) e r \<longleftrightarrow> (if r = rid then rr_execution_id rec = e \<and> rr_end_time rec = None else open_rec h e r)"
  by (simp add: open_rec_def)

lemma open_rec_fun: "open_rec h e r \<Longrightarrow> open_rec h e' r \<Longrightarrow> e' = e"
  by (auto simp: open_rec_def split: option.splits)

definition open_at :: "launch_record list \<Rightarrow> int \<Rightarrow> nat \<Rightarrow> bool" where
  "open_at ls eid i \<longleftrightarrow> i < length ls \<and> la_execution_id (ls ! i) = eid \<and> la_end_time (ls ! i) = None"

text \<open>The open launches are the launches of the history that have no end, one per execution.\<close>

definition launches_ok :: "run_store \<Rightarrow> bool" where
  "launches_ok s \<longleftrightarrow>
     wf_map (rs_open_launch s) \<and> (\<forall>eid i. mget (rs_open_launch s) eid = Some i \<longleftrightarrow> open_at (rs_launch_history s) eid i)"

lemma open_at_snoc:
  "open_at (ls @ [l]) eid i \<longleftrightarrow> open_at ls eid i \<or> (i = length ls \<and> la_execution_id l = eid \<and> la_end_time l = None)"
  by (auto simp: open_at_def nth_append less_Suc_eq)

lemma open_at_closed:
  "i < length ls \<Longrightarrow> la_end_time l \<noteq> None \<Longrightarrow> open_at (ls[i := l]) eid j \<longleftrightarrow> open_at ls eid j \<and> j \<noteq> i"
  by (auto simp: open_at_def nth_list_update)

lemma new_run_store_ok: "runs_ok new_run_store" "launches_ok new_run_store"
  by (simp_all add: runs_ok_def open_rec_def launches_ok_def open_at_def new_run_store_def)

lemma run_history_fresh: "runs_ok s \<Longrightarrow> mget (rs_run_history s) (rs_run_seq s + 1) = None"
  unfolding runs_ok_def by (metis add_le_same_cancel1 not_None_eq not_one_le_zero)

lemma start_run_ok [keeps_rules]: "keeps runs_ok (start_run now eid c)"
proof (rule keepsI)
  fix s assume ok: "runs_ok s"
  let ?rid = "rs_run_seq s + 1"
  have fresh: "\<not> open_rec (rs_run_history s) e ?rid" for e
    using run_history_fresh[OF ok] by (simp add: open_rec_def)
  show "runs_ok (snd (start_run now eid c s))"
  proof (cases "mget (rs_current_run s) eid")
    case None
    then have none: "\<not> open_rec (rs_run_history s) eid r" for r
      using ok unfolding runs_ok_def by (metis option.distinct(1))
    let ?rec = "\<lparr>rr_run_id = ?rid, rr_execution_id = eid, rr_started_time = now, rr_end_time = None, rr_correlation_id = c\<rparr>"
    have "open_rec (mput ?rid ?rec (rs_run_history s)) e r \<longleftrightarrow> (if e = eid then Some ?rid else mget (rs_current_run s) e) = Some r" for e r
      using ok none fresh unfolding runs_ok_def by (auto simp: open_rec_mput)
    moreover have "rid \<le> ?rid" if "mget (rs_run_history s) rid = Some rec" for rid rec
      using ok that unfolding runs_ok_def by force
    ultimately show ?thesis using ok None
      unfolding runs_ok_def start_run_def Let_def by simp
  qed (simp add: start_run_def ok)
qed

lemma stop_run_ok [keeps_rules]: "keeps runs_ok (stop_run now eid)"
proof (rule keepsI)
  fix s assume ok: "runs_ok s"
  show "runs_ok (snd (stop_run now eid s))"
  proof (cases "mget (rs_current_run s) eid")
    case (Some rid)
    then have o: "open_rec (rs_run_history s) eid rid" using ok unfolding runs_ok_def by blast
    then obtain rec where rec: "mget (rs_run_history s) rid = Some rec" "rr_end_time rec = None"
      by (auto simp: open_rec_def split: option.splits)
    let ?h = "mput rid (rec\<lparr>rr_end_time := Some now\<rparr>) (rs_run_history s)"
    have "open_rec ?h e r \<longleftrightarrow> mget (mdel eid (rs_current_run s)) e = Some r" for e r
    proof (cases "r = rid")
      case True
      have "mget (rs_current_run s) e \<noteq> Some rid" if "e \<noteq> eid"
        using ok that open_rec_fun[OF o, of e] unfolding runs_ok_def by blast
      then show ?thesis using True by (simp add: open_rec_mput)
    next
      case False
      then show ?thesis using ok Some unfolding runs_ok_def by (simp add: open_rec_mput) (metis option.inject)
    qed
    moreover have "rr_run_id rec = rid \<and> rid \<le> rs_run_seq s" using ok rec unfolding runs_ok_def by blast
    moreover have "stop_run now eid s = (Inr (), s\<lparr>rs_run_history := ?h, rs_current_run := mdel eid (rs_current_run s)\<rparr>)"
      using Some rec by (simp add: stop_run_def)
    ultimately show ?thesis using ok unfolding runs_ok_def by simp
  qed (simp add: stop_run_def ok)
qed

lemma start_launch_ok [keeps_rules]: "keeps launches_ok (start_launch now eid o' e v)"
proof (rule keepsI)
  fix s assume ok: "launches_ok s"
  show "launches_ok (snd (start_launch now eid o' e v s))"
  proof (cases "mget (rs_open_launch s) eid")
    case None
    then have "\<not> open_at (rs_launch_history s) eid i" for i using ok unfolding launches_ok_def by (metis option.distinct(1))
    then have "mget (mput eid (length (rs_launch_history s)) (rs_open_launch s)) e' = Some i \<longleftrightarrow>
        open_at (rs_launch_history s @ [\<lparr>la_execution_id = eid, la_context = rs_deploy_context s, la_owner = o',
          la_engines = e, la_vu = v, la_started_time = now, la_end_time = None\<rparr>]) e' i" for e' i
      using ok unfolding launches_ok_def by (auto simp: open_at_snoc)
    moreover have "wf_map (rs_open_launch s)" using ok unfolding launches_ok_def by blast
    ultimately show ?thesis using None unfolding launches_ok_def start_launch_def by simp
  qed (simp add: start_launch_def ok)
qed

lemma finish_launch_ok [keeps_rules]: "keeps launches_ok (finish_launch now eid v)"
proof (rule keepsI)
  fix s assume ok: "launches_ok s"
  show "launches_ok (snd (finish_launch now eid v s))"
  proof (cases "mget (rs_open_launch s) eid")
    case (Some i)
    then have i: "open_at (rs_launch_history s) eid i" using ok unfolding launches_ok_def by blast
    have other: "open_at (rs_launch_history s) e j \<and> j \<noteq> i \<longleftrightarrow> e \<noteq> eid \<and> open_at (rs_launch_history s) e j" for e j
      using ok Some i unfolding launches_ok_def by (metis open_at_def option.inject)
    let ?h = "(rs_launch_history s)[i := (rs_launch_history s ! i)\<lparr>la_end_time := Some now, la_vu := v\<rparr>]"
    have "mget (mdel eid (rs_open_launch s)) e = Some j \<longleftrightarrow> open_at ?h e j" for e j
      using other[of e j] ok unfolding launches_ok_def
      by (auto simp: open_at_closed[OF i[unfolded open_at_def, THEN conjunct1]])
    moreover have "wf_map (rs_open_launch s)" using ok unfolding launches_ok_def by blast
    ultimately show ?thesis using Some unfolding launches_ok_def finish_launch_def by simp
  qed (simp add: finish_launch_def ok)
qed

text \<open>Operations that touch other parts of the store keep both.\<close>

lemma run_frames [simp]:
  "runs_ok (s\<lparr>rs_running := a\<rparr>) = runs_ok s" "runs_ok (s\<lparr>rs_orphans := b\<rparr>) = runs_ok s"
  "runs_ok (s\<lparr>rs_open_launch := d, rs_launch_history := e\<rparr>) = runs_ok s"
  "runs_ok (s\<lparr>rs_launch_history := e, rs_open_launch := d\<rparr>) = runs_ok s"
  "launches_ok (s\<lparr>rs_running := a\<rparr>) = launches_ok s" "launches_ok (s\<lparr>rs_orphans := b\<rparr>) = launches_ok s"
  by (simp_all add: runs_ok_def launches_ok_def)

lemma run_store_keeps [keeps_rules]:
  "keeps runs_ok (mark_scenario_running now eid sid)" "keeps runs_ok (clear_scenario_running eid sid)"
  "keeps runs_ok (record_orphan_completion oc)" "keeps runs_ok (clear_orphan_completions eid)"
  "keeps runs_ok (start_launch now eid o' e v)" "keeps runs_ok (finish_launch now eid v)"
  by (simp_all add: keeps_def mark_scenario_running_def clear_scenario_running_def record_orphan_completion_def
      clear_orphan_completions_def start_launch_def finish_launch_def Let_def split: option.split)

section \<open>The interface of run markers\<close>

text \<open>What clients issue: starts and stops of executions, at given instants.\<close>

datatype marker_op = MStart time int string | MStop time int

text \<open>
  A sequence of them on a store given by its operations, with the run ids the successful
  starts returned, each with its execution.
\<close>

fun marker_trace :: "(time \<Rightarrow> int \<Rightarrow> string \<Rightarrow> (port_err, 's, int) act) \<Rightarrow> (time \<Rightarrow> int \<Rightarrow> (port_err, 's, unit) act)
    \<Rightarrow> marker_op list \<Rightarrow> 's \<Rightarrow> (int \<times> int) list \<times> 's" where
  "marker_trace start stop [] s = ([], s)"
| "marker_trace start stop (MStart now e c # ops) s =
     (case start now e c s of
        (Inl _, s') \<Rightarrow> marker_trace start stop ops s'
      | (Inr r, s') \<Rightarrow> (case marker_trace start stop ops s' of (rs, s'') \<Rightarrow> ((e, r) # rs, s'')))"
| "marker_trace start stop (MStop now e # ops) s = marker_trace start stop ops (snd (stop now e s))"

locale run_markers =
  fixes cur :: "'s \<Rightarrow> int \<Rightarrow> int option"
    and used :: "'s \<Rightarrow> int \<Rightarrow> bool"
    and start :: "time \<Rightarrow> int \<Rightarrow> string \<Rightarrow> (port_err, 's, int) act"
    and stop :: "time \<Rightarrow> int \<Rightarrow> (port_err, 's, unit) act"
    and inv :: "'s \<Rightarrow> bool"
  assumes start_busy: "cur s e = Some r \<Longrightarrow> start now e c s = (Inl PortErrRunActive, s)"
    and start_free: "inv s \<Longrightarrow> cur s e = None \<Longrightarrow> \<exists>r s'. start now e c s = (Inr r, s') \<and> inv s'
        \<and> \<not> used s r \<and> used s' = (used s)(r := True) \<and> cur s' = (cur s)(e := Some r)"
    and stop_any: "inv s \<Longrightarrow> \<exists>s'. stop now e s = (Inr (), s') \<and> inv s' \<and> used s' = used s \<and> cur s' = (cur s)(e := None)"
    and cur_used: "inv s \<Longrightarrow> cur s e = Some r \<Longrightarrow> used s r"
begin

lemma keeps_start: "keeps inv (start now e c)"
proof (rule keepsI)
  fix s assume "inv s"
  then show "inv (snd (start now e c s))"
    by (cases "cur s e") (use start_free[of s e now c] in \<open>auto simp: start_busy\<close>)
qed

lemma keeps_stop: "keeps inv (stop now e)"
  unfolding keeps_def using stop_any by (metis snd_conv)

lemma stop_start:
  assumes "inv s" "stop now e s = (Inr (), s')"
  obtains r s'' where "start now' e c s' = (Inr r, s'')" "\<not> used s r" "cur s'' = (cur s)(e := Some r)" "inv s''"
proof -
  have s': "inv s'" "used s' = used s" "cur s' = (cur s)(e := None)"
    using stop_any[OF assms(1), of now e] assms(2) by auto
  then have "cur s' e = None" by simp
  from start_free[OF s'(1) this, of now' c] s' that show thesis by auto
qed

lemma trace_fresh:
  assumes "inv s" "marker_trace start stop ops s = (rs, s')"
  shows "inv s' \<and> distinct (map snd rs) \<and> (\<forall>r \<in> snd ` set rs. \<not> used s r \<and> used s' r) \<and> (\<forall>r. used s r \<longrightarrow> used s' r)"
  using assms
proof (induction ops arbitrary: s rs)
  case (Cons op ops)
  show ?case
  proof (cases op)
    case (MStart now e c)
    show ?thesis
    proof (cases "cur s e")
      case None
      obtain r s1 where st: "start now e c s = (Inr r, s1)" "inv s1" "\<not> used s r" "used s1 = (used s)(r := True)"
        using start_free[OF Cons.prems(1) None] by blast
      obtain rs1 where tr: "marker_trace start stop ops s1 = (rs1, s')" "rs = (e, r) # rs1"
        using Cons.prems(2) MStart st(1) by (auto split: prod.splits)
      have IH: "inv s'" "distinct (map snd rs1)" "\<And>r'. used s1 r' \<Longrightarrow> used s' r'"
        "\<And>r'. r' \<in> snd ` set rs1 \<Longrightarrow> \<not> used s1 r' \<and> used s' r'"
        using Cons.IH[OF st(2) tr(1)] by blast+
      have "r \<notin> snd ` set rs1" "used s' r" using IH(3,4) st(4) by (metis fun_upd_same)+
      moreover have "\<not> used s r' \<and> used s' r'" if "r' \<in> snd ` set rs1" for r'
        using IH(4)[OF that] st(3,4) by (metis fun_upd_apply)
      moreover have "used s' r'" if "used s r'" for r' using IH(3) that st(4) by (metis fun_upd_apply)
      ultimately show ?thesis using tr(2) st(3) IH(1,2) by auto
    next
      case (Some r)
      then have "marker_trace start stop ops s = (rs, s')" using Cons.prems(2) MStart by (simp add: start_busy)
      then show ?thesis using Cons.IH Cons.prems(1) by blast
    qed
  next
    case (MStop now e)
    obtain s1 where "stop now e s = (Inr (), s1)" "inv s1" "used s1 = used s"
      using stop_any[OF Cons.prems(1)] by blast
    then show ?thesis using Cons.IH[of s1 rs] Cons.prems(2) MStop by simp
  qed
qed simp

end

definition run_used :: "run_store \<Rightarrow> int \<Rightarrow> bool" where
  "run_used s rid \<longleftrightarrow> mget (rs_run_history s) rid \<noteq> None"

lemma start_run_new:
  assumes "runs_ok s" "current_run s eid = None"
  shows "\<exists>s'. start_run now eid c s = (Inr (rs_run_seq s + 1), s') \<and> runs_ok s' \<and> \<not> run_used s (rs_run_seq s + 1)
     \<and> run_used s' = (run_used s)(rs_run_seq s + 1 := True) \<and> current_run s' = (current_run s)(eid := Some (rs_run_seq s + 1))"
proof -
  obtain s' where s': "start_run now eid c s = (Inr (rs_run_seq s + 1), s')"
    using assms(2) by (auto simp: start_run_def current_run_def Let_def)
  moreover have "runs_ok s'" by (rule keepsD[OF start_run_ok assms(1) s'])
  moreover have "\<not> run_used s (rs_run_seq s + 1)" using run_history_fresh[OF assms(1)] by (simp add: run_used_def)
  moreover have "run_used s' = (run_used s)(rs_run_seq s + 1 := True)" "current_run s' = (current_run s)(eid := Some (rs_run_seq s + 1))"
    using s' assms(2) by (auto simp: start_run_def current_run_def run_used_def Let_def fun_eq_iff)
  ultimately show ?thesis by blast
qed

lemma stop_run_any:
  assumes "runs_ok s"
  shows "\<exists>s'. stop_run now eid s = (Inr (), s') \<and> runs_ok s' \<and> run_used s' = run_used s \<and> current_run s' = (current_run s)(eid := None)"
proof -
  obtain s' where s': "stop_run now eid s = (Inr (), s')"
    by (cases "mget (rs_current_run s) eid") (auto simp: stop_run_def)
  moreover have "runs_ok s'" by (rule keepsD[OF stop_run_ok assms s'])
  moreover have "run_used s' = run_used s" "current_run s' = (current_run s)(eid := None)"
    using s' by (auto simp: stop_run_def current_run_def run_used_def fun_eq_iff split: option.splits if_splits)
  ultimately show ?thesis by blast
qed

interpretation rm: run_markers current_run run_used start_run stop_run runs_ok
proof
  show "\<And>s e r now c. current_run s e = Some r \<Longrightarrow> start_run now e c s = (Inl PortErrRunActive, s)"
    by (simp add: start_run_def current_run_def)
  show "\<And>s e now c. runs_ok s \<Longrightarrow> current_run s e = None \<Longrightarrow> \<exists>r s'. start_run now e c s = (Inr r, s') \<and> runs_ok s'
      \<and> \<not> run_used s r \<and> run_used s' = (run_used s)(r := True) \<and> current_run s' = (current_run s)(e := Some r)"
    using start_run_new by blast
  show "\<And>s now e. runs_ok s \<Longrightarrow> \<exists>s'. stop_run now e s = (Inr (), s') \<and> runs_ok s' \<and> run_used s' = run_used s
      \<and> current_run s' = (current_run s)(e := None)"
    by (rule stop_run_any)
  show "\<And>s e r. runs_ok s \<Longrightarrow> current_run s e = Some r \<Longrightarrow> run_used s r"
    by (auto simp: runs_ok_def current_run_def run_used_def open_rec_def split: option.splits)
qed

text \<open>
  C29. Run ids are never reused: whatever sequence of starts and stops the clients of a new
  store issue, on any executions and at any instants, the ids of the runs it opens are all
  different, and the store ends with at most one open run per execution, the record of which
  is the only one of that execution without an end.
\<close>

theorem run_ids_unique:
  assumes "marker_trace start_run stop_run ops new_run_store = (rs, s)"
  shows "distinct (map snd rs) \<and> (\<forall>eid rid. current_run s eid = Some rid \<longleftrightarrow> open_rec (rs_run_history s) eid rid)"
proof -
  have "runs_ok s \<and> distinct (map snd rs)" using rm.trace_fresh[OF new_run_store_ok(1) assms] by blast
  then show ?thesis by (auto simp: runs_ok_def current_run_def)
qed

theorem run_ids_unique_witness:
  "distinct (map snd (fst (marker_trace start_run stop_run [MStart 1 7 ''a'', MStart 2 7 ''b'', MStop 3 7, MStart 4 7 ''c''] new_run_store)))
   \<and> fst (marker_trace start_run stop_run [MStart 1 7 ''a'', MStart 2 7 ''b'', MStop 3 7, MStart 4 7 ''c''] new_run_store) = [(7, 1), (7, 2)]"
proof -
  let ?t = "marker_trace start_run stop_run [MStart 1 7 ''a'', MStart 2 7 ''b'', MStop 3 7, MStart 4 7 ''c''] new_run_store"
  have "fst ?t = [(7, 1), (7, 2)]" by code_simp
  moreover have "?t = (fst ?t, snd ?t)" by simp
  ultimately show ?thesis using run_ids_unique[of "[MStart 1 7 ''a'', MStart 2 7 ''b'', MStop 3 7, MStart 4 7 ''c'']"] by blast
qed

end
