(* ===== verification/Catalog.thy ===== *)
theory Catalog
  imports Compile Run_Store
begin

text \<open>
  Projects (\<open>internal/domain/project\<close>) and the catalog part of the in-memory repository of
  \<open>internal/ports/fake/repository.go\<close>: projects, scenarios with their files and requests,
  executions with their files, load profiles, criteria, pending trace ids and idle clocks.
  A Go map of empty structs is a list of distinct names. Lists the code does not sort are in
  the order of the map.
\<close>

section \<open>Projects\<close>

record project =
  pr_id :: int
  pr_name :: string
  pr_owner :: string
  pr_sid :: string
  pr_tenant_id :: "int option"
  pr_created_by :: string
  pr_updated_by :: string
  pr_created_time :: time

datatype project_err = PrErrNameRequired | PrErrNameTooLong | PrErrOwnerRequired | PrErrOwnerTooLong
  | PrErrSIDInvalid | PrErrSIDTooLong

definition MaxOwnerLen :: nat where "MaxOwnerLen = 50"
definition MaxSIDLen :: nat where "MaxSIDLen = 25"

definition is_digits :: "string \<Rightarrow> bool" where
  "is_digits s = list_all is_digit s"

definition project_validate :: "project \<Rightarrow> project_err option" where
  "project_validate p =
     (if pr_name p = '''' then Some PrErrNameRequired
      else if MaxNameLen < length (pr_name p) then Some PrErrNameTooLong
      else if pr_owner p = '''' then Some PrErrOwnerRequired
      else if MaxOwnerLen < length (pr_owner p) then Some PrErrOwnerTooLong
      else if pr_sid p \<noteq> '''' \<and> MaxSIDLen < length (pr_sid p) then Some PrErrSIDTooLong
      else if pr_sid p \<noteq> '''' \<and> \<not> is_digits (pr_sid p) then Some PrErrSIDInvalid
      else None)"

definition project_new :: "string \<Rightarrow> string \<Rightarrow> string \<Rightarrow> project_err + project" where
  "project_new name owner sid =
     (let p = \<lparr>pr_id = 0, pr_name = trim_space name, pr_owner = trim_space owner, pr_sid = trim_space sid,
               pr_tenant_id = None, pr_created_by = '''', pr_updated_by = '''', pr_created_time = 0\<rparr>
      in case project_validate p of Some e \<Rightarrow> Inl e | None \<Rightarrow> Inr p)"

section \<open>State\<close>

record scenario_files =
  sf_test_file :: string
  sf_data :: "string list"

record catalog =
  ct_project_seq :: int
  ct_projects :: "(int, project) gomap"
  ct_plan_seq :: int
  ct_scenarios :: "(int, scenario) gomap"
  ct_plan_test :: "(int, string) gomap"
  ct_plan_data :: "(int, string list) gomap"
  ct_scenario_requests :: "(int, string) gomap"
  ct_coll_seq :: int
  ct_executions :: "(int, execution) gomap"
  ct_exec_data :: "(int, string list) gomap"
  ct_exec :: "(int, entry list) gomap"
  ct_exec_criteria :: "(int, string list) gomap"
  ct_pending_correlation :: "(int, string) gomap"
  ct_last_activity :: "(int, time) gomap"
  ct_touch_count :: "(int, int) gomap"

definition new_catalog :: catalog where
  "new_catalog = \<lparr>ct_project_seq = 0, ct_projects = [], ct_plan_seq = 0, ct_scenarios = [], ct_plan_test = [],
     ct_plan_data = [], ct_scenario_requests = [], ct_coll_seq = 0, ct_executions = [], ct_exec_data = [],
     ct_exec = [], ct_exec_criteria = [], ct_pending_correlation = [], ct_last_activity = [], ct_touch_count = []\<rparr>"

section \<open>Projects in the repository\<close>

definition create_project :: "time \<Rightarrow> project \<Rightarrow> (port_err, catalog, int) act" where
  "create_project now p s =
     (let i = ct_project_seq s + 1;
          p = p\<lparr>pr_id := i, pr_created_time := (if pr_created_time p = 0 then now else pr_created_time p)\<rparr>
      in (Inr i, s\<lparr>ct_project_seq := i, ct_projects := mput i p (ct_projects s)\<rparr>))"

definition found :: "'a option \<Rightarrow> port_err + 'a" where
  "found x = (case x of None \<Rightarrow> Inl PortErrNotFound | Some v \<Rightarrow> Inr v)"

definition get_project :: "catalog \<Rightarrow> int \<Rightarrow> port_err + project" where
  "get_project s i = found (mget (ct_projects s) i)"

definition list_projects_by_owners :: "catalog \<Rightarrow> string list \<Rightarrow> project list" where
  "list_projects_by_owners s owners = filter (\<lambda>p. pr_owner p \<in> set owners) (mvals (ct_projects s))"

definition list_all_projects :: "catalog \<Rightarrow> project list" where
  "list_all_projects s = mvals (ct_projects s)"

definition list_projects_by_tenants :: "catalog \<Rightarrow> int list \<Rightarrow> project list" where
  "list_projects_by_tenants s tenantIDs =
     filter (\<lambda>p. case pr_tenant_id p of None \<Rightarrow> False | Some t \<Rightarrow> t \<in> set tenantIDs) (mvals (ct_projects s))"

definition delete_project :: "int \<Rightarrow> (port_err, catalog, unit) act" where
  "delete_project i s =
     (if mget (ct_projects s) i = None then (Inl PortErrNotFound, s)
      else (Inr (), s\<lparr>ct_projects := mdel i (ct_projects s)\<rparr>))"

section \<open>Scenarios in the repository\<close>

definition create_scenario :: "time \<Rightarrow> scenario \<Rightarrow> (port_err, catalog, int) act" where
  "create_scenario now p s =
     (let i = ct_plan_seq s + 1;
          p = p\<lparr>sc_id := i, sc_created_time := (if sc_created_time p = 0 then now else sc_created_time p)\<rparr>
      in (Inr i, s\<lparr>ct_plan_seq := i, ct_scenarios := mput i p (ct_scenarios s)\<rparr>))"

definition get_scenario :: "catalog \<Rightarrow> int \<Rightarrow> port_err + scenario" where
  "get_scenario s i = found (mget (ct_scenarios s) i)"

definition list_scenarios_by_project :: "catalog \<Rightarrow> int \<Rightarrow> scenario list" where
  "list_scenarios_by_project s projectID = filter (\<lambda>p. sc_project_id p = projectID) (mvals (ct_scenarios s))"

definition delete_scenario :: "int \<Rightarrow> (port_err, catalog, unit) act" where
  "delete_scenario i s =
     (if mget (ct_scenarios s) i = None then (Inl PortErrNotFound, s)
      else (Inr (), s\<lparr>ct_scenarios := mdel i (ct_scenarios s), ct_plan_test := mdel i (ct_plan_test s),
                      ct_plan_data := mdel i (ct_plan_data s), ct_scenario_requests := mdel i (ct_scenario_requests s)\<rparr>))"

definition add_scenario_file :: "int \<Rightarrow> string \<Rightarrow> bool \<Rightarrow> (port_err, catalog, unit) act" where
  "add_scenario_file scenarioID filename isTest s =
     (if isTest
      then if mget (ct_plan_test s) scenarioID \<noteq> None then (Inl PortErrFileExists, s)
           else (Inr (), s\<lparr>ct_plan_test := mput scenarioID filename (ct_plan_test s)\<rparr>)
      else let files = mget_or [] (ct_plan_data s) scenarioID in
           if filename \<in> set files then (Inl PortErrFileExists, s)
           else (Inr (), s\<lparr>ct_plan_data := mput scenarioID (files @ [filename]) (ct_plan_data s)\<rparr>))"

definition scenario_files_for :: "catalog \<Rightarrow> int \<Rightarrow> scenario_files" where
  "scenario_files_for s scenarioID =
     \<lparr>sf_test_file = mget_or '''' (ct_plan_test s) scenarioID, sf_data = mget_or [] (ct_plan_data s) scenarioID\<rparr>"

definition delete_scenario_file :: "int \<Rightarrow> string \<Rightarrow> bool \<Rightarrow> (port_err, catalog, unit) act" where
  "delete_scenario_file scenarioID filename isTest s =
     (if isTest
      then if mget_or '''' (ct_plan_test s) scenarioID \<noteq> filename then (Inl PortErrNotFound, s)
           else (Inr (), s\<lparr>ct_plan_test := mdel scenarioID (ct_plan_test s)\<rparr>)
      else let files = mget_or [] (ct_plan_data s) scenarioID in
           if filename \<notin> set files then (Inl PortErrNotFound, s)
           else (Inr (), s\<lparr>ct_plan_data := mput scenarioID (removeAll filename files) (ct_plan_data s)\<rparr>))"

definition set_scenario_kind :: "int \<Rightarrow> string \<Rightarrow> string \<Rightarrow> (port_err, catalog, unit) act" where
  "set_scenario_kind scenarioID kind engine s =
     (case mget (ct_scenarios s) scenarioID of
        None \<Rightarrow> (Inl PortErrNotFound, s)
      | Some sc \<Rightarrow> (Inr (), s\<lparr>ct_scenarios := mput scenarioID (sc\<lparr>sc_kind := kind, sc_engine := engine\<rparr>) (ct_scenarios s)\<rparr>))"

definition set_scenario_requests :: "int \<Rightarrow> string \<Rightarrow> (port_err, catalog, unit) act" where
  "set_scenario_requests scenarioID raw s =
     (Inr (), s\<lparr>ct_scenario_requests := mput scenarioID raw (ct_scenario_requests s)\<rparr>)"

definition get_scenario_requests :: "catalog \<Rightarrow> int \<Rightarrow> port_err + string" where
  "get_scenario_requests s scenarioID = found (mget (ct_scenario_requests s) scenarioID)"

definition scenario_in_use :: "catalog \<Rightarrow> int \<Rightarrow> bool" where
  "scenario_in_use s scenarioID = list_ex (list_ex (\<lambda>ep. en_scenario_id ep = scenarioID)) (mvals (ct_exec s))"

definition update_scenario :: "scenario \<Rightarrow> (port_err, catalog, unit) act" where
  "update_scenario p s =
     (case mget (ct_scenarios s) (sc_id p) of
        None \<Rightarrow> (Inl PortErrNotFound, s)
      | Some sc \<Rightarrow> (Inr (), s\<lparr>ct_scenarios := mput (sc_id p)
           (sc\<lparr>sc_name := sc_name p, sc_kind := sc_kind p, sc_engine := sc_engine p,
               sc_is_template := sc_is_template p, sc_template_name := sc_template_name p\<rparr>) (ct_scenarios s)\<rparr>))"

definition delete_scenario_requests :: "int \<Rightarrow> (port_err, catalog, unit) act" where
  "delete_scenario_requests scenarioID s =
     (Inr (), s\<lparr>ct_scenario_requests := mdel scenarioID (ct_scenario_requests s)\<rparr>)"

definition list_templates :: "catalog \<Rightarrow> scenario list" where
  "list_templates s = sort_key sc_id (filter sc_is_template (mvals (ct_scenarios s)))"

section \<open>Executions in the repository\<close>

definition create_execution :: "time \<Rightarrow> execution \<Rightarrow> (port_err, catalog, int) act" where
  "create_execution now c s =
     (let i = ct_coll_seq s + 1;
          c = c\<lparr>ex_id := i, ex_created_time := (if ex_created_time c = 0 then now else ex_created_time c)\<rparr>
      in (Inr i, s\<lparr>ct_coll_seq := i, ct_executions := mput i c (ct_executions s)\<rparr>))"

definition get_execution :: "catalog \<Rightarrow> int \<Rightarrow> port_err + execution" where
  "get_execution s i = found (mget (ct_executions s) i)"

definition list_executions_by_project :: "catalog \<Rightarrow> int \<Rightarrow> execution list" where
  "list_executions_by_project s projectID =
     sort_key ex_id (filter (\<lambda>c. ex_project_id c = projectID) (mvals (ct_executions s)))"

definition newest_first :: "execution list \<Rightarrow> execution list" where
  "newest_first = sort_key (\<lambda>c. (- ex_created_time c, - ex_id c))"

definition list_executions_by_projects :: "catalog \<Rightarrow> int list \<Rightarrow> execution list" where
  "list_executions_by_projects s projectIDs =
     newest_first (filter (\<lambda>c. ex_project_id c \<in> set projectIDs) (mvals (ct_executions s)))"

definition executions_with_active_run_on_cluster :: "catalog \<Rightarrow> run_store \<Rightarrow> string \<Rightarrow> int list" where
  "executions_with_active_run_on_cluster s rs cluster =
     sort (map fst (filter (\<lambda>(i, exe). (ex_cluster exe = cluster \<or> cluster \<in> set (ex_fan_out_targets exe))
        \<and> current_run rs i \<noteq> None) (ct_executions s)))"

definition list_executions_by_scenario :: "catalog \<Rightarrow> int \<Rightarrow> execution list" where
  "list_executions_by_scenario s scenarioID =
     newest_first (map snd (filter (\<lambda>(i, c). list_ex (\<lambda>ep. en_scenario_id ep = scenarioID) (mget_or [] (ct_exec s) i))
       (ct_executions s)))"

definition delete_execution :: "int \<Rightarrow> (port_err, catalog, unit) act" where
  "delete_execution i s =
     (if mget (ct_executions s) i = None then (Inl PortErrNotFound, s)
      else (Inr (), s\<lparr>ct_executions := mdel i (ct_executions s), ct_exec_data := mdel i (ct_exec_data s),
                      ct_exec := mdel i (ct_exec s)\<rparr>))"

definition add_execution_file :: "int \<Rightarrow> string \<Rightarrow> (port_err, catalog, unit) act" where
  "add_execution_file executionID filename s =
     (let files = mget_or [] (ct_exec_data s) executionID in
      if filename \<in> set files then (Inl PortErrFileExists, s)
      else (Inr (), s\<lparr>ct_exec_data := mput executionID (files @ [filename]) (ct_exec_data s)\<rparr>))"

definition execution_files_for :: "catalog \<Rightarrow> int \<Rightarrow> string list" where
  "execution_files_for s executionID = mget_or [] (ct_exec_data s) executionID"

definition delete_execution_file :: "int \<Rightarrow> string \<Rightarrow> (port_err, catalog, unit) act" where
  "delete_execution_file executionID filename s =
     (let files = mget_or [] (ct_exec_data s) executionID in
      if filename \<notin> set files then (Inl PortErrNotFound, s)
      else (Inr (), s\<lparr>ct_exec_data := mput executionID (removeAll filename files) (ct_exec_data s)\<rparr>))"

definition stored_entries :: "entry list \<Rightarrow> entry list" where
  "stored_entries = map (\<lambda>ep. ep\<lparr>en_name := ''''\<rparr>)"

definition store_load_profile :: "int \<Rightarrow> bool \<Rightarrow> entry list \<Rightarrow> (port_err, catalog, unit) act" where
  "store_load_profile executionID csvSplit scenarios s =
     (case mget (ct_executions s) executionID of
        None \<Rightarrow> (Inl PortErrNotFound, s)
      | Some c \<Rightarrow> (Inr (), s\<lparr>ct_exec := mput executionID (stored_entries scenarios) (ct_exec s),
           ct_executions := mput executionID (c\<lparr>ex_csv_split := csvSplit\<rparr>) (ct_executions s)\<rparr>))"

definition load_profile_for :: "catalog \<Rightarrow> int \<Rightarrow> entry list" where
  "load_profile_for s executionID = mget_or [] (ct_exec s) executionID"

definition set_execution_criteria :: "int \<Rightarrow> string list \<Rightarrow> (port_err, catalog, unit) act" where
  "set_execution_criteria executionID criteria s =
     (Inr (), s\<lparr>ct_exec_criteria := mput executionID criteria (ct_exec_criteria s)\<rparr>)"

definition criteria_for :: "catalog \<Rightarrow> int \<Rightarrow> string list" where
  "criteria_for s executionID = mget_or [] (ct_exec_criteria s) executionID"

definition set_pending_correlation_id :: "int \<Rightarrow> string \<Rightarrow> (port_err, catalog, unit) act" where
  "set_pending_correlation_id executionID correlationID s =
     (if mget (ct_executions s) executionID = None then (Inl PortErrNotFound, s)
      else (Inr (), s\<lparr>ct_pending_correlation := mput executionID correlationID (ct_pending_correlation s)\<rparr>))"

definition pending_correlation_id :: "catalog \<Rightarrow> int \<Rightarrow> port_err + string" where
  "pending_correlation_id s executionID =
     (if mget (ct_executions s) executionID = None then Inl PortErrNotFound
      else Inr (mget_or '''' (ct_pending_correlation s) executionID))"

definition touch_activity :: "time \<Rightarrow> int \<Rightarrow> (port_err, catalog, unit) act" where
  "touch_activity now executionID s =
     (Inr (), s\<lparr>ct_last_activity := mput executionID now (ct_last_activity s),
        ct_touch_count := mput executionID (i64 (mget_or 0 (ct_touch_count s) executionID + 1)) (ct_touch_count s)\<rparr>)"

definition last_activity :: "catalog \<Rightarrow> int \<Rightarrow> time option" where
  "last_activity s executionID =
     (if mget (ct_executions s) executionID = None then None else mget (ct_last_activity s) executionID)"

definition store_execution_config :: "int \<Rightarrow> bool \<Rightarrow> entry list \<Rightarrow> string list \<Rightarrow> (port_err, catalog, unit) act" where
  "store_execution_config executionID csvSplit entries criteria s =
     (case mget (ct_executions s) executionID of
        None \<Rightarrow> (Inl PortErrNotFound, s)
      | Some c \<Rightarrow> (Inr (), s\<lparr>ct_exec := mput executionID (stored_entries entries) (ct_exec s),
           ct_executions := mput executionID (c\<lparr>ex_csv_split := csvSplit\<rparr>) (ct_executions s),
           ct_exec_criteria := mput executionID criteria (ct_exec_criteria s)\<rparr>))"

section \<open>Well-formedness\<close>

text \<open>Projects, scenarios and executions are filed under the ids the sequences issued.\<close>

definition ids_ok :: "('a \<Rightarrow> int) \<Rightarrow> int \<Rightarrow> (int, 'a) gomap \<Rightarrow> bool" where
  "ids_ok f n m \<longleftrightarrow> wf_map m \<and> (\<forall>i x. mget m i = Some x \<longrightarrow> f x = i \<and> 0 < i \<and> i \<le> n)"

definition catalog_ok :: "catalog \<Rightarrow> bool" where
  "catalog_ok s \<longleftrightarrow> 0 \<le> ct_project_seq s \<and> 0 \<le> ct_plan_seq s \<and> 0 \<le> ct_coll_seq s
     \<and> ids_ok pr_id (ct_project_seq s) (ct_projects s) \<and> ids_ok sc_id (ct_plan_seq s) (ct_scenarios s)
     \<and> ids_ok ex_id (ct_coll_seq s) (ct_executions s)"

lemma ids_ok_create: "ids_ok f n m \<Longrightarrow> 0 \<le> n \<Longrightarrow> f x = n + 1 \<Longrightarrow> ids_ok f (n + 1) (mput (n + 1) x m)"
  by (auto simp: ids_ok_def split: if_splits) (metis add_increasing2 dual_order.trans zero_le_one less_imp_le le_add_same_cancel1)+

lemma ids_ok_update: "ids_ok f n m \<Longrightarrow> mget m i = Some y \<Longrightarrow> f x = f y \<Longrightarrow> ids_ok f n (mput i x m)"
  by (auto simp: ids_ok_def split: if_splits)

lemma ids_ok_delete: "ids_ok f n m \<Longrightarrow> ids_ok f n (mdel i m)"
  by (auto simp: ids_ok_def split: if_splits)

lemma ids_ok_fresh: "ids_ok f n m \<Longrightarrow> mget m (n + 1) = None"
  unfolding ids_ok_def by (metis add_le_same_cancel1 not_None_eq not_one_le_zero)

lemma ids_okD: "ids_ok f n m \<Longrightarrow> mget m i = Some x \<Longrightarrow> f x = i"
  by (simp add: ids_ok_def)

lemma catalog_keeps [keeps_rules]:
  "keeps catalog_ok (create_project now p)" "keeps catalog_ok (delete_project i)"
  "keeps catalog_ok (create_scenario now sc)" "keeps catalog_ok (delete_scenario i)"
  "keeps catalog_ok (add_scenario_file i f b)" "keeps catalog_ok (delete_scenario_file i f b)"
  "keeps catalog_ok (set_scenario_kind i k e)" "keeps catalog_ok (set_scenario_requests i f)"
  "keeps catalog_ok (update_scenario sc)" "keeps catalog_ok (delete_scenario_requests i)"
  "keeps catalog_ok (create_execution now c)" "keeps catalog_ok (delete_execution i)"
  "keeps catalog_ok (add_execution_file i f)" "keeps catalog_ok (delete_execution_file i f)"
  "keeps catalog_ok (store_load_profile i b es)" "keeps catalog_ok (set_execution_criteria i cs)"
  "keeps catalog_ok (set_pending_correlation_id i f)" "keeps catalog_ok (touch_activity now i)"
  "keeps catalog_ok (store_execution_config i b es cs)"
  unfolding keeps_def catalog_ok_def create_project_def delete_project_def create_scenario_def delete_scenario_def
    add_scenario_file_def delete_scenario_file_def set_scenario_kind_def set_scenario_requests_def update_scenario_def
    delete_scenario_requests_def create_execution_def delete_execution_def add_execution_file_def delete_execution_file_def
    store_load_profile_def set_execution_criteria_def set_pending_correlation_id_def touch_activity_def
    store_execution_config_def Let_def
  by (auto intro: ids_ok_create ids_ok_update ids_ok_delete dest: ids_okD split: option.split)

text \<open>
  What is stored is what is read back. An execution that is created is found under its new
  id with everything but the id and a missing creation time as given; a load profile stored
  for it is read back entry for entry except for the names, with the criteria stored beside
  it, and no other execution's profile or criteria change; and no id is issued twice.
\<close>

theorem execution_config_roundtrip:
  assumes "catalog_ok s" "create_execution now c s = (Inr i, s1)"
    and "store_execution_config i split es crit s1 = (r, s2)"
  shows "mget (ct_executions s) i = None \<and> r = Inr ()
    \<and> get_execution s2 i = Inr (c\<lparr>ex_id := i, ex_csv_split := split,
          ex_created_time := (if ex_created_time c = 0 then now else ex_created_time c)\<rparr>)
    \<and> load_profile_for s2 i = map (\<lambda>e. e\<lparr>en_name := ''''\<rparr>) es \<and> criteria_for s2 i = crit
    \<and> (\<forall>j. j \<noteq> i \<longrightarrow> load_profile_for s2 j = load_profile_for s j \<and> criteria_for s2 j = criteria_for s j
         \<and> get_execution s2 j = get_execution s j)"
proof -
  have i: "i = ct_coll_seq s + 1" "s1 = snd (create_execution now c s)"
    using assms(2) by (auto simp: create_execution_def Let_def)
  have "mget (ct_executions s) i = None" using assms(1) ids_ok_fresh i(1) by (auto simp: catalog_ok_def)
  then show ?thesis using assms(3) i
    by (auto simp: create_execution_def store_execution_config_def Let_def get_execution_def found_def load_profile_for_def
        criteria_for_def mget_or_def stored_entries_def)
qed

theorem execution_config_roundtrip_witness:
  "\<exists>s1 s2. create_execution 5 (projr (execution_new ''nightly'' 1)) new_catalog = (Inr 1, s1)
     \<and> store_execution_config 1 False [demo_entry] [''p95<1s''] s1 = (Inr (), s2)
     \<and> load_profile_for s2 1 = [demo_entry\<lparr>en_name := ''''\<rparr>]"
proof -
  have ok: "catalog_ok new_catalog" by (simp add: catalog_ok_def ids_ok_def new_catalog_def)
  obtain s1 where 1: "create_execution 5 (projr (execution_new ''nightly'' 1)) new_catalog = (Inr 1, s1)"
    by (simp add: create_execution_def new_catalog_def Let_def)
  obtain r s2 where 2: "store_execution_config 1 False [demo_entry] [''p95<1s''] s1 = (r, s2)" by fastforce
  show ?thesis using execution_config_roundtrip[OF ok 1 2] 1 2 by auto
qed

end
