(* ===== verification/Ledger.thy ===== *)
theory Ledger
  imports Run_Store
begin

text \<open>
  Reservations (\<open>internal/domain/reservation\<close>) and the reservation ledger of
  \<open>internal/ports/fake/reservation_repository.go\<close>, with the load a ledger puts on a tenant's
  cluster at an instant and over a window.
\<close>

section \<open>Reservations\<close>

definition DefaultCeiling :: int where "DefaultCeiling = 10"

record reservation =
  rv_id :: int
  rv_tenant_id :: int
  rv_cluster :: string
  rv_engine_count :: int
  rv_start :: time
  rv_end :: time
  rv_execution_id :: int

datatype reservation_err = RvErrEngineCountInvalid | RvErrWindowInvalid

definition reservation_validate :: "reservation \<Rightarrow> reservation_err option" where
  "reservation_validate r =
     (if rv_engine_count r \<le> 0 then Some RvErrEngineCountInvalid
      else if \<not> rv_start r < rv_end r then Some RvErrWindowInvalid
      else None)"

definition overlaps :: "reservation \<Rightarrow> reservation \<Rightarrow> bool" where
  "overlaps r other \<longleftrightarrow> rv_start r < rv_end other \<and> rv_start other < rv_end r"

section \<open>The ledger\<close>

record ledger =
  lg_seq :: int
  lg_reservations :: "(int, reservation) gomap"
  lg_ceilings :: "(int \<times> string, int) gomap"

definition new_ledger :: ledger where
  "new_ledger = \<lparr>lg_seq = 0, lg_reservations = [], lg_ceilings = []\<rparr>"

definition create_reservation :: "reservation \<Rightarrow> (port_err, ledger, int) act" where
  "create_reservation r s =
     (let i = lg_seq s + 1 in (Inr i, s\<lparr>lg_seq := i, lg_reservations := mput i (r\<lparr>rv_id := i\<rparr>) (lg_reservations s)\<rparr>))"

definition delete_reservation :: "int \<Rightarrow> (port_err, ledger, unit) act" where
  "delete_reservation i s =
     (if mget (lg_reservations s) i = None then (Inl PortErrNotFound, s)
      else (Inr (), s\<lparr>lg_reservations := mdel i (lg_reservations s)\<rparr>))"

definition release_reservations_for_execution :: "int \<Rightarrow> (port_err, ledger, unit) act" where
  "release_reservations_for_execution executionID s =
     (Inr (), s\<lparr>lg_reservations := filter (\<lambda>(i, r). rv_execution_id r \<noteq> executionID) (lg_reservations s)\<rparr>)"

definition reservations_in_window :: "ledger \<Rightarrow> int \<Rightarrow> string \<Rightarrow> time \<Rightarrow> time \<Rightarrow> reservation list" where
  "reservations_in_window s tenantID cluster t_start t_end =
     (let probe = \<lparr>rv_id = 0, rv_tenant_id = 0, rv_cluster = '''', rv_engine_count = 0, rv_start = t_start,
                   rv_end = t_end, rv_execution_id = 0\<rparr>
      in filter (\<lambda>r. rv_tenant_id r = tenantID \<and> rv_cluster r = cluster \<and> overlaps probe r) (mvals (lg_reservations s)))"

definition reservations_for_tenant :: "ledger \<Rightarrow> int \<Rightarrow> string \<Rightarrow> reservation list" where
  "reservations_for_tenant s tenantID cluster =
     filter (\<lambda>r. rv_tenant_id r = tenantID \<and> rv_cluster r = cluster) (mvals (lg_reservations s))"

text \<open>\<open>GetQuota\<close>: the ceiling and whether one was configured.\<close>

definition get_quota :: "ledger \<Rightarrow> int \<Rightarrow> string \<Rightarrow> int \<times> bool" where
  "get_quota s tenantID cluster =
     (case mget (lg_ceilings s) (tenantID, cluster) of None \<Rightarrow> (0, False) | Some c \<Rightarrow> (c, True))"

definition set_ceiling :: "int \<Rightarrow> string \<Rightarrow> int \<Rightarrow> (port_err, ledger, unit) act" where
  "set_ceiling tenantID cluster n s =
     (Inr (), s\<lparr>lg_ceilings := mput (tenantID, cluster) n (lg_ceilings s)\<rparr>)"

definition list_cluster_quotas :: "ledger \<Rightarrow> string \<Rightarrow> (int \<times> int) list" where
  "list_cluster_quotas s cluster =
     sort_key fst (map (\<lambda>((t, _), c). (t, c)) (filter (\<lambda>((_, cl), _). cl = cluster) (lg_ceilings s)))"

section \<open>Load\<close>

text \<open>The reservations of a tenant on a cluster that hold at an instant, and their engines.\<close>

definition holds_at :: "int \<Rightarrow> string \<Rightarrow> time \<Rightarrow> reservation \<Rightarrow> bool" where
  "holds_at tid cl t r \<longleftrightarrow> rv_tenant_id r = tid \<and> rv_cluster r = cl \<and> rv_start r \<le> t \<and> t < rv_end r"

definition engines_of :: "reservation list \<Rightarrow> int" where
  "engines_of rs = sum_list (map rv_engine_count rs)"

definition load_at :: "ledger \<Rightarrow> int \<Rightarrow> string \<Rightarrow> time \<Rightarrow> int" where
  "load_at s tid cl t = engines_of (filter (holds_at tid cl t) (mvals (lg_reservations s)))"

text \<open>Reservations are filed under their ids and were validated.\<close>

definition ledger_ok :: "ledger \<Rightarrow> bool" where
  "ledger_ok s \<longleftrightarrow> wf_map (lg_reservations s) \<and>
     (\<forall>i r. mget (lg_reservations s) i = Some r \<longrightarrow> rv_id r = i \<and> i \<le> lg_seq s \<and> reservation_validate r = None)"

lemma ledger_ok_new: "ledger_ok new_ledger"
  by (simp add: ledger_ok_def new_ledger_def)

lemma ledger_fresh: "ledger_ok s \<Longrightarrow> mget (lg_reservations s) (lg_seq s + 1) = None"
  unfolding ledger_ok_def by (metis add_le_same_cancel1 not_None_eq not_one_le_zero)

lemma create_reservation_eq:
  assumes "ledger_ok s"
  shows "create_reservation r s = (Inr (lg_seq s + 1), s\<lparr>lg_seq := lg_seq s + 1,
    lg_reservations := lg_reservations s @ [(lg_seq s + 1, r\<lparr>rv_id := lg_seq s + 1\<rparr>)]\<rparr>)"
  using ledger_fresh[OF assms] by (simp add: create_reservation_def Let_def mput_fresh)

lemma validate_rv_id [simp]: "reservation_validate (r\<lparr>rv_id := i\<rparr>) = reservation_validate r"
  by (simp add: reservation_validate_def)

lemma create_reservation_ok:
  assumes "ledger_ok s" "reservation_validate r = None"
  shows "ledger_ok (snd (create_reservation r s))"
  using assms unfolding ledger_ok_def create_reservation_def Let_def
  by (auto split: if_splits) (metis add.commute add_increasing zero_le_one)

lemma mget_filter_map:
  assumes "wf_map m"
  shows "mget (filter (\<lambda>(k, v). P v) m) k = (case mget m k of None \<Rightarrow> None | Some v \<Rightarrow> if P v then Some v else None)"
proof -
  have w: "wf_map (filter (\<lambda>(k, v). P v) m)" using assms by simp
  have eq: "mget (filter (\<lambda>(k, v). P v) m) k = Some v \<longleftrightarrow> mget m k = Some v \<and> P v" for v
    using mget_in_set[OF w] mget_in_set[OF assms] by simp
  show ?thesis
  proof (cases "mget (filter (\<lambda>(k, v). P v) m) k")
    case None
    then show ?thesis using eq by (cases "mget m k") auto
  next
    case (Some v)
    then show ?thesis using eq by simp
  qed
qed

lemma delete_reservation_ok [keeps_rules]: "keeps ledger_ok (delete_reservation i)"
  by (auto simp: keeps_def delete_reservation_def ledger_ok_def split: if_splits)

lemma release_ok [keeps_rules]: "keeps ledger_ok (release_reservations_for_execution eid)"
  by (auto simp: keeps_def release_reservations_for_execution_def ledger_ok_def mget_filter_map split: option.splits if_splits)

lemma set_ceiling_ok [keeps_rules]: "keeps ledger_ok (set_ceiling t c n)"
  by (auto simp: keeps_def set_ceiling_def ledger_ok_def)

lemma validate_None: "reservation_validate r = None \<longleftrightarrow> 0 < rv_engine_count r \<and> rv_start r < rv_end r"
  by (auto simp: reservation_validate_def)

lemma ledger_positive: "ledger_ok s \<Longrightarrow> r \<in> set (mvals (lg_reservations s)) \<Longrightarrow> 0 < rv_engine_count r \<and> rv_start r < rv_end r"
  by (auto simp: ledger_ok_def in_mvals validate_None)

lemma engines_of_filter_mono:
  assumes "\<forall>r \<in> set rs. 0 \<le> rv_engine_count r" "\<And>r. r \<in> set rs \<Longrightarrow> P r \<Longrightarrow> Q r"
  shows "engines_of (filter P rs) \<le> engines_of (filter Q rs)"
  using assms by (induction rs) (auto simp: engines_of_def)

lemma engines_of_nonneg: "\<forall>r \<in> set rs. 0 \<le> rv_engine_count r \<Longrightarrow> 0 \<le> engines_of rs"
  by (induction rs) (auto simp: engines_of_def)

text \<open>What a window counts covers what holds at any of its instants.\<close>

lemma load_at_window:
  assumes "ledger_ok s" "t_start \<le> t" "t < t_end"
  shows "load_at s tid cl t \<le> engines_of (reservations_in_window s tid cl t_start t_end)"
  unfolding load_at_def reservations_in_window_def Let_def
  using assms by (intro engines_of_filter_mono) (auto simp: holds_at_def overlaps_def dest: ledger_positive intro: less_imp_le)

end
