(* ===== verification/Cluster.thy ===== *)
theory Cluster
  imports Catalog
begin

text \<open>
  The in-memory cluster scheduler of \<open>internal/ports/fake/scheduler.go\<close> and the object store of
  \<open>internal/ports/fake/objectstore.go\<close>. The scheduler keeps one set of deployments for all
  clusters, as the code does; contents of files and logs are text.
\<close>

section \<open>The scheduler\<close>

record shard_spec =
  ss_index :: int
  ss_config :: string
  ss_concurrency :: int

record deploy_spec =
  dp_cluster :: string
  dp_project_id :: int
  dp_execution_id :: int
  dp_scenario_id :: int
  dp_image :: string
  dp_cpu :: string
  dp_memory :: string
  dp_shards :: "shard_spec list"
  dp_scenario_files :: "(string, string) gomap"

record scenario_ref =
  sr_scenario_id :: int
  sr_shards :: int

record scenario_readiness =
  rd_scenario_id :: int
  rd_engines_wanted :: int
  rd_engines_deployed :: int
  rd_reachable :: bool

record execution_status =
  xs_scenarios :: "scenario_readiness list"
  xs_pool_size :: int

record engine_detail =
  ed_name :: string
  ed_status :: string
  ed_created_time :: time

record execution_detail =
  xd_ingress_ip :: string
  xd_engines :: "engine_detail list"

record scheduler =
  sd_deployments :: "(int, (int, deploy_spec \<times> time) gomap) gomap"
  sd_unreachable :: bool
  sd_not_ready_calls :: int
  sd_pod_log_text :: string
  sd_pod_log_err :: "port_err option"
  sd_ingress_ip :: string

definition new_scheduler :: scheduler where
  "new_scheduler = \<lparr>sd_deployments = [], sd_unreachable = False, sd_not_ready_calls = 0,
     sd_pod_log_text = ''fake engine log'', sd_pod_log_err = None, sd_ingress_ip = ''10.0.0.1''\<rparr>"

definition deploy_scenario :: "time \<Rightarrow> deploy_spec \<Rightarrow> (port_err, scheduler, unit) act" where
  "deploy_scenario now spec s =
     (let scenarios = mget_or [] (sd_deployments s) (dp_execution_id spec);
          deployAt = (case mget scenarios (dp_scenario_id spec) of Some (_, t) \<Rightarrow> t | None \<Rightarrow> now)
      in (Inr (), s\<lparr>sd_deployments := mput (dp_execution_id spec)
            (mput (dp_scenario_id spec) (spec, deployAt) scenarios) (sd_deployments s)\<rparr>))"

definition last_deploy :: "scheduler \<Rightarrow> int \<Rightarrow> int \<Rightarrow> deploy_spec option" where
  "last_deploy s executionID scenarioID =
     map_option fst (mget (mget_or [] (sd_deployments s) executionID) scenarioID)"

definition readiness :: "scheduler \<Rightarrow> int \<Rightarrow> scenario_ref \<Rightarrow> scenario_readiness" where
  "readiness s executionID ref =
     (case last_deploy s executionID (sr_scenario_id ref) of
        None \<Rightarrow> \<lparr>rd_scenario_id = sr_scenario_id ref, rd_engines_wanted = sr_shards ref, rd_engines_deployed = 0, rd_reachable = False\<rparr>
      | Some spec \<Rightarrow> \<lparr>rd_scenario_id = sr_scenario_id ref, rd_engines_wanted = sr_shards ref,
          rd_engines_deployed = int (length (dp_shards spec)), rd_reachable = \<not> sd_unreachable s\<rparr>)"

definition sched_execution_status :: "string \<Rightarrow> int \<Rightarrow> scenario_ref list \<Rightarrow> (port_err, scheduler, execution_status) act" where
  "sched_execution_status cluster executionID scenarios s =
     (if 0 < sd_not_ready_calls s
      then (Inr \<lparr>xs_scenarios = [], xs_pool_size = 0\<rparr>, s\<lparr>sd_not_ready_calls := sd_not_ready_calls s - 1\<rparr>)
      else let prs = map (readiness s executionID) scenarios
           in (Inr \<lparr>xs_scenarios = prs, xs_pool_size = sum64 (map rd_engines_deployed prs) 0\<rparr>, s))"

definition engine_name :: "deploy_spec \<Rightarrow> int \<Rightarrow> int \<Rightarrow> nat \<Rightarrow> string" where
  "engine_name spec executionID scenarioID i =
     ''engine-'' @ itoa (dp_project_id spec) @ ''-'' @ itoa executionID @ ''-'' @ itoa scenarioID @ ''-'' @ itoa (int i)"

definition sched_engine_detail :: "scheduler \<Rightarrow> int \<Rightarrow> execution_detail" where
  "sched_engine_detail s executionID =
     (let deploys = mget_or [] (sd_deployments s) executionID
      in \<lparr>xd_ingress_ip = sd_ingress_ip s,
          xd_engines = concat (map (\<lambda>scenarioID. case mget deploys scenarioID of None \<Rightarrow> [] | Some (spec, deployAt) \<Rightarrow>
             map (\<lambda>i. \<lparr>ed_name = engine_name spec executionID scenarioID i, ed_status = ''Running'', ed_created_time = deployAt\<rparr>)
               [0..<length (dp_shards spec)]) (sort (mkeys deploys)))\<rparr>)"

definition purge_deployment :: "string \<Rightarrow> int \<Rightarrow> (port_err, scheduler, unit) act" where
  "purge_deployment cluster executionID s = (Inr (), s\<lparr>sd_deployments := mdel executionID (sd_deployments s)\<rparr>)"

definition pod_log :: "scheduler \<Rightarrow> string \<Rightarrow> int \<Rightarrow> int \<Rightarrow> int \<Rightarrow> port_err + string" where
  "pod_log s cluster executionID scenarioID shard =
     (case last_deploy s executionID scenarioID of
        None \<Rightarrow> Inl PortErrEnginesUnreachable
      | Some spec \<Rightarrow>
          if shard < 0 \<or> int (length (dp_shards spec)) \<le> shard then Inl PortErrEnginesUnreachable
          else case sd_pod_log_err s of
            Some e \<Rightarrow> Inl e
          | None \<Rightarrow> Inr (sd_pod_log_text s @ '' (shard '' @ itoa shard @ '')''))"

definition earliest :: "time list \<Rightarrow> time option" where
  "earliest ts = (case ts of [] \<Rightarrow> None | t # ts \<Rightarrow> Some (fold min ts t))"

definition deployed_executions :: "scheduler \<Rightarrow> string \<Rightarrow> (int \<times> time) list" where
  "deployed_executions s cluster =
     concat (map (\<lambda>(executionID, scenarios). case earliest (map snd (mvals scenarios)) of None \<Rightarrow> [] | Some t \<Rightarrow> [(executionID, t)])
       (sd_deployments s))"

section \<open>The object store\<close>

record object_store =
  os_objects :: "(string, string) gomap"
  os_upload_err :: "port_err option"

definition new_object_store :: object_store where
  "new_object_store = \<lparr>os_objects = [], os_upload_err = None\<rparr>"

definition upload :: "string \<Rightarrow> string \<Rightarrow> (port_err, object_store, unit) act" where
  "upload key content s =
     (case os_upload_err s of Some e \<Rightarrow> (Inl e, s) | None \<Rightarrow> (Inr (), s\<lparr>os_objects := mput key content (os_objects s)\<rparr>))"

definition download :: "object_store \<Rightarrow> string \<Rightarrow> port_err + string" where
  "download s key = (case mget (os_objects s) key of None \<Rightarrow> Inl PortErrObjectNotFound | Some d \<Rightarrow> Inr d)"

definition delete_object :: "string \<Rightarrow> (port_err, object_store, unit) act" where
  "delete_object key s = (Inr (), s\<lparr>os_objects := mdel key (os_objects s)\<rparr>)"

end
