(* ===== verification/Calendar.thy ===== *)
theory Calendar
  imports Ledger
begin

text \<open>
  Schedules (\<open>internal/domain/schedule\<close>) and the schedule repository of
  \<open>internal/ports/fake/schedule_repository.go\<close>. The cron library is a parameter: \<open>cron\<close> parses an
  expression into its \<open>Next\<close> function, which returns the zero time when there is no next
  activation.
\<close>

section \<open>Schedules\<close>

datatype schedule_err = SlErrExecutionRequired | SlErrKindInvalid | SlErrFireAtRequired
  | SlErrRecurrenceRequired | SlErrRecurrenceInvalid | SlErrWindowInvalid

definition KindOneShot :: string where "KindOneShot = ''one_shot''"
definition KindRecurring :: string where "KindRecurring = ''recurring''"

record schedule =
  sl_id :: int
  sl_execution_id :: int
  sl_tenant_id :: int
  sl_kind :: string
  sl_fire_at :: "time option"
  sl_recurrence :: string
  sl_active :: bool

type_synonym cron = "string \<Rightarrow> (time \<Rightarrow> time) option"

definition schedule_validate :: "cron \<Rightarrow> schedule \<Rightarrow> schedule_err option" where
  "schedule_validate cron s =
     (if sl_execution_id s \<le> 0 then Some SlErrExecutionRequired
      else if sl_kind s = KindOneShot then (if sl_fire_at s = None then Some SlErrFireAtRequired else None)
      else if sl_kind s = KindRecurring
      then (if sl_recurrence s = '''' then Some SlErrRecurrenceRequired
            else if cron (sl_recurrence s) = None then Some SlErrRecurrenceInvalid else None)
      else Some SlErrKindInvalid)"

text \<open>The loop of \<open>Occurrences\<close>: activations after \<open>t\<close> and before \<open>to\<close>. Nothing in the code
  bounds it, so not returning is \<open>None\<close>.\<close>

partial_function (option) activations :: "(time \<Rightarrow> time) \<Rightarrow> time \<Rightarrow> time \<Rightarrow> time list option" where
  "activations nxt t_to t =
     (let n = nxt t in
      if n = 0 \<or> \<not> n < t_to then Some []
      else Option.bind (activations nxt t_to n) (\<lambda>ts. Some (n # ts)))"

declare activations.simps [code]

text \<open>\<open>Occurrences\<close>, \<open>None\<close> where it does not return.\<close>

definition occurrences :: "cron \<Rightarrow> schedule \<Rightarrow> time \<Rightarrow> time \<Rightarrow> (schedule_err + time list) option" where
  "occurrences cron s t_from t_to =
     (if \<not> t_from < t_to then Some (Inl SlErrWindowInvalid)
      else if sl_kind s = KindOneShot
      then case sl_fire_at s of
             None \<Rightarrow> Some (Inl SlErrFireAtRequired)
           | Some f \<Rightarrow> Some (Inr (if \<not> f < t_from \<and> f < t_to then [f] else []))
      else if sl_kind s = KindRecurring
      then case cron (sl_recurrence s) of
             None \<Rightarrow> Some (Inl SlErrRecurrenceInvalid)
           | Some nxt \<Rightarrow> map_option Inr (activations nxt t_to (t_from - 1))
      else Some (Inl SlErrKindInvalid))"

section \<open>The repository\<close>

datatype occurrence_status = OccurrenceReserved | OccurrenceRejected | OccurrenceFired | OccurrenceCompleted

record occurrence =
  oo_id :: int
  oo_schedule_id :: int
  oo_fire_time :: time
  oo_status :: occurrence_status
  oo_reservation_id :: "int option"

record calendar =
  ca_schedule_seq :: int
  ca_schedules :: "(int, schedule) gomap"
  ca_occurrence_seq :: int
  ca_occurrences :: "(int, occurrence) gomap"
  ca_horizon_run_at :: "time option"

definition new_calendar :: calendar where
  "new_calendar = \<lparr>ca_schedule_seq = 0, ca_schedules = [], ca_occurrence_seq = 0, ca_occurrences = [], ca_horizon_run_at = None\<rparr>"

definition create_schedule :: "schedule \<Rightarrow> (port_err, calendar, int) act" where
  "create_schedule sc s =
     (let i = ca_schedule_seq s + 1
      in (Inr i, s\<lparr>ca_schedule_seq := i, ca_schedules := mput i (sc\<lparr>sl_id := i\<rparr>) (ca_schedules s)\<rparr>))"

definition get_schedule :: "calendar \<Rightarrow> int \<Rightarrow> port_err + schedule" where
  "get_schedule s i = (case mget (ca_schedules s) i of None \<Rightarrow> Inl PortErrNotFound | Some sc \<Rightarrow> Inr sc)"

definition list_schedules_by_execution :: "calendar \<Rightarrow> int \<Rightarrow> schedule list" where
  "list_schedules_by_execution s executionID = filter (\<lambda>sc. sl_execution_id sc = executionID) (mvals (ca_schedules s))"

definition list_active_recurring_schedules :: "calendar \<Rightarrow> schedule list" where
  "list_active_recurring_schedules s = filter (\<lambda>sc. sl_kind sc = KindRecurring \<and> sl_active sc) (mvals (ca_schedules s))"

definition delete_schedule :: "int \<Rightarrow> (port_err, calendar, unit) act" where
  "delete_schedule i s =
     (if mget (ca_schedules s) i = None then (Inl PortErrNotFound, s)
      else (Inr (), s\<lparr>ca_schedules := mdel i (ca_schedules s),
         ca_occurrences := filter (\<lambda>(_, o'). oo_schedule_id o' \<noteq> i) (ca_occurrences s)\<rparr>))"

definition create_occurrence :: "occurrence \<Rightarrow> (port_err, calendar, int) act" where
  "create_occurrence oc s =
     (let i = ca_occurrence_seq s + 1
      in (Inr i, s\<lparr>ca_occurrence_seq := i, ca_occurrences := mput i (oc\<lparr>oo_id := i\<rparr>) (ca_occurrences s)\<rparr>))"

definition occurrences_for_schedule :: "calendar \<Rightarrow> int \<Rightarrow> occurrence list" where
  "occurrences_for_schedule s scheduleID =
     sort_key oo_fire_time (filter (\<lambda>oc. oo_schedule_id oc = scheduleID) (mvals (ca_occurrences s)))"

text \<open>The loop of \<open>ClaimDueOccurrence\<close>: the due occurrence found so far.\<close>

definition due_step :: "time \<Rightarrow> occurrence \<Rightarrow> occurrence option \<Rightarrow> occurrence option" where
  "due_step now oc claimed =
     (if oo_status oc \<noteq> OccurrenceReserved \<or> now < oo_fire_time oc then claimed
      else case claimed of
        None \<Rightarrow> Some oc
      | Some c \<Rightarrow> if oo_fire_time oc < oo_fire_time c then Some oc else claimed)"

definition claim_due_occurrence :: "time \<Rightarrow> (port_err, calendar, occurrence option) act" where
  "claim_due_occurrence now s =
     (case fold (due_step now) (mvals (ca_occurrences s)) None of
        None \<Rightarrow> (Inr None, s)
      | Some claimed \<Rightarrow>
          let claimed = claimed\<lparr>oo_status := OccurrenceFired\<rparr>
          in (Inr (Some claimed), s\<lparr>ca_occurrences := mput (oo_id claimed) claimed (ca_occurrences s)\<rparr>))"

definition record_horizon_extension :: "time \<Rightarrow> (port_err, calendar, unit) act" where
  "record_horizon_extension t s = (Inr (), s\<lparr>ca_horizon_run_at := Some t\<rparr>)"

definition last_horizon_extension :: "calendar \<Rightarrow> time option" where
  "last_horizon_extension s = ca_horizon_run_at s"

end
