(* ===== verification/Campaign.thy ===== *)
theory Campaign
  imports Catalog
begin

text \<open>
  Campaigns (\<open>internal/domain/campaign/campaign.go\<close>) and their repository
  (\<open>internal/ports/fake/campaign_repository.go\<close>).
\<close>

record campaign_service =
  cs_project_id :: int
  cs_execution_id :: int

record campaign =
  cp_id :: int
  cp_name :: string
  cp_tenant_id :: int
  cp_start :: time
  cp_end :: time
  cp_services :: "campaign_service list"
  cp_aborted_at :: "time option"

datatype campaign_err = CpErrNameRequired | CpErrWindowInvalid | CpErrServicesRequired | CpErrDuplicateService
  | CpErrProjectRequired | CpErrServiceExecutionInvalid | CpErrServiceExecutionMismatch
  | CpErrServiceProjectTenantMismatch | CpErrCampaignStarted

fun services_validate :: "campaign_service list \<Rightarrow> int list \<Rightarrow> campaign_err option" where
  "services_validate [] seen = None"
| "services_validate (svc # svcs) seen =
     (if cs_project_id svc \<le> 0 then Some CpErrProjectRequired
      else if cs_execution_id svc \<le> 0 then Some CpErrServiceExecutionInvalid
      else if cs_project_id svc \<in> set seen then Some CpErrDuplicateService
      else services_validate svcs (cs_project_id svc # seen))"

definition campaign_validate :: "campaign \<Rightarrow> campaign_err option" where
  "campaign_validate c =
     (if cp_name c = '''' then Some CpErrNameRequired
      else if \<not> cp_start c < cp_end c then Some CpErrWindowInvalid
      else if cp_services c = [] then Some CpErrServicesRequired
      else services_validate (cp_services c) [])"

definition is_active :: "campaign \<Rightarrow> time \<Rightarrow> bool" where
  "is_active c now \<longleftrightarrow> (if cp_aborted_at c \<noteq> None then False else \<not> now < cp_start c \<and> now < cp_end c)"

definition designated_execution :: "campaign \<Rightarrow> int \<Rightarrow> int option" where
  "designated_execution c projectID =
     map_option cs_execution_id (find (\<lambda>svc. cs_project_id svc = projectID) (cp_services c))"

section \<open>The repository\<close>

record campaign_store =
  cm_seq :: int
  cm_campaigns :: "(int, campaign) gomap"

definition new_campaign_store :: campaign_store where
  "new_campaign_store = \<lparr>cm_seq = 0, cm_campaigns = []\<rparr>"

definition create_campaign :: "campaign \<Rightarrow> (port_err, campaign_store, int) act" where
  "create_campaign c s =
     (let i = cm_seq s + 1 in (Inr i, s\<lparr>cm_seq := i, cm_campaigns := mput i (c\<lparr>cp_id := i\<rparr>) (cm_campaigns s)\<rparr>))"

definition get_campaign :: "campaign_store \<Rightarrow> int \<Rightarrow> port_err + campaign" where
  "get_campaign s i = found (mget (cm_campaigns s) i)"

definition list_campaigns_by_tenant :: "campaign_store \<Rightarrow> int \<Rightarrow> campaign list" where
  "list_campaigns_by_tenant s tenantID = sort_key cp_start (filter (\<lambda>c. cp_tenant_id c = tenantID) (mvals (cm_campaigns s)))"

definition list_all_campaigns :: "campaign_store \<Rightarrow> campaign list" where
  "list_all_campaigns s = sort_key cp_start (mvals (cm_campaigns s))"

definition list_campaigns_by_tenants :: "campaign_store \<Rightarrow> int list \<Rightarrow> campaign list" where
  "list_campaigns_by_tenants s tenantIDs =
     sort_key cp_start (filter (\<lambda>c. cp_tenant_id c \<in> set tenantIDs) (mvals (cm_campaigns s)))"

definition list_active_campaigns :: "campaign_store \<Rightarrow> time \<Rightarrow> campaign list" where
  "list_active_campaigns s now = filter (\<lambda>c. is_active c now) (mvals (cm_campaigns s))"

definition abort_campaign :: "int \<Rightarrow> time \<Rightarrow> (port_err, campaign_store, unit) act" where
  "abort_campaign i t s =
     (case mget (cm_campaigns s) i of
        None \<Rightarrow> (Inl PortErrNotFound, s)
      | Some c \<Rightarrow> (Inr (), s\<lparr>cm_campaigns := mput i (c\<lparr>cp_aborted_at := Some t\<rparr>) (cm_campaigns s)\<rparr>))"

definition update_campaign :: "campaign \<Rightarrow> (port_err, campaign_store, unit) act" where
  "update_campaign c s =
     (case mget (cm_campaigns s) (cp_id c) of
        None \<Rightarrow> (Inl PortErrNotFound, s)
      | Some existing \<Rightarrow> (Inr (), s\<lparr>cm_campaigns := mput (cp_id c)
           (existing\<lparr>cp_name := cp_name c, cp_start := cp_start c, cp_end := cp_end c, cp_services := cp_services c\<rparr>)
           (cm_campaigns s)\<rparr>))"

end
