(* ===== verification/Progress.thy ===== *)
theory Progress
  imports Report_View Run_Store
begin

text \<open>
  The measurements of running runs and the reports of finished ones: the working state of
  \<open>internal/ports/fake/reportprogress.go\<close>, the per-second series of \<open>interval_repository.go\<close>
  and the report store of \<open>reportstore.go\<close>.
\<close>

section \<open>State\<close>

record progress_batch =
  pb_run_id :: int
  pb_scenario_id :: int
  pb_shard_index :: int
  pb_cluster :: string
  pb_stream_id :: string
  pb_final :: bool
  pb_exit_code :: "int option"
  pb_intervals :: "interval list"

record shard_state =
  sh_scenario_id :: int
  sh_cluster :: string
  sh_shard_index :: int
  sh_finished :: bool
  sh_exit_code :: "int option"

type_synonym shard_key = "int \<times> string \<times> int"

record shard_stream =
  sm_stream_id :: string
  sm_seq :: int
  sm_finished :: bool
  sm_exit_code :: "int option"

record progress_run =
  pn_acc :: accumulator
  pn_shards :: "(shard_key, shard_stream) gomap"

record series_second =
  sx_engine :: int
  sx_labels :: int
  sx_samples :: int
  sx_failed :: int
  sx_bytes :: int
  sx_latency :: histogram

record progress =
  pg_runs :: "(int, progress_run) gomap"
  pg_series :: "(int, (int, series_second) gomap) gomap"
  pg_absorb_err :: "port_err option"
  pg_discard_err :: "port_err option"

definition new_progress :: progress where
  "new_progress = \<lparr>pg_runs = [], pg_series = [], pg_absorb_err = None, pg_discard_err = None\<rparr>"

definition progress_batch_validate :: "progress_batch \<Rightarrow> port_err option" where
  "progress_batch_validate b =
     (if pb_run_id b \<le> 0 then Some PortErrProgressRunRequired
      else if pb_scenario_id b \<le> 0 then Some PortErrProgressScenarioRequired
      else if list_ex (\<lambda>iv. iv_seq iv \<le> 0) (pb_intervals b) then Some PortErrUnsequencedBatch
      else None)"

section \<open>Absorbing\<close>

definition zero_series :: series_second where
  "zero_series = \<lparr>sx_engine = 0, sx_labels = 0, sx_samples = 0, sx_failed = 0, sx_bytes = 0, sx_latency = []\<rparr>"

definition extend_second :: "interval list \<Rightarrow> series_second \<Rightarrow> series_second" where
  "extend_second rows row =
     (case merge_second rows of (merged, engine) \<Rightarrow>
        row\<lparr>sx_engine := i64 (sx_engine row + engine),
            sx_labels := i64 (sx_labels row + iv_concurrency merged),
            sx_samples := i64 (sx_samples row + iv_samples merged),
            sx_failed := i64 (sx_failed row + iv_failed merged),
            sx_bytes := i64 (sx_bytes row + iv_bytes merged),
            sx_latency := (if iv_latency merged = [] then sx_latency row else hist_merge (sx_latency row) (iv_latency merged))\<rparr>)"

text \<open>The batch's rows by second: a row joins the rows of its second.\<close>

definition by_second :: "interval list \<Rightarrow> (int, interval list) gomap" where
  "by_second fresh = fold (\<lambda>iv m. mput (iv_timestamp iv) (mget_or [] m (iv_timestamp iv) @ [iv]) m) fresh []"

definition absorb_series :: "int \<Rightarrow> interval list \<Rightarrow> progress \<Rightarrow> progress" where
  "absorb_series runID fresh p =
     (let secs = mget_or [] (pg_series p) runID;
          secs = fold (\<lambda>(ts, rows) secs. mput ts (extend_second rows (mget_or zero_series secs ts)) secs) (by_second fresh) secs
      in p\<lparr>pg_series := mput runID secs (pg_series p)\<rparr>)"

text \<open>The loop over a batch's intervals: those past the watermark, and the new watermark.\<close>

fun fresh_from :: "int \<Rightarrow> interval list \<Rightarrow> interval list \<times> int" where
  "fresh_from seq [] = ([], seq)"
| "fresh_from seq (iv # ivs) =
     (if iv_seq iv \<le> seq then fresh_from seq ivs
      else case fresh_from (iv_seq iv) ivs of (rest, seq') \<Rightarrow> (iv # rest, seq'))"

definition batch_key :: "progress_batch \<Rightarrow> shard_key" where
  "batch_key b = (pb_scenario_id b, pb_cluster b, pb_shard_index b)"

definition run_or_new :: "progress \<Rightarrow> int \<Rightarrow> progress_run" where
  "run_or_new p runID = mget_or \<lparr>pn_acc = new_accumulator, pn_shards = []\<rparr> (pg_runs p) runID"

text \<open>The shard's stream before the batch is read: a new stream starts at sequence zero.\<close>

definition stream_of :: "progress_run \<Rightarrow> progress_batch \<Rightarrow> shard_stream" where
  "stream_of run b =
     (let sh = mget_or \<lparr>sm_stream_id = pb_stream_id b, sm_seq = 0, sm_finished = False, sm_exit_code = None\<rparr>
                 (pn_shards run) (batch_key b)
      in if sm_stream_id sh \<noteq> pb_stream_id b then sh\<lparr>sm_stream_id := pb_stream_id b, sm_seq := 0\<rparr> else sh)"

definition absorb :: "progress_batch \<Rightarrow> (port_err, progress, unit) act" where
  "absorb b p =
     (case pg_absorb_err p of
        Some e \<Rightarrow> (Inl e, p)
      | None \<Rightarrow>
          (case progress_batch_validate b of
             Some e \<Rightarrow> (Inl e, p)
           | None \<Rightarrow>
               let run = run_or_new p (pb_run_id b);
                   sh = stream_of run b;
                   (fresh, seq) = fresh_from (sm_seq sh) (pb_intervals b);
                   sh = sh\<lparr>sm_seq := seq,
                           sm_finished := (if pb_final b then True else sm_finished sh),
                           sm_exit_code := (if pb_exit_code b \<noteq> None then pb_exit_code b else sm_exit_code sh)\<rparr>;
                   run = \<lparr>pn_acc = foldl acc_add (pn_acc run) fresh, pn_shards = mput (batch_key b) sh (pn_shards run)\<rparr>
               in (Inr (), absorb_series (pb_run_id b) fresh (p\<lparr>pg_runs := mput (pb_run_id b) run (pg_runs p)\<rparr>))))"

definition progress_snapshot :: "progress \<Rightarrow> int \<Rightarrow> snapshot" where
  "progress_snapshot p runID =
     (case mget (pg_runs p) runID of None \<Rightarrow> \<lparr>sn_labels = [], sn_seconds = [], sn_signatures = []\<rparr> | Some run \<Rightarrow> acc_snapshot (pn_acc run))"

definition shard_states :: "progress \<Rightarrow> int \<Rightarrow> shard_state list" where
  "shard_states p runID =
     (case mget (pg_runs p) runID of
        None \<Rightarrow> []
      | Some run \<Rightarrow> sort_key (\<lambda>st. (sh_scenario_id st, sh_cluster st, sh_shard_index st))
          (map (\<lambda>((sid, cl, i), sh). \<lparr>sh_scenario_id = sid, sh_cluster = cl, sh_shard_index = i,
                  sh_finished = sm_finished sh, sh_exit_code = sm_exit_code sh\<rparr>) (pn_shards run)))"

definition discard :: "int \<Rightarrow> (port_err, progress, unit) act" where
  "discard runID p =
     (case pg_discard_err p of Some e \<Rightarrow> (Inl e, p) | None \<Rightarrow> (Inr (), p\<lparr>pg_runs := mdel runID (pg_runs p)\<rparr>))"

definition list_intervals_by_run :: "progress \<Rightarrow> int \<Rightarrow> interval list" where
  "list_intervals_by_run p runID =
     sort_key iv_timestamp (map (\<lambda>(ts, row). zero_interval\<lparr>iv_timestamp := ts, iv_samples := sx_samples row,
        iv_failed := sx_failed row, iv_bytes := sx_bytes row,
        iv_concurrency := (if sx_labels row < sx_engine row then sx_engine row else sx_labels row),
        iv_latency := sx_latency row\<rparr>) (mget_or [] (pg_series p) runID))"

section \<open>Reports\<close>

datatype report_err = RpErrExecutionRequired | RpErrRunRequired

definition report_validate :: "report \<Rightarrow> report_err option" where
  "report_validate r =
     (if rp_execution_id r \<le> 0 then Some RpErrExecutionRequired
      else if rp_run_id r \<le> 0 then Some RpErrRunRequired
      else None)"

record report_store =
  rt_reports :: "(int, report) gomap"
  rt_save_err :: "port_err option"
  rt_get_err :: "port_err option"

definition new_report_store :: report_store where
  "new_report_store = \<lparr>rt_reports = [], rt_save_err = None, rt_get_err = None\<rparr>"

datatype save_err = SavePort port_err | SaveReport report_err

definition save_report :: "report \<Rightarrow> (save_err, report_store, unit) act" where
  "save_report r s =
     (case rt_save_err s of
        Some e \<Rightarrow> (Inl (SavePort e), s)
      | None \<Rightarrow>
          (case report_validate r of
             Some e \<Rightarrow> (Inl (SaveReport e), s)
           | None \<Rightarrow>
               if mget (rt_reports s) (rp_run_id r) \<noteq> None then (Inr (), s)
               else (Inr (), s\<lparr>rt_reports := mput (rp_run_id r) (r\<lparr>rp_starred := False, rp_note := ''''\<rparr>) (rt_reports s)\<rparr>)))"

definition get_report :: "report_store \<Rightarrow> int \<Rightarrow> port_err + report" where
  "get_report s runID =
     (case rt_get_err s of
        Some e \<Rightarrow> Inl e
      | None \<Rightarrow> (case mget (rt_reports s) runID of None \<Rightarrow> Inl PortErrNotFound | Some r \<Rightarrow> Inr r))"

definition trim_reports :: "report list \<Rightarrow> int \<Rightarrow> report list" where
  "trim_reports rs limit =
     (let sorted = sort_key (\<lambda>r. (- rp_started_at r, - rp_run_id r)) rs
      in if 0 < limit \<and> limit < int (length sorted) then take (nat limit) sorted else sorted)"

definition list_reports :: "report_store \<Rightarrow> int \<Rightarrow> int \<Rightarrow> report list" where
  "list_reports s executionID limit = trim_reports (filter (\<lambda>r. rp_execution_id r = executionID) (mvals (rt_reports s))) limit"

definition reports_since :: "report_store \<Rightarrow> time \<Rightarrow> int \<Rightarrow> report list" where
  "reports_since s since limit = trim_reports (filter (\<lambda>r. \<not> rp_started_at r < since) (mvals (rt_reports s))) limit"

definition set_starred :: "int \<Rightarrow> bool \<Rightarrow> (port_err, report_store, unit) act" where
  "set_starred runID starred s =
     (case mget (rt_reports s) runID of
        None \<Rightarrow> (Inl PortErrNotFound, s)
      | Some r \<Rightarrow> (Inr (), s\<lparr>rt_reports := mput runID (r\<lparr>rp_starred := starred\<rparr>) (rt_reports s)\<rparr>))"

definition set_note :: "int \<Rightarrow> string \<Rightarrow> (port_err, report_store, unit) act" where
  "set_note runID note s =
     (case mget (rt_reports s) runID of
        None \<Rightarrow> (Inl PortErrNotFound, s)
      | Some r \<Rightarrow> (Inr (), s\<lparr>rt_reports := mput runID (r\<lparr>rp_note := note\<rparr>) (rt_reports s)\<rparr>))"

record signature_history_row =
  hr_signature :: signature
  hr_total_count :: int
  hr_run_count :: int

definition count_signature :: "int \<Rightarrow> error_signature \<Rightarrow> (signature, int \<times> int list) gomap \<Rightarrow> (signature, int \<times> int list) gomap" where
  "count_signature runID e m =
     (case mget_or (0, []) m (es_signature e) of (n, runs) \<Rightarrow>
        mput (es_signature e) (i64 (n + es_count e), List.insert runID runs) m)"

definition error_signature_history :: "report_store \<Rightarrow> int \<Rightarrow> signature_history_row list" where
  "error_signature_history s executionID =
     (let rs = filter (\<lambda>r. rp_execution_id r = executionID) (mvals (rt_reports s));
          totals = fold (\<lambda>r. fold (count_signature (rp_run_id r)) (rp_errors r)) rs []
      in sort_key (\<lambda>row. (- hr_total_count row, side_string (sg_side (hr_signature row)), sg_code (hr_signature row), sg_label (hr_signature row)))
          (map (\<lambda>(sig, n, runs). \<lparr>hr_signature = sig, hr_total_count = n, hr_run_count = int (length runs)\<rparr>) totals))"

section \<open>Absorbing twice is absorbing once\<close>

lemma fresh_from_bound: "fresh_from w ivs = (fresh, w') \<Longrightarrow> w \<le> w' \<and> (\<forall>iv \<in> set ivs. iv_seq iv \<le> w')"
proof (induction ivs arbitrary: w fresh)
  case (Cons iv ivs)
  show ?case
  proof (cases "iv_seq iv \<le> w")
    case True
    then show ?thesis using Cons by force
  next
    case False
    obtain rest where "fresh_from (iv_seq iv) ivs = (rest, w')"
      using Cons.prems False by (auto split: prod.splits)
    from Cons.IH[OF this] False show ?thesis by auto
  qed
qed simp

lemma fresh_from_seen: "\<forall>iv \<in> set ivs. iv_seq iv \<le> w \<Longrightarrow> fresh_from w ivs = ([], w)"
  by (induction ivs) auto

lemma mput_same: "mget m k = Some v \<Longrightarrow> mput k v m = m"
  by (induction m) (auto simp: mput_def mget_def split: if_splits)

lemma mput_twice: "mput k v (mput k w m) = mput k v m"
  by (induction m) (auto simp: mput_def)

lemma absorb_again: "absorb b p = (r, p') \<Longrightarrow> absorb b p' = (r, p')"
proof (cases "pg_absorb_err p = None \<and> progress_batch_validate b = None")
  case True
  assume a: "absorb b p = (r, p')"
  define run where "run = run_or_new p (pb_run_id b)"
  obtain fresh w where f: "fresh_from (sm_seq (stream_of run b)) (pb_intervals b) = (fresh, w)" by fastforce
  define sh where "sh = (stream_of run b)\<lparr>sm_seq := w,
      sm_finished := (if pb_final b then True else sm_finished (stream_of run b)),
      sm_exit_code := (if pb_exit_code b \<noteq> None then pb_exit_code b else sm_exit_code (stream_of run b))\<rparr>"
  define run' where "run' = \<lparr>pn_acc = foldl acc_add (pn_acc run) fresh, pn_shards = mput (batch_key b) sh (pn_shards run)\<rparr>"
  have p': "r = Inr ()" "p' = absorb_series (pb_run_id b) fresh (p\<lparr>pg_runs := mput (pb_run_id b) run' (pg_runs p)\<rparr>)"
    using a True f by (auto simp: absorb_def Let_def run_def[symmetric] sh_def run'_def)
  have id: "sm_stream_id (stream_of run b) = pb_stream_id b"
    by (auto simp: stream_of_def Let_def mget_or_def split: option.splits)
  have runs: "mget (pg_runs p') (pb_run_id b) = Some run'" "pg_absorb_err p' = None"
    using True by (simp_all add: p' absorb_series_def Let_def)
  have again: "run_or_new p' (pb_run_id b) = run'" "stream_of run' b = sh"
    using runs id by (simp_all add: run_or_new_def mget_or_def stream_of_def run'_def sh_def Let_def)
  have fr: "fresh_from (sm_seq sh) (pb_intervals b) = ([], w)"
    using fresh_from_seen fresh_from_bound[OF f] by (simp add: sh_def)
  have series: "absorb_series (pb_run_id b) [] p' = p'"
    by (simp add: p' absorb_series_def by_second_def Let_def mget_or_def mput_same mput_twice split: option.split)
  have "absorb b p' = (Inr (), absorb_series (pb_run_id b) [] (p'\<lparr>pg_runs := mput (pb_run_id b)
      \<lparr>pn_acc = pn_acc run', pn_shards = mput (batch_key b) sh (pn_shards run')\<rparr> (pg_runs p')\<rparr>))"
    using True runs(2) fr again by (simp add: absorb_def Let_def sh_def)
  moreover have "\<lparr>pn_acc = pn_acc run', pn_shards = mput (batch_key b) sh (pn_shards run')\<rparr> = run'"
    by (simp add: run'_def mput_same)
  ultimately show ?thesis using runs(1) series p'(1) by (simp add: mput_same)
next
  case False
  assume "absorb b p = (r, p')"
  then show ?thesis using False by (auto simp: absorb_def split: option.splits prod.splits)
qed

text \<open>Messages delivered in order, each once and then as many times again as stated.\<close>

fun deliver :: "('b \<Rightarrow> ('e, 's, unit) act) \<Rightarrow> ('b \<times> nat) list \<Rightarrow> 's \<Rightarrow> 's" where
  "deliver op [] s = s"
| "deliver op ((b, n) # bs) s = deliver op bs (((\<lambda>s. snd (op b s)) ^^ Suc n) s)"

text \<open>An operation that a retry does not repeat.\<close>

locale retried =
  fixes op :: "'b \<Rightarrow> ('e, 's, unit) act"
  assumes again: "op b s = (r, s') \<Longrightarrow> op b s' = (r, s')"
begin

lemma repeat_once: "((\<lambda>s. snd (op b s)) ^^ Suc n) s = snd (op b s)"
proof (induction n)
  case (Suc n)
  have "snd (op b (snd (op b s))) = snd (op b s)" using again by (metis prod.collapse snd_conv)
  then show ?case using Suc by simp
qed simp

lemma retries_do_not_count: "deliver op bs s = deliver op (map (\<lambda>(b, n). (b, 0)) bs) s"
  by (induction bs arbitrary: s rule: list.induct) (auto simp del: funpow.simps simp: repeat_once split: prod.splits)

end

interpretation pr: retried absorb
  by unfold_locales (rule absorb_again)

text \<open>
  Retrying a batch changes nothing: however often each batch is sent again before the
  next one, rejected batches included, the progress of every run is the one a single sending
  leaves, measurements, per-second series, completion flags and exit codes alike.
\<close>

theorem absorb_retries:
  "deliver absorb bs p = deliver absorb (map (\<lambda>(b, n). (b, 0)) bs) p"
  by (rule pr.retries_do_not_count)

section \<open>Exactly once\<close>

text \<open>
  A pod numbers what it measured from one and sends batches of consecutive measurements from
  that log, none starting beyond what it has already sent: \<open>transmits lg cov bs cov'\<close> says
  that the batches \<open>bs\<close> of any number of pods, in the order they arrive, extend what each pod
  has sent from \<open>cov\<close> to \<open>cov'\<close> measurements of its log.
\<close>

definition numbered :: "interval list \<Rightarrow> bool" where
  "numbered ivs \<longleftrightarrow> (\<forall>i < length ivs. iv_seq (ivs ! i) = int i + 1)"

inductive transmits :: "(shard_key \<Rightarrow> interval list) \<Rightarrow> (shard_key \<Rightarrow> nat) \<Rightarrow> progress_batch list \<Rightarrow> (shard_key \<Rightarrow> nat) \<Rightarrow> bool"
  for lg where
  "transmits lg cov [] cov"
| "\<lbrakk>s \<le> cov (batch_key b); pb_intervals b = take n (drop s (lg (batch_key b)));
    transmits lg (cov(batch_key b := max (cov (batch_key b)) (min (s + n) (length (lg (batch_key b)))))) bs cov'\<rbrakk>
   \<Longrightarrow> transmits lg cov (b # bs) cov'"

inductive_cases transmits_ConsE: "transmits lg cov (b # bs) cov'"

lemma fresh_from_ascending:
  "c \<le> length ivs \<Longrightarrow> numbered ivs \<Longrightarrow> k \<le> length ivs \<Longrightarrow>
   fresh_from (int c) (drop c (take k ivs)) = (drop c (take k ivs), int (max c k))"
proof (induction "k - c" arbitrary: c)
  case 0
  then show ?case by simp
next
  case (Suc d)
  then have ck: "c < k" "c < length ivs" by auto
  then have cons: "drop c (take k ivs) = ivs ! c # drop (Suc c) (take k ivs)"
    using Suc.prems by (simp add: Cons_nth_drop_Suc[symmetric])
  have seq: "iv_seq (ivs ! c) = int (Suc c)" using Suc.prems(2) ck by (simp add: numbered_def)
  have "fresh_from (int (Suc c)) (drop (Suc c) (take k ivs)) = (drop (Suc c) (take k ivs), int (max (Suc c) k))"
    using Suc.prems Suc.hyps(2) ck by (intro Suc.hyps(1)) auto
  then show ?case unfolding cons using seq ck by simp
qed

lemma fresh_from_segment:
  assumes "numbered ivs" "s \<le> c" "c \<le> length ivs"
  shows "fresh_from (int c) (take n (drop s ivs)) =
    (drop c (take (s + n) ivs), int (max c (min (s + n) (length ivs))))"
proof -
  have seen: "fresh_from w (xs @ ys) = fresh_from w ys" if "\<forall>iv \<in> set xs. iv_seq iv \<le> w" for w xs ys
    using that by (induction xs) auto
  let ?k = "min (s + n) (length ivs)"
  have tk: "take ?k ivs = take (s + n) ivs" by (simp add: min_def)
  have "take n (drop s ivs) = drop s (take ?k ivs)" unfolding tk by (simp add: take_drop add.commute)
  also have "\<dots> = drop s (take (min c ?k) ivs) @ drop c (take ?k ivs)"
    using assms(2) by (cases "c \<le> ?k") (auto simp: min_def not_le nth_append add.commute intro!: nth_equalityI)
  finally have split: "take n (drop s ivs) = drop s (take (min c ?k) ivs) @ drop c (take ?k ivs)" .
  have "\<forall>iv \<in> set (take c ivs). iv_seq iv \<le> int c"
    using assms(1) by (auto simp: in_set_conv_nth numbered_def)
  moreover have "set (drop s (take (min c ?k) ivs)) \<subseteq> set (take c ivs)"
    by (metis min.cobounded1 set_drop_subset set_take_subset_set_take subset_trans)
  ultimately have "\<forall>iv \<in> set (drop s (take (min c ?k) ivs)). iv_seq iv \<le> int c" by blast
  then show ?thesis unfolding split seen[OF \<open>\<forall>iv \<in> set (drop s (take (min c ?k) ivs)). iv_seq iv \<le> int c\<close>]
    using fresh_from_ascending[OF assms(3,1), of ?k] unfolding tk by simp
qed

text \<open>The measurements a batch adds, with the pod they come from, and those of a sequence of batches.\<close>

definition adds :: "progress \<Rightarrow> progress_batch \<Rightarrow> (shard_key \<times> interval) list" where
  "adds p b = map (Pair (batch_key b))
     (fst (fresh_from (sm_seq (stream_of (run_or_new p (pb_run_id b)) b)) (pb_intervals b)))"

fun added :: "progress \<Rightarrow> progress_batch list \<Rightarrow> (shard_key \<times> interval) list" where
  "added p [] = []"
| "added p (b # bs) = adds p b @ added (snd (absorb b p)) bs"

definition from_pod :: "shard_key \<Rightarrow> (shard_key \<times> interval) list \<Rightarrow> interval list" where
  "from_pod k d = map snd (filter (\<lambda>(k', _). k' = k) d)"

text \<open>The batches of one run, each pod on one stream.\<close>

definition batch_of :: "int \<Rightarrow> (shard_key \<Rightarrow> string) \<Rightarrow> progress_batch \<Rightarrow> bool" where
  "batch_of runID stream b \<longleftrightarrow> pb_run_id b = runID \<and> progress_batch_validate b = None \<and> pb_stream_id b = stream (batch_key b)"

text \<open>The watermarks of a run are what its pods have sent.\<close>

definition watermarks :: "int \<Rightarrow> (shard_key \<Rightarrow> string) \<Rightarrow> (shard_key \<Rightarrow> nat) \<Rightarrow> progress \<Rightarrow> bool" where
  "watermarks runID stream cov p \<longleftrightarrow> pg_absorb_err p = None \<and>
     (\<forall>k. case mget (pn_shards (run_or_new p runID)) k of
            None \<Rightarrow> cov k = 0
          | Some sh \<Rightarrow> sm_stream_id sh = stream k \<and> sm_seq sh = int (cov k))"

lemma stream_watermark:
  assumes "watermarks runID stream cov p" "batch_of runID stream b"
  shows "sm_seq (stream_of (run_or_new p runID) b) = int (cov (batch_key b))"
    "sm_stream_id (stream_of (run_or_new p runID) b) = stream (batch_key b)"
  using assms(1)[unfolded watermarks_def, THEN conjunct2, rule_format, of "batch_key b"] assms(2)
  by (auto simp: batch_of_def stream_of_def mget_or_def Let_def split: option.splits)

lemma absorb_step:
  assumes "watermarks runID stream cov p" "batch_of runID stream b" "numbered (lg (batch_key b))"
    "s \<le> cov (batch_key b)" "cov (batch_key b) \<le> length (lg (batch_key b))" "pb_intervals b = take n (drop s (lg (batch_key b)))"
  defines "k \<equiv> batch_key b"
  defines "c' \<equiv> max (cov k) (min (s + n) (length (lg k)))"
  shows "map snd (adds p b) = drop (cov k) (take c' (lg k))"
    "watermarks runID stream (cov(k := c')) (snd (absorb b p))"
    "pn_acc (run_or_new (snd (absorb b p)) runID) = foldl acc_add (pn_acc (run_or_new p runID)) (map snd (adds p b))"
proof -
  note sw = stream_watermark[OF assms(1,2)]
  have v: "progress_batch_validate b = None" "pb_run_id b = runID" using assms(2) by (auto simp: batch_of_def)
  have e: "pg_absorb_err p = None" using assms(1) by (simp add: watermarks_def)
  have f: "fresh_from (sm_seq (stream_of (run_or_new p runID) b)) (pb_intervals b) = (drop (cov k) (take (s + n) (lg k)), int c')"
    unfolding sw(1) assms(6) k_def[symmetric] c'_def using assms(3-5) unfolding k_def[symmetric] by (rule fresh_from_segment)
  have d: "drop (cov k) (take (s + n) (lg k)) = drop (cov k) (take c' (lg k))"
    by (cases "cov k \<le> s + n") (auto simp: c'_def min_def max_def)
  show "map snd (adds p b) = drop (cov k) (take c' (lg k))"
    by (simp add: adds_def v f d o_def)
  let ?run = "run_or_new (snd (absorb b p)) runID"
  define sh where "sh = (stream_of (run_or_new p runID) b)\<lparr>sm_seq := int c',
      sm_finished := (if pb_final b then True else sm_finished (stream_of (run_or_new p runID) b)),
      sm_exit_code := (if pb_exit_code b \<noteq> None then pb_exit_code b else sm_exit_code (stream_of (run_or_new p runID) b))\<rparr>"
  have run: "pn_acc ?run = foldl acc_add (pn_acc (run_or_new p runID)) (drop (cov k) (take c' (lg k)))"
    "pn_shards ?run = mput k sh (pn_shards (run_or_new p runID))"
    using e v f d by (simp_all add: absorb_def Let_def absorb_series_def run_or_new_def[of "_\<lparr>pg_series := _\<rparr>"] mget_or_def k_def sh_def)
  have sh: "sm_seq sh = int c'" "sm_stream_id sh = stream k" using sw(2) by (simp_all add: sh_def k_def)
  show "pn_acc ?run = foldl acc_add (pn_acc (run_or_new p runID)) (map snd (adds p b))"
    by (simp add: run adds_def v f d o_def)
  have "pg_absorb_err (snd (absorb b p)) = None" using e v by (simp add: absorb_def Let_def absorb_series_def split: prod.split)
  moreover have "case mget (pn_shards ?run) k' of None \<Rightarrow> (cov(k := c')) k' = 0
      | Some sh \<Rightarrow> sm_stream_id sh = stream k' \<and> sm_seq sh = int ((cov(k := c')) k')" for k'
    using assms(1)[unfolded watermarks_def, THEN conjunct2, rule_format, of k'] run(2) sh
    by (cases "k' = k") (simp_all split: option.splits)
  ultimately show "watermarks runID stream (cov(k := c')) (snd (absorb b p))"
    unfolding watermarks_def by blast
qed

lemma exactly_once_from:
  assumes "transmits lg cov bs cov'" "watermarks runID stream cov p" "list_all (batch_of runID stream) bs"
    "\<forall>k. numbered (lg k)" "\<forall>k. cov k \<le> length (lg k)"
  defines "p' \<equiv> foldl (\<lambda>p b. snd (absorb b p)) p bs"
  shows "pn_acc (run_or_new p' runID) = foldl acc_add (pn_acc (run_or_new p runID)) (map snd (added p bs))
    \<and> (\<forall>k. from_pod k (added p bs) = drop (cov k) (take (cov' k) (lg k)) \<and> cov k \<le> cov' k)"
  unfolding p'_def using assms(1-5)
proof (induction bs arbitrary: cov p)
  case Nil
  then have "cov' = cov" by (auto elim: transmits.cases)
  then show ?case by (simp add: from_pod_def)
next
  case (Cons b bs)
  obtain s n where sn: "s \<le> cov (batch_key b)" "pb_intervals b = take n (drop s (lg (batch_key b)))"
    and tr: "transmits lg (cov(batch_key b := max (cov (batch_key b)) (min (s + n) (length (lg (batch_key b)))))) bs cov'"
    using Cons.prems(1) by (rule transmits_ConsE) blast
  define k where "k = batch_key b"
  define c where "c = max (cov k) (min (s + n) (length (lg k)))"
  have b: "batch_of runID stream b" "list_all (batch_of runID stream) bs" using Cons.prems(3) by simp_all
  note st = absorb_step[where lg = lg, OF Cons.prems(2) b(1) Cons.prems(4)[rule_format, of "batch_key b"] sn(1)
      Cons.prems(5)[rule_format, of "batch_key b"] sn(2), folded k_def, folded c_def]
  have len: "\<forall>k'. (cov(k := c)) k' \<le> length (lg k')" using Cons.prems(5) by (simp add: c_def del: split_paired_All)
  note IH = Cons.IH[OF tr[folded k_def, folded c_def] st(2) b(2) Cons.prems(4) len]
  have cc: "cov k \<le> c" by (simp add: c_def)
  have "from_pod k' (adds p b) = (if k' = k then drop (cov k) (take c (lg k)) else [])" for k'
  proof (cases "k' = k")
    case True
    have "from_pod k (adds p b) = map snd (adds p b)" by (auto simp: from_pod_def adds_def k_def filter_map o_def)
    then show ?thesis using True st(1) by simp
  next
    case False
    then show ?thesis by (auto simp: from_pod_def adds_def k_def filter_map o_def)
  qed
  then have "from_pod k' (added p (b # bs)) = drop (cov k') (take (cov' k') (lg k')) \<and> cov k' \<le> cov' k'" for k'
  proof (cases "k' = k")
    case True
    note IHk = IH[THEN conjunct2, rule_format, of k]
    have le: "c \<le> cov' k" using IHk by simp
    have "drop (cov k) (take c (lg k)) @ drop c (take (cov' k) (lg k)) = drop (cov k) (take (cov' k) (lg k))"
      using cc le by (auto simp: nth_append min_def add.commute intro!: nth_equalityI)
    then show ?thesis using IHk True cc le \<open>\<And>k'. from_pod k' (adds p b) = _\<close>[of k] by (simp add: from_pod_def)
  next
    case False
    then show ?thesis using IH[THEN conjunct2, rule_format, of k'] \<open>\<And>k'. from_pod k' (adds p b) = _\<close>[of k']
      by (simp add: from_pod_def)
  qed
  then have pods: "\<forall>k'. from_pod k' (added p (b # bs)) = drop (cov k') (take (cov' k') (lg k')) \<and> cov k' \<le> cov' k'" by blast
  show ?case using IH[THEN conjunct1] st(3) by (intro conjI pods) simp
qed

lemma snapshot_report: 
  assumes "acc_wf (pn_acc (run_or_new p runID))"
  shows "acc_report (restore (progress_snapshot p runID)) m = acc_report (pn_acc (run_or_new p runID)) m"
proof -
  have "progress_snapshot p runID = acc_snapshot (pn_acc (run_or_new p runID))"
    by (auto simp: progress_snapshot_def run_or_new_def mget_or_def acc_snapshot_def new_accumulator_def mvals_def split: option.split)
  then show ?thesis using acc_report_cong[OF restore_wf[OF assms] assms restore_same[OF assms], of m] by simp
qed

text \<open>
  C1. Exactly-once ingestion: whatever the interleaving of the pods and however often a batch is
  sent again, the engine that keeps the run's progress counts each measurement of each pod's log
  exactly once and in the pod's order, up to what the pod has sent; and the report restored from
  its snapshot is the report built in one pass from those measurements.
\<close>

theorem exactly_once:
  assumes "transmits lg (\<lambda>_. 0) bs sent" "list_all (batch_of runID stream) bs" "\<forall>k. numbered (lg k)"
  shows "from_pod k (added new_progress bs) = take (sent k) (lg k) \<and>
    acc_report (restore (progress_snapshot (foldl (\<lambda>p b. snd (absorb b p)) new_progress bs) runID)) m
      = build m (map snd (added new_progress bs))"
proof -
  let ?p = "foldl (\<lambda>p b. snd (absorb b p)) new_progress bs"
  have "watermarks runID stream (\<lambda>_. 0) new_progress"
    by (simp add: watermarks_def new_progress_def run_or_new_def mget_or_def)
  note e = exactly_once_from[OF assms(1) this assms(2,3), simplified]
  have acc: "pn_acc (run_or_new ?p runID) = foldl acc_add new_accumulator (map snd (added new_progress bs))"
    using e by (simp add: run_or_new_def[of new_progress] mget_or_def) (simp add: new_progress_def)
  have "acc_report (restore (progress_snapshot ?p runID)) m = build m (map snd (added new_progress bs))"
    unfolding build_def acc[symmetric] by (rule snapshot_report) (simp add: acc acc_wf_adds acc_wf_new)
  then show ?thesis using e by (cases k) simp
qed

definition sample_logs :: "shard_key \<Rightarrow> interval list" where
  "sample_logs k = (if k = (1, ''c'', 0) then [zero_interval\<lparr>iv_seq := 1, iv_samples := 5\<rparr>, zero_interval\<lparr>iv_seq := 2, iv_samples := 6\<rparr>]
     else if k = (1, ''c'', 1) then [zero_interval\<lparr>iv_seq := 1, iv_samples := 9\<rparr>] else [])"

definition sample_batch :: "int \<Rightarrow> nat \<Rightarrow> nat \<Rightarrow> progress_batch" where
  "sample_batch i s n = \<lparr>pb_run_id = 7, pb_scenario_id = 1, pb_shard_index = i, pb_cluster = ''c'', pb_stream_id = ''s'',
     pb_final = False, pb_exit_code = None, pb_intervals = take n (drop s (sample_logs (1, ''c'', i)))\<rparr>"

definition sample_sent :: "shard_key \<Rightarrow> nat" where
  "sample_sent k = (if k = (1, ''c'', 0) then 2 else if k = (1, ''c'', 1) then 1 else 0)"

lemma sample_numbered: "\<forall>k. numbered (sample_logs k)"
  by (auto simp: sample_logs_def numbered_def zero_interval_def less_Suc_eq)

lemma sample_batches: "list_all (batch_of 7 (\<lambda>_. ''s'')) [sample_batch 0 0 1, sample_batch 1 0 1, sample_batch 0 0 2]"
  by (simp add: batch_of_def sample_batch_def progress_batch_validate_def sample_logs_def)

lemma sample_transmits: "transmits sample_logs (\<lambda>_. 0) [sample_batch 0 0 1, sample_batch 1 0 1, sample_batch 0 0 2] sample_sent"
proof -
  have send: "transmits sample_logs cov (sample_batch i s n # bs) c"
    if "s \<le> cov (1, ''c'', i)"
      "transmits sample_logs (cov((1, ''c'', i) := max (cov (1, ''c'', i)) (min (s + n) (length (sample_logs (1, ''c'', i)))))) bs c"
    for cov i s n bs c using that transmits.intros(2)[of s cov "sample_batch i s n" n sample_logs bs c]
    by (simp add: batch_key_def sample_batch_def)
  define c1 where "c1 = (\<lambda>_::shard_key. 0::nat)((1, ''c'', 0) := 1)"
  define c2 where "c2 = c1((1, ''c'', 1) := 1)"
  have sent: "sample_sent = c2((1, ''c'', 0) := 2)" by (auto simp: sample_sent_def c2_def c1_def)
  have "transmits sample_logs c2 [sample_batch 0 0 2] sample_sent"
    using transmits.intros(1)[of sample_logs sample_sent] by - (rule send, simp_all add: sent c2_def c1_def sample_logs_def numeral_2_eq_2)
  then have "transmits sample_logs c1 [sample_batch 1 0 1, sample_batch 0 0 2] sample_sent"
    by - (rule send, simp_all add: c2_def c1_def sample_logs_def)
  then show ?thesis by - (rule send, simp_all add: c1_def sample_logs_def)
qed

theorem exactly_once_witness:
  "from_pod (1, ''c'', 0) (added new_progress [sample_batch 0 0 1, sample_batch 1 0 1, sample_batch 0 0 2])
     = [zero_interval\<lparr>iv_seq := 1, iv_samples := 5\<rparr>, zero_interval\<lparr>iv_seq := 2, iv_samples := 6\<rparr>]"
  using exactly_once[OF sample_transmits sample_batches sample_numbered, of "(1, ''c'', 0)"] by (simp add: sample_logs_def sample_sent_def)

end
