(* ===== verification/Cal_Store.thy ===== *)
theory Cal_Store
  imports Calibration Catalog
begin

text \<open>
  The calibration job and capacity profile stores of
  \<open>internal/ports/fake/calibration_repository.go\<close> and
  \<open>internal/ports/fake/capacity_profile_repository.go\<close>: job rows, the leases that decide which
  controller advances a job, the step history and the search bounds of an execution.
\<close>

section \<open>Jobs\<close>

record calibration_job =
  cj_id :: int
  cj_execution_id :: int
  cj_scenario_id :: int
  cj_phase :: cal_phase
  cj_step_count :: int
  cj_lo_requested :: rat
  cj_lo_achieved :: rat
  cj_hi_requested :: rat
  cj_next_qps :: rat
  cj_result :: "cal_result option"
  cj_failure_reason :: string
  cj_created_time :: time

record calibration_job_summary =
  js_id :: int
  js_execution_id :: int
  js_scenario_id :: int
  js_scenario_name :: string
  js_phase :: cal_phase
  js_result :: "cal_result option"
  js_failure_reason :: string
  js_created_time :: time

record calibration_bounds =
  bo_seed_qps :: rat
  bo_max_qps :: rat
  bo_max_steps :: int
  bo_hold_seconds :: int

type_synonym profile_key = "int \<times> string \<times> string \<times> string"

record cal_store =
  ca_seq :: int
  ca_jobs :: "(int, calibration_job) gomap"
  ca_claimed_at :: "(int, time) gomap"
  ca_steps :: "(int, cal_step list) gomap"
  ca_bounds :: "(int, calibration_bounds) gomap"
  ca_profiles :: "(profile_key, capacity_profile) gomap"

definition new_cal_store :: cal_store where
  "new_cal_store = \<lparr>ca_seq = 0, ca_jobs = [], ca_claimed_at = [], ca_steps = [], ca_bounds = [], ca_profiles = []\<rparr>"

definition create_calibration_job :: "time \<Rightarrow> int \<Rightarrow> int \<Rightarrow> (port_err, cal_store, int) act" where
  "create_calibration_job now executionID scenarioID s =
     (let i = ca_seq s + 1;
          job = \<lparr>cj_id = i, cj_execution_id = executionID, cj_scenario_id = scenarioID, cj_phase = CalPending,
                 cj_step_count = 0, cj_lo_requested = 0, cj_lo_achieved = 0, cj_hi_requested = 0, cj_next_qps = 0,
                 cj_result = None, cj_failure_reason = '''', cj_created_time = now\<rparr>
      in (Inr i, s\<lparr>ca_seq := i, ca_jobs := mput i job (ca_jobs s)\<rparr>))"

definition get_calibration_job :: "cal_store \<Rightarrow> int \<Rightarrow> port_err + calibration_job" where
  "get_calibration_job s i = found (mget (ca_jobs s) i)"

definition list_calibration_jobs_by_execution :: "cal_store \<Rightarrow> int \<Rightarrow> calibration_job list" where
  "list_calibration_jobs_by_execution s executionID =
     sort_key (\<lambda>j. - cj_id j) (filter (\<lambda>j. cj_execution_id j = executionID) (mvals (ca_jobs s)))"

definition job_summary :: "catalog \<Rightarrow> calibration_job \<Rightarrow> calibration_job_summary" where
  "job_summary c j = \<lparr>js_id = cj_id j, js_execution_id = cj_execution_id j, js_scenario_id = cj_scenario_id j,
     js_scenario_name = (case mget (ct_scenarios c) (cj_scenario_id j) of None \<Rightarrow> '''' | Some sc \<Rightarrow> sc_name sc),
     js_phase = cj_phase j, js_result = cj_result j, js_failure_reason = cj_failure_reason j,
     js_created_time = cj_created_time j\<rparr>"

definition list_calibration_jobs_by_project :: "cal_store \<Rightarrow> catalog \<Rightarrow> int \<Rightarrow> time \<Rightarrow> time \<Rightarrow> calibration_job_summary list" where
  "list_calibration_jobs_by_project s c projectID t_start t_end =
     sort_key (\<lambda>j. - js_id j) (map (job_summary c) (filter (\<lambda>j.
       (case mget (ct_executions c) (cj_execution_id j) of None \<Rightarrow> False | Some exe \<Rightarrow> ex_project_id exe = projectID)
       \<and> \<not> cj_created_time j < t_start \<and> cj_created_time j < t_end) (mvals (ca_jobs s))))"

section \<open>Leases and steps\<close>

definition job_terminal :: "calibration_job \<Rightarrow> bool" where
  "job_terminal j \<longleftrightarrow> cj_phase j \<noteq> CalPending \<and> cj_phase j \<noteq> CalBracketing \<and> cj_phase j \<noteq> CalBisecting"

definition job_claimable :: "cal_store \<Rightarrow> time \<Rightarrow> duration \<Rightarrow> calibration_job \<Rightarrow> bool" where
  "job_claimable s now leaseFor j \<longleftrightarrow> \<not> job_terminal j \<and>
     (case mget (ca_claimed_at s) (cj_id j) of None \<Rightarrow> True | Some t \<Rightarrow> \<not> now - leaseFor < t)"

definition claim_next_step :: "time \<Rightarrow> duration \<Rightarrow> (port_err, cal_store, calibration_job option) act" where
  "claim_next_step now leaseFor s =
     (case sort_key cj_id (filter (job_claimable s now leaseFor) (mvals (ca_jobs s))) of
        [] \<Rightarrow> (Inr None, s)
      | j # _ \<Rightarrow> (Inr (Some j), s\<lparr>ca_claimed_at := mput (cj_id j) now (ca_claimed_at s)\<rparr>))"

definition record_step :: "int \<Rightarrow> cal_step \<Rightarrow> calibration_job \<Rightarrow> (port_err, cal_store, unit) act" where
  "record_step jobID step updated s =
     (if mget (ca_jobs s) jobID = None then (Inl PortErrNotFound, s)
      else (Inr (), s\<lparr>ca_steps := mput jobID (mget_or [] (ca_steps s) jobID @ [step]) (ca_steps s),
                      ca_jobs := mput jobID (updated\<lparr>cj_id := jobID\<rparr>) (ca_jobs s),
                      ca_claimed_at := mdel jobID (ca_claimed_at s)\<rparr>))"

definition steps_for :: "cal_store \<Rightarrow> int \<Rightarrow> cal_step list" where
  "steps_for s jobID = mget_or [] (ca_steps s) jobID"

definition mark_failed :: "int \<Rightarrow> string \<Rightarrow> (port_err, cal_store, unit) act" where
  "mark_failed jobID reason s =
     (case mget (ca_jobs s) jobID of
        None \<Rightarrow> (Inl PortErrNotFound, s)
      | Some j \<Rightarrow> (Inr (), s\<lparr>ca_jobs := mput jobID (j\<lparr>cj_phase := CalFailed, cj_failure_reason := reason\<rparr>) (ca_jobs s),
                             ca_claimed_at := mdel jobID (ca_claimed_at s)\<rparr>))"

definition set_calibration_bounds :: "int \<Rightarrow> calibration_bounds \<Rightarrow> (port_err, cal_store, unit) act" where
  "set_calibration_bounds executionID b s = (Inr (), s\<lparr>ca_bounds := mput executionID b (ca_bounds s)\<rparr>)"

definition calibration_bounds_for :: "cal_store \<Rightarrow> int \<Rightarrow> port_err + calibration_bounds" where
  "calibration_bounds_for s executionID = found (mget (ca_bounds s) executionID)"

section \<open>Capacity profiles\<close>

definition profile_key_of :: "capacity_profile \<Rightarrow> profile_key" where
  "profile_key_of p = (cp_scenario_id p, cp_engine p, cp_cpu p, cp_memory p)"

definition upsert_capacity_profile :: "capacity_profile \<Rightarrow> (port_err, cal_store, unit) act" where
  "upsert_capacity_profile p s = (Inr (), s\<lparr>ca_profiles := mput (profile_key_of p) p (ca_profiles s)\<rparr>)"

definition get_capacity_profile :: "cal_store \<Rightarrow> profile_key \<Rightarrow> port_err + capacity_profile" where
  "get_capacity_profile s k = found (mget (ca_profiles s) k)"

definition list_capacity_profiles :: "cal_store \<Rightarrow> capacity_profile list" where
  "list_capacity_profiles s = sort_key profile_key_of (mvals (ca_profiles s))"

section \<open>Invariant\<close>

definition jobs_ok :: "cal_store \<Rightarrow> bool" where
  "jobs_ok s \<longleftrightarrow> wf_map (ca_jobs s) \<and> (\<forall>i j. mget (ca_jobs s) i = Some j \<longrightarrow> cj_id j = i \<and> i \<le> ca_seq s)"

lemma jobs_ok_new: "jobs_ok new_cal_store"
  by (simp add: jobs_ok_def new_cal_store_def)

lemma create_calibration_job_ok [keeps_rules]: "keeps jobs_ok (create_calibration_job now e sc)"
proof -
  have "i \<le> ca_seq s + 1" if "\<forall>i j. mget (ca_jobs s) i = Some j \<longrightarrow> cj_id j = i \<and> i \<le> ca_seq s" "mget (ca_jobs s) i = Some j" for s i j
    using that by force
  then show ?thesis by (auto simp: keeps_def jobs_ok_def create_calibration_job_def Let_def)
qed

lemma jobs_ok_keeps [keeps_rules]:
  "keeps jobs_ok (claim_next_step now l)" "keeps jobs_ok (record_step i st j)" "keeps jobs_ok (mark_failed i r)"
  "keeps jobs_ok (set_calibration_bounds e b)" "keeps jobs_ok (upsert_capacity_profile p)"
  by (auto simp: keeps_def jobs_ok_def claim_next_step_def record_step_def mark_failed_def
      set_calibration_bounds_def upsert_capacity_profile_def split: list.split option.splits if_splits)

end
