(* ===== verification/Threshold.thy ===== *)
theory Threshold
  imports Run_Report Run_Store
begin

text \<open>
  Scenario thresholds (\<open>internal/domain/threshold/threshold.go\<close>) and their store
  (\<open>internal/ports/fake/thresholdstore.go\<close>): bounds on a report's figures, their evaluation, and
  the replacement of a scenario's set with the identity of unchanged rows kept.
\<close>

section \<open>Bounds\<close>

definition MetricHTTPP95MS :: string where "MetricHTTPP95MS = ''http_p95_ms''"
definition MetricHTTPP99MS :: string where "MetricHTTPP99MS = ''http_p99_ms''"
definition MetricErrorRate :: string where "MetricErrorRate = ''error_rate''"
definition MetricThroughputQPS :: string where "MetricThroughputQPS = ''throughput_qps''"

lemmas metric_names = MetricHTTPP95MS_def MetricHTTPP99MS_def MetricErrorRate_def MetricThroughputQPS_def

definition metric_valid :: "string \<Rightarrow> bool" where
  "metric_valid m \<longleftrightarrow> m \<in> {MetricHTTPP95MS, MetricHTTPP99MS, MetricErrorRate, MetricThroughputQPS}"

definition is_fractional :: "string \<Rightarrow> bool" where
  "is_fractional m \<longleftrightarrow> m = MetricErrorRate"

definition comparison_valid :: "string \<Rightarrow> bool" where
  "comparison_valid c \<longleftrightarrow> c \<in> {''lt'', ''gt''}"

record threshold =
  th_id :: int
  th_scenario_id :: int
  th_metric :: string
  th_comparison :: string
  th_value :: rat
  th_created_time :: time

datatype threshold_err = ThErrScenarioRequired | ThErrMetricUnknown | ThErrComparisonUnknown
  | ThErrValueOutOfRange | ThErrValueNotPositive

definition threshold_validate :: "threshold \<Rightarrow> threshold_err option" where
  "threshold_validate t =
     (if th_scenario_id t \<le> 0 then Some ThErrScenarioRequired
      else if \<not> metric_valid (th_metric t) then Some ThErrMetricUnknown
      else if \<not> comparison_valid (th_comparison t) then Some ThErrComparisonUnknown
      else if is_fractional (th_metric t)
      then (if th_value t < 0 \<or> 1 < th_value t then Some ThErrValueOutOfRange else None)
      else if th_value t \<le> 0 then Some ThErrValueNotPositive else None)"

record threshold_result =
  tr_threshold_id :: int
  tr_execution_id :: int
  tr_run_id :: int
  tr_metric :: string
  tr_comparison :: string
  tr_value :: rat
  tr_observed :: "rat option"
  tr_satisfied :: "bool option"
  tr_reason :: string
  tr_evaluated_at :: time

text \<open>\<open>Observe\<close>: the figure, or the reason there is none.\<close>

definition observe :: "report \<Rightarrow> string \<Rightarrow> string + rat" where
  "observe rep m =
     (if m = MetricHTTPP95MS then
        (case mget (rp_latency rep) 95 of None \<Rightarrow> Inl ''no p95 latency in the report'' | Some secs \<Rightarrow> Inr (fmul secs 1000))
      else if m = MetricHTTPP99MS then
        (case mget (rp_latency rep) 99 of None \<Rightarrow> Inl ''no p99 latency in the report'' | Some secs \<Rightarrow> Inr (fmul secs 1000))
      else if m = MetricErrorRate then Inr (rp_error_rate rep)
      else if m = MetricThroughputQPS then Inr (ld_throughput (rp_achieved rep))
      else Inl (''unknown metric '' @ m))"

definition bound_satisfied :: "string \<Rightarrow> rat \<Rightarrow> rat \<Rightarrow> bool" where
  "bound_satisfied c observed v = (if c = ''gt'' then v < observed else observed < v)"

definition threshold_evaluate :: "threshold \<Rightarrow> report \<Rightarrow> time \<Rightarrow> threshold_result" where
  "threshold_evaluate t rep now =
     (let res = \<lparr>tr_threshold_id = th_id t, tr_execution_id = rp_execution_id rep, tr_run_id = rp_run_id rep,
                 tr_metric = th_metric t, tr_comparison = th_comparison t, tr_value = th_value t, tr_observed = None,
                 tr_satisfied = None, tr_reason = '''', tr_evaluated_at = now\<rparr>
      in case observe rep (th_metric t) of
           Inl reason \<Rightarrow> res\<lparr>tr_reason := reason\<rparr>
         | Inr observed \<Rightarrow> res\<lparr>tr_observed := Some observed,
             tr_satisfied := Some (bound_satisfied (th_comparison t) observed (th_value t))\<rparr>)"

section \<open>The store\<close>

record threshold_store =
  tk_seq :: int
  tk_thresholds :: "(int, threshold) gomap"
  tk_results :: "(int, threshold_result list) gomap"
  tk_list_err :: "port_err option"
  tk_replace_err :: "port_err option"
  tk_save_results_err :: "port_err option"
  tk_results_err :: "port_err option"

definition new_threshold_store :: threshold_store where
  "new_threshold_store = \<lparr>tk_seq = 0, tk_thresholds = [], tk_results = [], tk_list_err = None, tk_replace_err = None,
     tk_save_results_err = None, tk_results_err = None\<rparr>"

definition list_thresholds_for_scenario :: "threshold_store \<Rightarrow> int \<Rightarrow> port_err + threshold list" where
  "list_thresholds_for_scenario s scenarioID =
     (case tk_list_err s of Some e \<Rightarrow> Inl e
      | None \<Rightarrow> Inr (sort_key th_id (filter (\<lambda>t. th_scenario_id t = scenarioID) (mvals (tk_thresholds s)))))"

text \<open>The loop over the new definitions: kept rows, the ids reused and the store with the insertions.\<close>

fun replace_loop :: "time \<Rightarrow> int \<Rightarrow> threshold list \<Rightarrow> threshold list \<Rightarrow> int list \<Rightarrow> threshold list \<Rightarrow> threshold_store
    \<Rightarrow> threshold list \<times> int list \<times> threshold_store" where
  "replace_loop now scenarioID existing [] matched kept s = (kept, matched, s)"
| "replace_loop now scenarioID existing (d # ds) matched kept s =
     (case find (\<lambda>ex. th_id ex \<notin> set matched \<and> th_metric ex = th_metric d \<and> th_comparison ex = th_comparison d \<and>
                  th_value ex = th_value d) existing of
        Some ex \<Rightarrow> replace_loop now scenarioID existing ds (th_id ex # matched) (kept @ [ex]) s
      | None \<Rightarrow>
          let i = tk_seq s + 1;
              d = d\<lparr>th_scenario_id := scenarioID, th_id := i, th_created_time := now\<rparr>
          in replace_loop now scenarioID existing ds matched (kept @ [d])
               (s\<lparr>tk_seq := i, tk_thresholds := mput i d (tk_thresholds s)\<rparr>))"

definition replace_thresholds :: "time \<Rightarrow> int \<Rightarrow> threshold list \<Rightarrow> (port_err, threshold_store, threshold list) act" where
  "replace_thresholds now scenarioID defs s =
     (case tk_replace_err s of Some e \<Rightarrow> (Inl e, s)
      | None \<Rightarrow>
          let existing = sort_key th_id (filter (\<lambda>t. th_scenario_id t = scenarioID) (mvals (tk_thresholds s)));
              (kept, matched, s) = replace_loop now scenarioID existing defs [] [] s;
              gone = filter (\<lambda>ex. th_id ex \<notin> set matched) existing;
              s = fold (\<lambda>ex s. s\<lparr>tk_thresholds := mdel (th_id ex) (tk_thresholds s),
                    tk_results := map (\<lambda>(run, rows). (run, filter (\<lambda>r. tr_threshold_id r \<in> th_id ` set kept) rows)) (tk_results s)\<rparr>) gone s
          in (Inr kept, s))"

definition save_threshold_results :: "time \<Rightarrow> threshold_result list \<Rightarrow> (port_err, threshold_store, unit) act" where
  "save_threshold_results now results s =
     (case tk_save_results_err s of Some e \<Rightarrow> (Inl e, s)
      | None \<Rightarrow>
          let byRun = fold (\<lambda>r m. let r = (if tr_evaluated_at r = 0 then r\<lparr>tr_evaluated_at := now\<rparr> else r)
                in mput (tr_run_id r) (mget_or [] m (tr_run_id r) @ [r]) m) results []
          in (Inr (), s\<lparr>tk_results := fold (\<lambda>(run, rows). mput run rows) byRun (tk_results s)\<rparr>))"

definition threshold_results_for_run :: "threshold_store \<Rightarrow> int \<Rightarrow> port_err + threshold_result list" where
  "threshold_results_for_run s runID =
     (case tk_results_err s of Some e \<Rightarrow> Inl e | None \<Rightarrow> Inr (mget_or [] (tk_results s) runID))"

section \<open>Saving the same set again\<close>

lemma find_append: "find P (xs @ ys) = (case find P xs of None \<Rightarrow> find P ys | Some x \<Rightarrow> Some x)"
  by (induction xs) auto

lemma replace_loop_same:
  "existing = old @ new \<Longrightarrow> distinct (map th_id existing) \<Longrightarrow> set matched = th_id ` set old \<Longrightarrow>
   replace_loop now sc existing new matched kept s = (kept @ new, rev (map th_id new) @ matched, s)"
proof (induction new arbitrary: old matched kept)
  case (Cons d ds)
  have "find (\<lambda>ex. th_id ex \<notin> set matched \<and> th_metric ex = th_metric d \<and> th_comparison ex = th_comparison d \<and>
      th_value ex = th_value d) old = None" using Cons.prems(3) by (auto simp: find_None_iff)
  moreover have "th_id d \<notin> set matched" using Cons.prems by auto
  ultimately have "find (\<lambda>ex. th_id ex \<notin> set matched \<and> th_metric ex = th_metric d \<and> th_comparison ex = th_comparison d \<and>
      th_value ex = th_value d) existing = Some d" unfolding Cons.prems(1) by (simp add: find_append)
  then show ?case using Cons.IH[of "old @ [d]" "th_id d # matched" "kept @ [d]"] Cons.prems by simp
qed simp

text \<open>
  Saving a scenario's thresholds again as they are stored keeps every row, its identity and its
  recorded results: nothing of the store changes.
\<close>

theorem resave_keeps_thresholds:
  assumes "wf_map (tk_thresholds s)" "\<forall>i t. mget (tk_thresholds s) i = Some t \<longrightarrow> th_id t = i"
    "tk_replace_err s = None" "list_thresholds_for_scenario s sc = Inr ts"
  shows "replace_thresholds now sc ts s = (Inr ts, s)"
proof -
  have ts: "ts = sort_key th_id (filter (\<lambda>t. th_scenario_id t = sc) (mvals (tk_thresholds s)))"
    using assms(4) by (simp add: list_thresholds_for_scenario_def split: option.splits)
  have "map th_id (mvals (tk_thresholds s)) = mkeys (tk_thresholds s)"
    using assms(1,2) by (auto simp: mvals_def mkeys_def mget_in_set)
  then have "distinct (map th_id (mvals (tk_thresholds s)))" using assms(1) by (simp add: wf_map_def mkeys_def)
  then have "distinct (map th_id (filter (\<lambda>t. th_scenario_id t = sc) (mvals (tk_thresholds s))))" by (rule distinct_map_filter)
  then have "distinct (map th_id ts)" unfolding ts by (metis distinct_map distinct_sort mset_sort set_mset_mset set_sort)
  from replace_loop_same[OF _ this, of "[]" ts "[]" now sc "[]" s]
  have loop: "replace_loop now sc ts ts [] [] s = (ts, rev (map th_id ts), s)" by simp
  have "filter (\<lambda>ex. th_id ex \<notin> set (rev (map th_id ts))) ts = []" by (simp add: filter_empty_conv)
  then show ?thesis using assms(3) by (simp add: replace_thresholds_def ts[symmetric] loop)
qed

definition two_scenarios :: threshold_store where
  "two_scenarios = new_threshold_store\<lparr>tk_seq := 2, tk_thresholds :=
     [(1, \<lparr>th_id = 1, th_scenario_id = 10, th_metric = MetricErrorRate, th_comparison = ''lt'', th_value = 0, th_created_time = 5\<rparr>),
      (2, \<lparr>th_id = 2, th_scenario_id = 20, th_metric = MetricErrorRate, th_comparison = ''lt'', th_value = 1, th_created_time = 5\<rparr>)],
     tk_results := [(7, [\<lparr>tr_threshold_id = 2, tr_execution_id = 3, tr_run_id = 7, tr_metric = MetricErrorRate, tr_comparison = ''lt'',
        tr_value = 1, tr_observed = Some 0, tr_satisfied = Some True, tr_reason = '''', tr_evaluated_at = 6\<rparr>])]\<rparr>"

theorem resave_keeps_thresholds_witness:
  "\<exists>ts. list_thresholds_for_scenario two_scenarios 10 = Inr ts \<and> length ts = 1 \<and> replace_thresholds 9 10 ts two_scenarios = (Inr ts, two_scenarios)"
proof -
  obtain ts where ts: "list_thresholds_for_scenario two_scenarios 10 = Inr ts" "length ts = 1"
    by (simp add: two_scenarios_def list_thresholds_for_scenario_def new_threshold_store_def mvals_def)
  moreover have "replace_thresholds 9 10 ts two_scenarios = (Inr ts, two_scenarios)"
    by (rule resave_keeps_thresholds[OF _ _ _ ts(1)])
       (auto simp: two_scenarios_def new_threshold_store_def wf_map_def mget_Cons split: if_splits)
  ultimately show ?thesis by blast
qed

text \<open>
  Deleting a threshold of one scenario also deletes the recorded results of every other
  scenario's runs.
\<close>

theorem replace_drops_other_results:
  "threshold_results_for_run two_scenarios 7 \<noteq> Inr [] \<and>
   threshold_results_for_run (snd (replace_thresholds 9 10 [] two_scenarios)) 7 = Inr [] \<and>
   list_thresholds_for_scenario (snd (replace_thresholds 9 10 [] two_scenarios)) 20 = list_thresholds_for_scenario two_scenarios 20"
  by (simp add: two_scenarios_def new_threshold_store_def threshold_results_for_run_def replace_thresholds_def mvals_def mget_or_def
      mget_Cons list_thresholds_for_scenario_def mdel_filter)

end
