(* ===== verification/World.thy ===== *)
theory World
  imports Report_View Cal_Store Ledger Cluster Calendar Campaign Progress Threshold
begin

text \<open>
  The state the application services of \<open>internal/app\<close> share: one record with the stores, the
  scheduler, the object store and the in-memory state of the metric service, the errors the
  services return, and the embedding of the store operations into it. Every service reads the same
  clock \<open>w_now\<close>, which no operation moves.
\<close>

record metric =
  em_threads :: rat
  em_latency :: rat
  em_label :: string
  em_status :: string
  em_execution_id :: string
  em_scenario_id :: string
  em_engine_id :: string
  em_run_id :: string

text \<open>The metrics sink of \<open>internal/ports/fake/metrics.go\<close>.\<close>

record metrics_sink =
  mk_recorded :: "metric list"
  mk_deleted :: "int list"

record cluster_counts =
  cc_samples :: int
  cc_failed :: int

record world =
  w_now :: time
  w_catalog :: catalog
  w_runs :: run_store
  w_ledger :: ledger
  w_calendar :: calendar
  w_campaigns :: campaign_store
  w_calibs :: cal_store
  w_sched :: scheduler
  w_objects :: object_store
  w_progress :: progress
  w_reports :: report_store
  w_thresholds :: threshold_store
  w_seen :: "(int, string list) gomap"
  w_tally :: "(int, (string, cluster_counts) gomap) gomap"
  w_sink :: metrics_sink
  w_published :: "(int \<times> metric) list"
  w_notified :: "(int \<times> report) list"

definition new_world :: "time \<Rightarrow> world" where
  "new_world t = \<lparr>w_now = t, w_catalog = new_catalog, w_runs = new_run_store, w_ledger = new_ledger,
     w_calendar = new_calendar, w_campaigns = new_campaign_store, w_calibs = new_cal_store, w_sched = new_scheduler,
     w_objects = new_object_store, w_progress = new_progress, w_reports = new_report_store,
     w_thresholds = new_threshold_store, w_seen = [], w_tally = [],
     w_sink = \<lparr>mk_recorded = [], mk_deleted = []\<rparr>, w_published = [], w_notified = []\<rparr>"

section \<open>Errors of the services\<close>

text \<open>
  One constructor per error the services build or pass on. A wrapped error keeps the error it wraps,
  so that \<open>errors.Is\<close> and \<open>errors.As\<close> of the code are matches on it.
\<close>

datatype cal_app_err = ErrExecutionNotCalibration int | ErrEngineRequired | ErrSourceScenarioNotBound int int
  | ErrNoCalibrationExecution int | ErrEnvironmentImpaired | ErrNotConfiguredForAdvance | ErrFingerprintNotConfigured
  | ErrScenarioNotConfigured int | ErrRequestedQPSInvalid rat | ErrStepRunNotStarted int

datatype app_err =
    APort port_err
  | ARun run_err
  | AReport report_err
  | AReservation reservation_err
  | AOverQuota int string int int int bool
  | ANoStopper
  | ACampaignFrozen string
  | AEnginesFinished int
  | ANoTestFile int
  | AShard shard_err
  | ACompile compile_err
  | AImage string
  | ATrace string
  | AQuantity string
  | AYaml int
  | AFanOut string app_err
  | ATrigger "app_err list"
  | ANoActiveRun int
  | AStaleRun int int
  | ASchedule schedule_err
  | AUnauthorized
  | ACampaign campaign_err
  | ACalibration calibration_err
  | AThreshold int threshold_err
  | AProfile loadprofile_err
  | AExecution execution_err
  | ACriterion
  | ACalApp cal_app_err
  | ANeverSettled int app_err
  | ANeverTriggerable int app_err
  | AOther string

section \<open>Store operations on the world\<close>

type_synonym 'a app = "(app_err, world, 'a) act"

definition in_catalog :: "(port_err, catalog, 'a) act \<Rightarrow> 'a app" where
  "in_catalog m = wrap_err APort (zoom w_catalog (\<lambda>s w. w\<lparr>w_catalog := s\<rparr>) m)"

definition in_runs :: "(port_err, run_store, 'a) act \<Rightarrow> 'a app" where
  "in_runs m = wrap_err APort (zoom w_runs (\<lambda>s w. w\<lparr>w_runs := s\<rparr>) m)"

definition in_ledger :: "(port_err, ledger, 'a) act \<Rightarrow> 'a app" where
  "in_ledger m = wrap_err APort (zoom w_ledger (\<lambda>s w. w\<lparr>w_ledger := s\<rparr>) m)"

definition in_calendar :: "(port_err, calendar, 'a) act \<Rightarrow> 'a app" where
  "in_calendar m = wrap_err APort (zoom w_calendar (\<lambda>s w. w\<lparr>w_calendar := s\<rparr>) m)"

definition in_campaigns :: "(port_err, campaign_store, 'a) act \<Rightarrow> 'a app" where
  "in_campaigns m = wrap_err APort (zoom w_campaigns (\<lambda>s w. w\<lparr>w_campaigns := s\<rparr>) m)"

definition in_calibs :: "(port_err, cal_store, 'a) act \<Rightarrow> 'a app" where
  "in_calibs m = wrap_err APort (zoom w_calibs (\<lambda>s w. w\<lparr>w_calibs := s\<rparr>) m)"

definition in_sched :: "(port_err, scheduler, 'a) act \<Rightarrow> 'a app" where
  "in_sched m = wrap_err APort (zoom w_sched (\<lambda>s w. w\<lparr>w_sched := s\<rparr>) m)"

definition in_objects :: "(port_err, object_store, 'a) act \<Rightarrow> 'a app" where
  "in_objects m = wrap_err APort (zoom w_objects (\<lambda>s w. w\<lparr>w_objects := s\<rparr>) m)"

definition in_progress :: "(port_err, progress, 'a) act \<Rightarrow> 'a app" where
  "in_progress m = wrap_err APort (zoom w_progress (\<lambda>s w. w\<lparr>w_progress := s\<rparr>) m)"

definition in_reports :: "(port_err, report_store, 'a) act \<Rightarrow> 'a app" where
  "in_reports m = wrap_err APort (zoom w_reports (\<lambda>s w. w\<lparr>w_reports := s\<rparr>) m)"

definition in_thresholds :: "(port_err, threshold_store, 'a) act \<Rightarrow> 'a app" where
  "in_thresholds m = wrap_err APort (zoom w_thresholds (\<lambda>s w. w\<lparr>w_thresholds := s\<rparr>) m)"

text \<open>A read that may fail, and an operation that needs the clock.\<close>

definition fetch :: "(world \<Rightarrow> port_err + 'a) \<Rightarrow> 'a app" where
  "fetch f w = (map_sum APort id (f w), w)"

definition timed :: "(time \<Rightarrow> 'a app) \<Rightarrow> 'a app" where
  "timed f w = f (w_now w) w"

lemmas store_ops = in_catalog_def in_runs_def in_ledger_def in_calendar_def in_campaigns_def in_calibs_def
  in_sched_def in_objects_def in_progress_def in_reports_def in_thresholds_def

subsection \<open>What a store operation leaves alone\<close>

text \<open>
  An invariant of one store holds after an operation on another. The projections of the world are
  the views the invariants are stated over.
\<close>

lemma snd_wrap_err [simp]: "snd (wrap_err e m s) = snd (m s)"
  by (simp add: wrap_err_def split: prod.split sum.split)

lemma snd_store_ops [simp]:
  "snd (in_catalog m1 w) = w\<lparr>w_catalog := snd (m1 (w_catalog w))\<rparr>"
  "snd (in_runs m2 w) = w\<lparr>w_runs := snd (m2 (w_runs w))\<rparr>"
  "snd (in_ledger m3 w) = w\<lparr>w_ledger := snd (m3 (w_ledger w))\<rparr>"
  "snd (in_calendar m4 w) = w\<lparr>w_calendar := snd (m4 (w_calendar w))\<rparr>"
  "snd (in_campaigns m5 w) = w\<lparr>w_campaigns := snd (m5 (w_campaigns w))\<rparr>"
  "snd (in_calibs m6 w) = w\<lparr>w_calibs := snd (m6 (w_calibs w))\<rparr>"
  "snd (in_sched m7 w) = w\<lparr>w_sched := snd (m7 (w_sched w))\<rparr>"
  "snd (in_objects m8 w) = w\<lparr>w_objects := snd (m8 (w_objects w))\<rparr>"
  "snd (in_progress m9 w) = w\<lparr>w_progress := snd (m9 (w_progress w))\<rparr>"
  "snd (in_reports m10 w) = w\<lparr>w_reports := snd (m10 (w_reports w))\<rparr>"
  "snd (in_thresholds m11 w) = w\<lparr>w_thresholds := snd (m11 (w_thresholds w))\<rparr>"
  by (simp_all add: store_ops zoom_snd)

lemma map_sum_Inr_iff [simp]: "map_sum f id s = Inr x \<longleftrightarrow> s = Inr x"
  by (cases s) auto

lemma keeps_fetch [keeps_rules]: "keeps I (fetch f)"
  by (simp add: keeps_def fetch_def)

lemma keeps_timed [keeps_rules]: "(\<And>t. keeps I (f t)) \<Longrightarrow> keeps I (timed f)"
  by (simp add: keeps_def timed_def)

lemma store_op_eq:
  "in_catalog m1 w = (map_sum APort id (fst (m1 (w_catalog w))), w\<lparr>w_catalog := snd (m1 (w_catalog w))\<rparr>)"
  "in_runs m2 w = (map_sum APort id (fst (m2 (w_runs w))), w\<lparr>w_runs := snd (m2 (w_runs w))\<rparr>)"
  "in_ledger m3 w = (map_sum APort id (fst (m3 (w_ledger w))), w\<lparr>w_ledger := snd (m3 (w_ledger w))\<rparr>)"
  "in_calendar m4 w = (map_sum APort id (fst (m4 (w_calendar w))), w\<lparr>w_calendar := snd (m4 (w_calendar w))\<rparr>)"
  "in_campaigns m5 w = (map_sum APort id (fst (m5 (w_campaigns w))), w\<lparr>w_campaigns := snd (m5 (w_campaigns w))\<rparr>)"
  "in_calibs m6 w = (map_sum APort id (fst (m6 (w_calibs w))), w\<lparr>w_calibs := snd (m6 (w_calibs w))\<rparr>)"
  "in_sched m7 w = (map_sum APort id (fst (m7 (w_sched w))), w\<lparr>w_sched := snd (m7 (w_sched w))\<rparr>)"
  "in_objects m8 w = (map_sum APort id (fst (m8 (w_objects w))), w\<lparr>w_objects := snd (m8 (w_objects w))\<rparr>)"
  "in_progress m9 w = (map_sum APort id (fst (m9 (w_progress w))), w\<lparr>w_progress := snd (m9 (w_progress w))\<rparr>)"
  "in_reports m10 w = (map_sum APort id (fst (m10 (w_reports w))), w\<lparr>w_reports := snd (m10 (w_reports w))\<rparr>)"
  "in_thresholds m11 w = (map_sum APort id (fst (m11 (w_thresholds w))), w\<lparr>w_thresholds := snd (m11 (w_thresholds w))\<rparr>)"
  by (simp_all add: store_ops zoom_def wrap_err_def split: prod.split sum.split)

end
