(* ===== verification/Quota.thy ===== *)
theory Quota
  imports World
begin

text \<open>
  The quota service of \<open>internal/app/quotaapp/service.go\<close>: admission of a reservation under a
  tenant's ceiling on a cluster, reclaiming capacity of executions that overran their window, and
  the capacity figures of a cluster. The service stops executions through an interface, here the
  argument \<open>stop\<close>; the laws it needs of it are the locale \<open>stopper\<close>. The tenant lock of
  \<open>Reserve\<close> is the atomicity of the operation.
\<close>

section \<open>Operations\<close>

definition quota_ceiling :: "ledger \<Rightarrow> int \<Rightarrow> string \<Rightarrow> int" where
  "quota_ceiling s tenantID cluster =
     (case get_quota s tenantID cluster of (ceil, configured) \<Rightarrow> if \<not> configured then DefaultCeiling else ceil)"

definition overrun_reservations :: "world \<Rightarrow> int \<Rightarrow> string \<Rightarrow> reservation list" where
  "overrun_reservations w tenantID cluster =
     filter (\<lambda>r. rv_end r < w_now w \<and> current_run (w_runs w) (rv_execution_id r) \<noteq> None)
       (reservations_for_tenant (w_ledger w) tenantID cluster)"

definition used_capacity :: "world \<Rightarrow> int \<Rightarrow> string \<Rightarrow> time \<Rightarrow> time \<Rightarrow> int \<times> reservation list" where
  "used_capacity w tenantID cluster t_start t_end =
     (let existing = reservations_in_window (w_ledger w) tenantID cluster t_start t_end;
          overrun = overrun_reservations w tenantID cluster
      in (sum64 (map rv_engine_count overrun) (sum64 (map rv_engine_count existing) 0), overrun))"

fun reclaim_loop :: "(int \<Rightarrow> unit app) \<Rightarrow> reservation list \<Rightarrow> int \<Rightarrow> int \<Rightarrow> int app" where
  "reclaim_loop stop [] needed freed = ret freed"
| "reclaim_loop stop (r # rs) needed freed =
     (if needed \<le> freed then ret freed
      else attempt (stop (rv_execution_id r)) (\<lambda>res. case res of
        Inl e \<Rightarrow> if e = ANoStopper then ret freed else fail e
      | Inr _ \<Rightarrow> reclaim_loop stop rs needed (i64 (freed + rv_engine_count r))))"

definition reclaim_overrun :: "(int \<Rightarrow> unit app) \<Rightarrow> reservation list \<Rightarrow> int \<Rightarrow> int app" where
  "reclaim_overrun stop overrun needed = reclaim_loop stop (sort_key rv_end overrun) needed 0"

text \<open>Without a wired stopper.\<close>

definition noop_stopper :: "int \<Rightarrow> unit app" where
  "noop_stopper executionID = fail ANoStopper"

definition reserve :: "(int \<Rightarrow> unit app) \<Rightarrow> int \<Rightarrow> string \<Rightarrow> int \<Rightarrow> time \<Rightarrow> time \<Rightarrow> int \<Rightarrow> reservation app" where
  "reserve stop tenantID cluster engineCount t_start t_end executionID =
     (let r = \<lparr>rv_id = 0, rv_tenant_id = tenantID, rv_cluster = cluster, rv_engine_count = engineCount,
               rv_start = t_start, rv_end = t_end, rv_execution_id = executionID\<rparr>
      in call (check (map_option AReservation (reservation_validate r))) (\<lambda>_.
         call (readst (\<lambda>w. (quota_ceiling (w_ledger w) tenantID cluster,
                            used_capacity w tenantID cluster t_start t_end, w_now w))) (\<lambda>(ceil, (used, overrun), now).
         call (if ceil < i64 (used + engineCount) \<and> \<not> now < t_start
               then reclaim_overrun stop overrun (i64 (i64 (used + engineCount) - ceil)) else ret 0) (\<lambda>freed.
         (let used = i64 (used - freed) in
          if ceil < i64 (used + engineCount)
          then fail (AOverQuota tenantID cluster engineCount used ceil (ceil = 0))
          else call (in_ledger (create_reservation r)) (\<lambda>i. ret (r\<lparr>rv_id := i\<rparr>)))))))"

definition release :: "int \<Rightarrow> unit app" where
  "release executionID = in_ledger (release_reservations_for_execution executionID)"

definition cluster_capacity :: "world \<Rightarrow> string \<Rightarrow> int \<times> int" where
  "cluster_capacity w cluster =
     (let quotas = list_cluster_quotas (w_ledger w) cluster
      in (sum64 (map (\<lambda>(t, _). fst (used_capacity w t cluster (w_now w) (w_now w))) quotas) 0, sum64 (map snd quotas) 0))"

section \<open>The ceiling\<close>

text \<open>
  A ledger respects the ceilings when at no instant a tenant's reservations on a cluster exceed
  it. \<open>ledger_small\<close> says that twice the ledger's engines still fit the 64-bit sums.
\<close>

definition within_ceiling :: "ledger \<Rightarrow> int \<Rightarrow> string \<Rightarrow> bool" where
  "within_ceiling s tid cl \<longleftrightarrow> (\<forall>t. load_at s tid cl t \<le> quota_ceiling s tid cl)"

definition ledger_small :: "ledger \<Rightarrow> int \<Rightarrow> bool" where
  "ledger_small s n \<longleftrightarrow> 2 * engines_of (mvals (lg_reservations s)) + \<bar>n\<bar> < 2 ^ 63"

text \<open>A ledger that keeps some of another's reservations and its ceilings.\<close>

definition sub_ledger :: "ledger \<Rightarrow> ledger \<Rightarrow> bool" where
  "sub_ledger s s' \<longleftrightarrow> (\<exists>P. lg_reservations s' = filter P (lg_reservations s)) \<and> lg_ceilings s' = lg_ceilings s \<and> lg_seq s' = lg_seq s"

lemma sub_ledger_refl [simp]: "sub_ledger s s"
  by (auto simp: sub_ledger_def intro!: exI[of _ "\<lambda>_. True"])

lemma sub_ledger_trans: "sub_ledger a b \<Longrightarrow> sub_ledger b c \<Longrightarrow> sub_ledger a c"
  unfolding sub_ledger_def by (metis filter_filter)

lemma sub_ledger_ok:
  assumes "sub_ledger s s'" "ledger_ok s"
  shows "ledger_ok s'"
proof -
  obtain P where P: "lg_reservations s' = filter P (lg_reservations s)" "lg_seq s' = lg_seq s"
    using assms(1) by (auto simp: sub_ledger_def)
  have w: "wf_map (lg_reservations s)" "wf_map (lg_reservations s')" using assms(2) P(1) by (auto simp: ledger_ok_def)
  have "mget (lg_reservations s) i = Some r" if "mget (lg_reservations s') i = Some r" for i r
    using that P(1) mget_in_set[OF w(1), of i r] mget_in_set[OF w(2), of i r] by auto
  then show ?thesis using assms(2) P w unfolding ledger_ok_def by auto
qed

lemma sub_ledger_ceiling: "sub_ledger s s' \<Longrightarrow> quota_ceiling s' tid cl = quota_ceiling s tid cl"
  by (simp add: sub_ledger_def quota_ceiling_def get_quota_def)

lemma sub_ledger_engines:
  assumes "sub_ledger s s'" "ledger_ok s"
  shows "engines_of (filter Q (mvals (lg_reservations s'))) \<le> engines_of (filter Q (mvals (lg_reservations s)))"
proof -
  obtain P where P: "lg_reservations s' = filter P (lg_reservations s)" using assms(1) by (auto simp: sub_ledger_def)
  have nonneg: "\<forall>r \<in> set (mvals (lg_reservations s)). 0 \<le> rv_engine_count r"
    using ledger_positive[OF assms(2)] by (auto intro: less_imp_le)
  have "engines_of (filter Q (mvals (filter P m))) \<le> engines_of (filter Q (mvals m))"
    if "\<forall>r \<in> set (mvals m). 0 \<le> rv_engine_count r" for m :: "(int, reservation) gomap"
    using that by (induction m) (auto simp: engines_of_def mvals_def)
  from this[OF nonneg] show ?thesis by (simp add: P)
qed

lemma sub_ledger_load: "sub_ledger s s' \<Longrightarrow> ledger_ok s \<Longrightarrow> load_at s' tid cl t \<le> load_at s tid cl t"
  unfolding load_at_def by (rule sub_ledger_engines)

lemma sub_ledger_within: "sub_ledger s s' \<Longrightarrow> ledger_ok s \<Longrightarrow> within_ceiling s tid cl \<Longrightarrow> within_ceiling s' tid cl"
  unfolding within_ceiling_def by (simp add: sub_ledger_ceiling) (meson order_trans sub_ledger_load)

lemma release_sub_ledger: "sub_ledger s (snd (release_reservations_for_execution e s))"
  by (auto simp: sub_ledger_def release_reservations_for_execution_def)

section \<open>Admission\<close>

lemma engines_of_append [simp]: "engines_of (xs @ ys) = engines_of xs + engines_of ys"
  by (simp add: engines_of_def)

lemma engines_of_sort [simp]: "engines_of (sort_key k xs) = engines_of xs"
proof -
  have "mset (map rv_engine_count (sort_key k xs)) = mset (map rv_engine_count xs)" by simp
  then have "sum_mset (mset (map rv_engine_count (sort_key k xs))) = sum_mset (mset (map rv_engine_count xs))" by (rule arg_cong)
  then show ?thesis unfolding engines_of_def sum_mset_sum_list .
qed

lemma used_capacity_exact:
  fixes tid :: int and cl :: string and t_start t_end :: time
  assumes "ledger_ok (w_ledger w)" "ledger_small (w_ledger w) n"
  defines "W \<equiv> engines_of (reservations_in_window (w_ledger w) tid cl t_start t_end)"
  defines "O' \<equiv> engines_of (overrun_reservations w tid cl)"
  shows "used_capacity w tid cl t_start t_end = (W + O', overrun_reservations w tid cl)"
    "0 \<le> W" "0 \<le> O'" "W + O' + \<bar>n\<bar> < 2 ^ 63"
proof -
  let ?all = "mvals (lg_reservations (w_ledger w))"
  have pos: "\<forall>r \<in> set ?all. 0 \<le> rv_engine_count r" using ledger_positive[OF assms(1)] by (auto intro: less_imp_le)
  have le: "engines_of (filter P ?all) \<le> engines_of ?all" for P
    using engines_of_filter_mono[OF pos, of P "\<lambda>_. True"] by simp
  have W: "W \<le> engines_of ?all" "0 \<le> W" and O': "O' \<le> engines_of ?all" "0 \<le> O'"
    using le pos unfolding W_def O'_def reservations_in_window_def overrun_reservations_def reservations_for_tenant_def Let_def
    by (auto simp del: filter_filter intro!: engines_of_nonneg simp: filter_filter)
  show "0 \<le> W" "0 \<le> O'" by fact+
  show small: "W + O' + \<bar>n\<bar> < 2 ^ 63" using W O' assms(2) unfolding ledger_small_def by linarith
  have "sum64 (map rv_engine_count (overrun_reservations w tid cl))
      (sum64 (map rv_engine_count (reservations_in_window (w_ledger w) tid cl t_start t_end)) 0) = i64 (W + O')"
    unfolding sum64_0 sum64_eq W_def O'_def engines_of_def by (rule refl)
  moreover have "in_i64 (W + O')" using small W O' by (simp add: in_i64_def)
  ultimately show "used_capacity w tid cl t_start t_end = (W + O', overrun_reservations w tid cl)"
    by (simp add: used_capacity_def Let_def)
qed

lemma load_create:
  assumes "ledger_ok s"
  shows "load_at (snd (create_reservation r s)) tid cl t = load_at s tid cl t + (if holds_at tid cl t r then rv_engine_count r else 0)"
  unfolding create_reservation_eq[OF assms] load_at_def
  by (auto simp: mvals_def holds_at_def engines_of_def)

lemma ceiling_create [simp]: "quota_ceiling (snd (create_reservation r s)) tid cl = quota_ceiling s tid cl"
  by (simp add: create_reservation_def Let_def quota_ceiling_def get_quota_def)

text \<open>A reservation that fits its whole window leaves every ceiling respected.\<close>

lemma create_within:
  assumes "ledger_ok s" "\<forall>tid cl. within_ceiling s tid cl" "0 \<le> rv_engine_count r"
    "engines_of (reservations_in_window s (rv_tenant_id r) (rv_cluster r) (rv_start r) (rv_end r)) + rv_engine_count r
       \<le> quota_ceiling s (rv_tenant_id r) (rv_cluster r)"
  shows "within_ceiling (snd (create_reservation r s)) tid cl"
proof -
  have "load_at s tid cl t + rv_engine_count r \<le> quota_ceiling s tid cl" if "holds_at tid cl t r" for t
    using load_at_window[OF assms(1), of "rv_start r" t "rv_end r" "rv_tenant_id r" "rv_cluster r"] that assms(4)
    by (auto simp: holds_at_def)
  then show ?thesis using assms(2) unfolding within_ceiling_def by (auto simp: load_create[OF assms(1)])
qed

text \<open>An evaluation of \<open>Reserve\<close> on a validated request.\<close>

lemma reserve_eval:
  fixes tid :: int and cl :: string and n :: int and ts te :: time and e :: int
  defines "r0 \<equiv> \<lparr>rv_id = 0, rv_tenant_id = tid, rv_cluster = cl, rv_engine_count = n, rv_start = ts, rv_end = te, rv_execution_id = e\<rparr>"
  assumes "reservation_validate r0 = None" "used_capacity w tid cl ts te = (used, over)" "ceil = quota_ceiling (w_ledger w) tid cl"
    "(if ceil < i64 (used + n) \<and> \<not> w_now w < ts then reclaim_overrun stop over (i64 (i64 (used + n) - ceil)) else ret 0) w = (fr, w1)"
  shows "reserve stop tid cl n ts te e w = (case fr of Inl err \<Rightarrow> (Inl err, w1) | Inr f \<Rightarrow>
      if ceil < i64 (i64 (used - f) + n) then (Inl (AOverQuota tid cl n (i64 (used - f)) ceil (ceil = 0)), w1)
      else (Inr (r0\<lparr>rv_id := lg_seq (w_ledger w1) + 1\<rparr>), w1\<lparr>w_ledger := snd (create_reservation r0 (w_ledger w1))\<rparr>))"
proof -
  have cr: "call (in_ledger (create_reservation r0)) (\<lambda>i. ret (r0\<lparr>rv_id := i\<rparr>)) w1 =
      (Inr (r0\<lparr>rv_id := lg_seq (w_ledger w1) + 1\<rparr>), w1\<lparr>w_ledger := snd (create_reservation r0 (w_ledger w1))\<rparr>)"
    by (simp add: store_ops wrap_err_def zoom_def call_def ret_def create_reservation_def Let_def)
  have rd: "call (readst f) k w = k (f w) w" for f k by (simp add: call_def readst_def)
  let ?m = "if ceil < i64 (used + n) \<and> \<not> w_now w < ts then reclaim_overrun stop over (i64 (i64 (used + n) - ceil)) else ret 0"
  have cc: "call ?m k w = (case fr of Inl err \<Rightarrow> (Inl err, w1) | Inr x \<Rightarrow> k x w1)" for k
    unfolding call_def assms(5) by (simp split: sum.split)
  show ?thesis
    unfolding reserve_def Let_def r0_def[symmetric] assms(2) option.map check_simps call_ret rd assms(3) assms(4)[symmetric] prod.case cc
    by (simp add: cr fail_def split: sum.split)
qed

text \<open>
  What the admission relies on: stopping an execution only ever takes reservations away.
\<close>

locale stopper =
  fixes stop :: "int \<Rightarrow> unit app"
  assumes stop_removes: "sub_ledger (w_ledger w) (w_ledger (snd (stop e w)))"
begin

lemma reclaim_sub: "sub_ledger (w_ledger w) (w_ledger (snd (reclaim_loop stop rs needed freed w)))"
proof (induction rs arbitrary: w freed)
  case (Cons r rs)
  obtain res w1 where st: "stop (rv_execution_id r) w = (res, w1)" by (cases "stop (rv_execution_id r) w")
  have sub: "sub_ledger (w_ledger w) (w_ledger w1)" using stop_removes[of w "rv_execution_id r"] st by simp
  show ?case
    using Cons.IH[of w1] sub by (auto simp: attempt_def st ret_def fail_def split: sum.split intro: sub_ledger_trans)
qed (simp add: ret_def)

lemma reclaim_bounds:
  assumes "reclaim_loop stop rs needed freed w = (Inr f, w')" "\<forall>r \<in> set rs. 0 \<le> rv_engine_count r"
    "0 \<le> freed" "freed + engines_of rs < 2 ^ 63"
  shows "freed \<le> f \<and> f \<le> freed + engines_of rs"
  using assms
proof (induction rs arbitrary: w freed)
  case Nil
  then show ?case by (simp add: ret_def engines_of_def)
next
  case (Cons r rs)
  have nn: "0 \<le> engines_of rs" "0 \<le> rv_engine_count r" using Cons.prems(2) by (auto intro: engines_of_nonneg)
  have eng: "engines_of (r # rs) = rv_engine_count r + engines_of rs" by (simp add: engines_of_def)
  have in64: "i64 (freed + rv_engine_count r) = freed + rv_engine_count r"
    using Cons.prems(3,4) nn eng by (intro i64_id) (simp add: in_i64_def)
  obtain res w1 where st: "stop (rv_execution_id r) w = (res, w1)" by (cases "stop (rv_execution_id r) w")
  show ?case
  proof (cases "needed \<le> freed")
    case True
    then show ?thesis using Cons.prems(1) nn eng by (simp add: ret_def)
  next
    case False
    show ?thesis
    proof (cases res)
      case (Inl e)
      then show ?thesis using Cons.prems(1) False st nn eng by (auto simp: attempt_def ret_def fail_def split: if_splits)
    next
      case (Inr u)
      then have "reclaim_loop stop rs needed (freed + rv_engine_count r) w1 = (Inr f, w')"
        using Cons.prems(1) False st in64 by (simp add: attempt_def)
      from Cons.IH[OF this] show ?thesis using Cons.prems(2-4) nn eng by simp
    qed
  qed
qed

lemma reserve_effect:
  assumes "ledger_ok (w_ledger w)" "ledger_small (w_ledger w) n" "reserve stop tid cl n ts te e w = (res, w')"
  defines "r0 \<equiv> \<lparr>rv_id = 0, rv_tenant_id = tid, rv_cluster = cl, rv_engine_count = n, rv_start = ts, rv_end = te, rv_execution_id = e\<rparr>"
  shows "(\<exists>err. res = Inl err \<and> sub_ledger (w_ledger w) (w_ledger w')) \<or>
    (\<exists>w1. sub_ledger (w_ledger w) (w_ledger w1) \<and> reservation_validate r0 = None \<and>
      res = Inr (r0\<lparr>rv_id := lg_seq (w_ledger w1) + 1\<rparr>) \<and> w' = w1\<lparr>w_ledger := snd (create_reservation r0 (w_ledger w1))\<rparr> \<and>
      engines_of (reservations_in_window (w_ledger w1) tid cl ts te) + n \<le> quota_ceiling (w_ledger w1) tid cl)"
proof (cases "reservation_validate r0")
  case (Some v)
  then show ?thesis using assms(3) unfolding reserve_def Let_def r0_def by (auto simp: check_def call_def fail_def)
next
  case None
  define ceil where "ceil = quota_ceiling (w_ledger w) tid cl"
  define over where "over = overrun_reservations w tid cl"
  define W where "W = engines_of (reservations_in_window (w_ledger w) tid cl ts te)"
  note used = used_capacity_exact(1,2,4)[OF assms(1,2), of tid cl ts te, folded W_def over_def]
    used_capacity_exact(3)[OF assms(1,2), of tid cl, folded over_def]
  have n: "0 < n" using None by (simp add: r0_def reservation_validate_def split: if_splits)
  have in64: "i64 (W + engines_of over + n) = W + engines_of over + n"
    using used n by (intro i64_id) (simp add: in_i64_def)
  obtain fr w1 where fr: "(if ceil < W + engines_of over + n \<and> \<not> w_now w < ts
      then reclaim_overrun stop over (i64 (W + engines_of over + n - ceil)) else ret 0) w = (fr, w1)" by fastforce
  have sub: "sub_ledger (w_ledger w) (w_ledger w1)"
    using reclaim_sub[of w "sort_key rv_end over" "i64 (W + engines_of over + n - ceil)" 0] fr unfolding reclaim_overrun_def
    by (auto simp: ret_def split: if_splits)
  note run = reserve_eval[OF None[unfolded r0_def] used(1) ceil_def, unfolded in64, OF fr, folded r0_def]
  show ?thesis
  proof (cases fr)
    case (Inl err)
    then show ?thesis using run sub assms(3) by simp
  next
    case (Inr f)
    have "0 \<le> f \<and> f \<le> engines_of over"
    proof (cases "ceil < W + engines_of over + n \<and> \<not> w_now w < ts")
      case True
      have pos: "\<forall>r \<in> set (sort_key rv_end over). 0 \<le> rv_engine_count r"
        using ledger_positive[OF assms(1)]
        by (auto simp: over_def overrun_reservations_def reservations_for_tenant_def intro: less_imp_le)
      from True fr Inr have "reclaim_loop stop (sort_key rv_end over) (i64 (W + engines_of over + n - ceil)) 0 w = (Inr f, w1)"
        by (simp add: reclaim_overrun_def)
      from reclaim_bounds[OF this pos] show ?thesis using used by simp
    next
      case False
      then show ?thesis using fr[unfolded if_not_P[OF False]] Inr used by (simp add: ret_def)
    qed
    then have u: "i64 (W + engines_of over - f) = W + engines_of over - f"
      "i64 (W + engines_of over - f + n) = W + engines_of over - f + n" and Wf: "W \<le> W + engines_of over - f"
      using used n by (auto intro!: i64_id simp: in_i64_def)
    have "engines_of (reservations_in_window (w_ledger w1) tid cl ts te) \<le> W"
      unfolding W_def reservations_in_window_def Let_def by (rule sub_ledger_engines[OF sub assms(1)])
    then show ?thesis using run Inr u Wf sub None assms(3) sub_ledger_ceiling[OF sub, of tid cl]
      by (auto simp: ceil_def split: if_splits)
  qed
qed

lemma reserve_within:
  assumes "ledger_ok (w_ledger w)" "ledger_small (w_ledger w) n" "\<forall>tid cl. within_ceiling (w_ledger w) tid cl"
    "reserve stop tid cl n ts te e w = (res, w')"
  shows "ledger_ok (w_ledger w') \<and> (\<forall>tid cl. within_ceiling (w_ledger w') tid cl)"
  using reserve_effect[OF assms(1,2,4)]
proof (elim disjE exE conjE)
  fix err assume "sub_ledger (w_ledger w) (w_ledger w')"
  then show ?thesis using assms(1,3) sub_ledger_ok sub_ledger_within by blast
next
  fix w1
  let ?r = "\<lparr>rv_id = 0, rv_tenant_id = tid, rv_cluster = cl, rv_engine_count = n, rv_start = ts, rv_end = te, rv_execution_id = e\<rparr>"
  assume sub: "sub_ledger (w_ledger w) (w_ledger w1)" and v: "reservation_validate ?r = None"
    and w': "w' = w1\<lparr>w_ledger := snd (create_reservation ?r (w_ledger w1))\<rparr>"
    and fits: "engines_of (reservations_in_window (w_ledger w1) tid cl ts te) + n \<le> quota_ceiling (w_ledger w1) tid cl"
  have ok: "ledger_ok (w_ledger w1)" using sub assms(1) by (rule sub_ledger_ok)
  have within: "\<forall>tid cl. within_ceiling (w_ledger w1) tid cl" using sub_ledger_within[OF sub assms(1)] assms(3) by blast
  show ?thesis using create_reservation_ok[OF ok v] create_within[OF ok within, of ?r] fits v by (simp add: w' validate_None)
qed

end

text \<open>
  A stopper that succeeds on what it can stop, without taking that from other executions, and
  answers one error otherwise.
\<close>

locale effective_stopper = stopper +
  fixes stoppable :: "int \<Rightarrow> world \<Rightarrow> bool" and refusal :: app_err
  assumes stop_works: "stoppable e w \<Longrightarrow> fst (stop e w) = Inr ()"
    and stop_local: "e' \<noteq> e \<Longrightarrow> stoppable e' w \<Longrightarrow> stoppable e' (snd (stop e w))"
    and stop_refuses: "fst (stop e w) = Inl err \<Longrightarrow> err = refusal"
    and refusal: "refusal \<noteq> ANoStopper"
begin

text \<open>Reclaiming frees what is needed or everything, unless the stopper refuses.\<close>

lemma reclaim_frees:
  assumes "\<forall>r \<in> set rs. 0 \<le> rv_engine_count r" "0 \<le> freed" "freed + engines_of rs < 2 ^ 63"
  shows "(\<exists>w'. reclaim_loop stop rs needed freed w = (Inl refusal, w')) \<or>
    (\<exists>f w'. reclaim_loop stop rs needed freed w = (Inr f, w') \<and> (needed \<le> f \<or> f = freed + engines_of rs))"
  using assms
proof (induction rs arbitrary: w freed)
  case Nil
  then show ?case by (simp add: ret_def engines_of_def)
next
  case (Cons r rs)
  have nn: "0 \<le> engines_of rs" "0 \<le> rv_engine_count r" using Cons.prems(1) by (auto intro: engines_of_nonneg)
  have eng: "engines_of (r # rs) = rv_engine_count r + engines_of rs" by (simp add: engines_of_def)
  have in64: "i64 (freed + rv_engine_count r) = freed + rv_engine_count r"
    using Cons.prems(2,3) nn eng by (intro i64_id) (simp add: in_i64_def)
  show ?case
  proof (cases "stop (rv_execution_id r) w")
    case (Pair res w1)
    show ?thesis
    proof (cases res)
      case (Inl err)
      then have "err = refusal" using stop_refuses[of "rv_execution_id r" w err] Pair by simp
      then show ?thesis using Inl Pair refusal by (auto simp: ret_def attempt_def fail_def)
    next
      case (Inr u)
      then show ?thesis using Cons.IH[of "freed + rv_engine_count r" w1] Cons.prems nn eng in64 Pair by (auto simp: ret_def attempt_def)
    qed
  qed
qed

lemma reclaim_unrefused:
  assumes "distinct (map rv_execution_id rs)" "\<forall>r \<in> set rs. stoppable (rv_execution_id r) w"
  shows "\<not> isl (fst (reclaim_loop stop rs needed freed w))"
  using assms
proof (induction rs arbitrary: w freed)
  case (Cons r rs)
  obtain w1 where st: "stop (rv_execution_id r) w = (Inr (), w1)"
    using stop_works[of "rv_execution_id r" w] Cons.prems(2) by (cases "stop (rv_execution_id r) w") auto
  have "\<forall>r' \<in> set rs. stoppable (rv_execution_id r') w1"
  proof
    fix r' assume r': "r' \<in> set rs"
    then have "rv_execution_id r' \<noteq> rv_execution_id r" using Cons.prems(1) by (auto simp: image_iff)
    from stop_local[OF this, of w] show "stoppable (rv_execution_id r') w1" using Cons.prems(2) r' st by simp
  qed
  then show ?case using Cons st by (auto simp: ret_def attempt_def)
qed (simp add: ret_def)

lemma reserve_admits:
  assumes "ledger_ok (w_ledger w)" "ledger_small (w_ledger w) n" "0 < n" "ts < te" "ts \<le> w_now w"
    "engines_of (reservations_in_window (w_ledger w) tid cl ts te) + n \<le> quota_ceiling (w_ledger w) tid cl"
    "\<forall>r \<in> set (overrun_reservations w tid cl). stoppable (rv_execution_id r) w"
  shows "(\<exists>w'. reserve stop tid cl n ts te e w = (Inl refusal, w') \<and> \<not> distinct (map rv_execution_id (overrun_reservations w tid cl))) \<or>
    (\<exists>r w'. reserve stop tid cl n ts te e w = (Inr r, w'))"
proof -
  define ceil where "ceil = quota_ceiling (w_ledger w) tid cl"
  define over where "over = overrun_reservations w tid cl"
  define W where "W = engines_of (reservations_in_window (w_ledger w) tid cl ts te)"
  note used = used_capacity_exact(1,2,4)[OF assms(1,2), of tid cl ts te, folded W_def over_def]
    used_capacity_exact(3)[OF assms(1,2), of tid cl, folded over_def]
  have v: "reservation_validate \<lparr>rv_id = 0, rv_tenant_id = tid, rv_cluster = cl, rv_engine_count = n, rv_start = ts, rv_end = te, rv_execution_id = e\<rparr> = None"
    using assms(3,4) by (simp add: validate_None)
  have in64: "i64 (W + engines_of over + n) = W + engines_of over + n" using used assms(3) by (intro i64_id) (simp add: in_i64_def)
  let ?over = "sort_key rv_end over" and ?need = "W + engines_of over + n - ceil"
  have pos: "\<forall>r \<in> set ?over. 0 \<le> rv_engine_count r"
    using ledger_positive[OF assms(1)] by (auto simp: over_def overrun_reservations_def reservations_for_tenant_def intro: less_imp_le)
  let ?m = "if ceil < W + engines_of over + n \<and> \<not> w_now w < ts then reclaim_overrun stop over (i64 ?need) else ret 0"
  have "(\<exists>w1. ?m w = (Inl refusal, w1) \<and> \<not> distinct (map rv_execution_id over)) \<or>
      (\<exists>f w1. ?m w = (Inr f, w1) \<and> W + engines_of over - f + n \<le> ceil \<and> 0 \<le> f \<and> f \<le> engines_of over)"
  proof (cases "ceil < W + engines_of over + n")
    case True
    have need: "i64 ?need = ?need"
      using True assms(3,6) used unfolding W_def[symmetric] ceil_def[symmetric] by (intro i64_id) (simp add: in_i64_def)
    then have m: "?m w = reclaim_loop stop ?over ?need 0 w" using True assms(5) by (simp add: reclaim_overrun_def)
    have "distinct (map rv_execution_id ?over)" if "distinct (map rv_execution_id over)"
      using that by (metis distinct_map distinct_sort inj_on_cong mset_sort set_mset_mset set_sort)
    then have unref: "\<not> distinct (map rv_execution_id over)" if "reclaim_loop stop ?over ?need 0 w = (Inl refusal, w1)" for w1
      using reclaim_unrefused[of ?over w ?need 0] that assms(7) unfolding over_def[symmetric] by auto
    have bounds: "0 \<le> f \<and> f \<le> engines_of over" if "reclaim_loop stop ?over ?need 0 w = (Inr f, w1)" for f w1
      using reclaim_bounds[OF that pos] used by simp
    have "engines_of ?over < 2 ^ 63" using used by simp
    with reclaim_frees[OF pos, of 0 ?need w] show ?thesis
      unfolding m using unref bounds assms(6) by (fastforce simp: W_def ceil_def)
  next
    case False
    then show ?thesis using used by (simp add: ret_def)
  qed
  then show ?thesis
  proof (elim disjE exE conjE)
    fix w1 assume m: "?m w = (Inl refusal, w1)" "\<not> distinct (map rv_execution_id over)"
    then show ?thesis using reserve_eval[OF v used(1) ceil_def, unfolded in64, OF m(1)] by (simp add: over_def)
  next
    fix f w1 assume m: "?m w = (Inr f, w1)" "W + engines_of over - f + n \<le> ceil" "0 \<le> f" "f \<le> engines_of over"
    have "i64 (W + engines_of over - f) = W + engines_of over - f" "i64 (W + engines_of over - f + n) = W + engines_of over - f + n"
      using m(3,4) used assms(3) by (auto intro!: i64_id simp: in_i64_def)
    then show ?thesis using reserve_eval[OF v used(1) ceil_def, unfolded in64, OF m(1)] m(2) by simp
  qed
qed

end

section \<open>Bookings\<close>

text \<open>
  A booking that starts in the future is admitted exactly when the engines reserved over its
  window, those of executions running past their own window and its own fit the ceiling. A refusal
  carries those figures and changes nothing; an admission only adds the reservation, under a fresh
  id.
\<close>

theorem reserve_future:
  assumes "ledger_ok (w_ledger w)" "ledger_small (w_ledger w) n" "0 < n" "ts < te" "w_now w < ts"
  shows "reserve stop tid cl n ts te e w =
    (let used = engines_of (reservations_in_window (w_ledger w) tid cl ts te) + engines_of (overrun_reservations w tid cl);
         ceil = quota_ceiling (w_ledger w) tid cl;
         r = \<lparr>rv_id = lg_seq (w_ledger w) + 1, rv_tenant_id = tid, rv_cluster = cl, rv_engine_count = n, rv_start = ts,
              rv_end = te, rv_execution_id = e\<rparr>
     in if used + n \<le> ceil
        then (Inr r, w\<lparr>w_ledger := (w_ledger w)\<lparr>lg_seq := rv_id r, lg_reservations := lg_reservations (w_ledger w) @ [(rv_id r, r)]\<rparr>\<rparr>)
        else (Inl (AOverQuota tid cl n used ceil (ceil = 0)), w))"
proof -
  note used = used_capacity_exact(1,2,4)[OF assms(1,2), of tid cl ts te] used_capacity_exact(3)[OF assms(1,2), of tid cl]
  have v: "reservation_validate \<lparr>rv_id = 0, rv_tenant_id = tid, rv_cluster = cl, rv_engine_count = n, rv_start = ts, rv_end = te, rv_execution_id = e\<rparr> = None"
    using assms(3,4) by (simp add: validate_None)
  let ?u = "engines_of (reservations_in_window (w_ledger w) tid cl ts te) + engines_of (overrun_reservations w tid cl)"
  have in64: "i64 ?u = ?u" "i64 (?u + n) = ?u + n" using used assms(3) by (auto intro!: i64_id simp: in_i64_def)
  have "(if quota_ceiling (w_ledger w) tid cl < i64 (?u + n) \<and> \<not> w_now w < ts
      then reclaim_overrun stop (overrun_reservations w tid cl) (i64 (i64 (?u + n) - quota_ceiling (w_ledger w) tid cl)) else ret 0) w = (Inr 0, w)"
    using assms(5) by (simp add: ret_def)
  from reserve_eval[OF v used(1) refl this] show ?thesis by (simp add: in64 create_reservation_eq[OF assms(1)] Let_def)
qed

theorem reserve_future_witness:
  "reserve noop_stopper 1 ''c'' 7 100 200 5 (new_world 0) =
     (Inr \<lparr>rv_id = 1, rv_tenant_id = 1, rv_cluster = ''c'', rv_engine_count = 7, rv_start = 100, rv_end = 200, rv_execution_id = 5\<rparr>,
      (new_world 0)\<lparr>w_ledger := \<lparr>lg_seq = 1, lg_reservations = [(1, \<lparr>rv_id = 1, rv_tenant_id = 1, rv_cluster = ''c'',
        rv_engine_count = 7, rv_start = 100, rv_end = 200, rv_execution_id = 5\<rparr>)], lg_ceilings = []\<rparr>\<rparr>)"
  using reserve_future[of "new_world 0" 7 100 200 noop_stopper 1 "''c''" 5]
  by (simp add: new_world_def ledger_ok_new ledger_small_def new_ledger_def engines_of_def mvals_def reservations_in_window_def
      overrun_reservations_def reservations_for_tenant_def quota_ceiling_def get_quota_def DefaultCeiling_def ledger_ok_def Let_def)

text \<open>
  For a request that starts now or later the used capacity counts every reservation once: those
  that overlap the window and those that overran are different.
\<close>

theorem used_capacity_counts_once:
  assumes "ledger_ok (w_ledger w)" "ledger_small (w_ledger w) 0" "w_now w \<le> ts"
  shows "fst (used_capacity w tid cl ts te) = engines_of (filter (\<lambda>r. rv_tenant_id r = tid \<and> rv_cluster r = cl \<and>
      (ts < rv_end r \<and> rv_start r < te \<or> rv_end r < w_now w \<and> current_run (w_runs w) (rv_execution_id r) \<noteq> None))
    (mvals (lg_reservations (w_ledger w))))"
proof -
  have split: "engines_of (filter P xs) + engines_of (filter Q xs) = engines_of (filter (\<lambda>r. P r \<or> Q r) xs)"
    if "\<And>r. P r \<Longrightarrow> \<not> Q r" for P Q xs using that by (induction xs) (auto simp: engines_of_def)
  show ?thesis
    unfolding used_capacity_exact(1)[OF assms(1,2)] fst_conv reservations_in_window_def overrun_reservations_def
      reservations_for_tenant_def Let_def overlaps_def filter_filter
    by (subst split) (use assms(3) in \<open>auto intro!: arg_cong[of _ _ engines_of] filter_cong\<close>)
qed

definition overrun_world :: world where
  "overrun_world = (new_world 10)\<lparr>
     w_ledger := \<lparr>lg_seq = 1, lg_reservations = [(1, \<lparr>rv_id = 1, rv_tenant_id = 1, rv_cluster = '''', rv_engine_count = 4,
        rv_start = 0, rv_end = 8, rv_execution_id = 5\<rparr>)], lg_ceilings = []\<rparr>,
     w_runs := snd (start_run 0 5 ''x'' new_run_store)\<rparr>"

theorem used_capacity_counts_once_witness: "fst (used_capacity overrun_world 1 '''' 10 20) = 4"
proof -
  have "ledger_ok (w_ledger overrun_world)"
    by (simp add: overrun_world_def ledger_ok_def wf_map_def mget_Cons reservation_validate_def)
  moreover have "ledger_small (w_ledger overrun_world) 0" by (simp add: overrun_world_def ledger_small_def engines_of_def mvals_def)
  ultimately show ?thesis using used_capacity_counts_once[of overrun_world 10 1 "''''" 20]
    by (simp add: overrun_world_def new_world_def mvals_def engines_of_def start_run_def new_run_store_def current_run_def)
qed

text \<open>Looking back over a window that the overrun reservation also covers, it counts twice.\<close>

lemma overrun_counted_twice: "fst (used_capacity overrun_world 1 '''' 5 20) = 8"
  by (simp add: overrun_world_def new_world_def mvals_def used_capacity_def reservations_in_window_def overrun_reservations_def
      reservations_for_tenant_def overlaps_def start_run_def new_run_store_def current_run_def i64_id in_i64_def)

interpretation np: stopper noop_stopper
  by unfold_locales (simp add: noop_stopper_def fail_def)

end
