(* ===== verification/Campaign_App.thy ===== *)
theory Campaign_App
  imports World
begin

text \<open>
  The campaign service of \<open>internal/app/campaignapp\<close> and the comparison of campaigns of
  \<open>internal/domain/campaign/compare.go\<close>: creation and editing, the freeze, the set of executions
  the drain stops, the verdict and its comparison with a baseline.
\<close>

section \<open>Creation and editing\<close>

definition verify_services :: "campaign \<Rightarrow> unit app" where
  "verify_services c = foreach (cp_services c) (\<lambda>svc.
     call (fetch (\<lambda>w. get_execution (w_catalog w) (cs_execution_id svc))) (\<lambda>exe.
     if ex_project_id exe \<noteq> cs_project_id svc then fail (ACampaign CpErrServiceExecutionMismatch)
     else call (fetch (\<lambda>w. get_project (w_catalog w) (cs_project_id svc))) (\<lambda>proj.
       if pr_tenant_id proj \<noteq> Some (cp_tenant_id c) then fail (ACampaign CpErrServiceProjectTenantMismatch) else ret ())))"

definition campaign_create :: "campaign \<Rightarrow> campaign app" where
  "campaign_create c =
     call (check (map_option ACampaign (campaign_validate c))) (\<lambda>_.
     call (verify_services c) (\<lambda>_.
     call (in_campaigns (create_campaign c)) (\<lambda>i. ret (c\<lparr>cp_id := i\<rparr>))))"

definition campaign_abort :: "int \<Rightarrow> unit app" where
  "campaign_abort i = timed (\<lambda>now. in_campaigns (abort_campaign i now))"

definition campaign_update :: "int \<Rightarrow> campaign \<Rightarrow> campaign app" where
  "campaign_update i new =
     call (fetch (\<lambda>w. get_campaign (w_campaigns w) i)) (\<lambda>existing.
     timed (\<lambda>now. if \<not> now < cp_start existing then fail (ACampaign CpErrCampaignStarted)
     else let new = new\<lparr>cp_id := cp_id existing, cp_tenant_id := cp_tenant_id existing, cp_aborted_at := cp_aborted_at existing\<rparr>
       in call (check (map_option ACampaign (campaign_validate new))) (\<lambda>_.
          call (verify_services new) (\<lambda>_.
          call (in_campaigns (update_campaign new)) (\<lambda>_.
          fetch (\<lambda>w. get_campaign (w_campaigns w) i))))))"

definition active_campaigns :: "world \<Rightarrow> campaign list" where
  "active_campaigns w = list_active_campaigns (w_campaigns w) (w_now w)"

section \<open>Freeze and drain\<close>

fun frozen_by :: "campaign list \<Rightarrow> int \<Rightarrow> int \<Rightarrow> string \<Rightarrow> string option" where
  "frozen_by [] projectID executionID blocking = (if blocking \<noteq> '''' then Some blocking else None)"
| "frozen_by (c # cs) projectID executionID blocking =
     (case designated_execution c projectID of
        None \<Rightarrow> frozen_by cs projectID executionID blocking
      | Some designated \<Rightarrow>
          if designated = executionID then None
          else frozen_by cs projectID executionID (if blocking = '''' then cp_name c else blocking))"

text \<open>\<open>IsFrozen\<close>: the name of a blocking campaign, if the execution is blocked.\<close>

definition is_frozen :: "world \<Rightarrow> int \<Rightarrow> int \<Rightarrow> string option" where
  "is_frozen w projectID executionID = frozen_by (active_campaigns w) projectID executionID ''''"

definition in_scope_executions :: "world \<Rightarrow> int \<Rightarrow> port_err + int list" where
  "in_scope_executions w campaignID =
     (case get_campaign (w_campaigns w) campaignID of Inl e \<Rightarrow> Inl e
      | Inr c \<Rightarrow> Inr (sort (filter (\<lambda>executionID.
          executionID \<notin> cs_execution_id ` set (cp_services c) \<and>
          (case get_execution (w_catalog w) executionID of Inl _ \<Rightarrow> False
           | Inr exe \<Rightarrow> ex_project_id exe \<in> cs_project_id ` set (cp_services c)))
          (map fst (deployed_executions (w_sched w) '''')))))"

section \<open>Verdict\<close>

record service_verdict =
  sv_project_id :: int
  sv_execution_id :: int
  sv_has_report :: bool
  sv_outcome :: "outcome option"
  sv_failing_criteria :: "failed_criterion list"
  sv_short_of_target_qps :: bool
  sv_requested_throughput :: rat
  sv_achieved_throughput :: rat

record other_load =
  ol_execution_id :: int
  ol_start :: time
  ol_end :: time
  ol_engine_count :: int

record campaign_verdict =
  cv_campaign_id :: int
  cv_services :: "service_verdict list"
  cv_go :: bool
  cv_other_load :: "other_load list"

definition service_verdict_of :: "world \<Rightarrow> campaign_service \<Rightarrow> service_verdict" where
  "service_verdict_of w svc =
     (case list_reports (w_reports w) (cs_execution_id svc) 1 of
        [] \<Rightarrow> \<lparr>sv_project_id = cs_project_id svc, sv_execution_id = cs_execution_id svc, sv_has_report = False, sv_outcome = None,
               sv_failing_criteria = [], sv_short_of_target_qps = False, sv_requested_throughput = 0, sv_achieved_throughput = 0\<rparr>
      | r # _ \<Rightarrow> \<lparr>sv_project_id = cs_project_id svc, sv_execution_id = cs_execution_id svc, sv_has_report = True,
               sv_outcome = Some (rp_outcome r),
               sv_failing_criteria = (if rp_outcome r = OutcomeFailed
                  then evaluate_criteria r (criteria_for (w_catalog w) (cs_execution_id svc)) else []),
               sv_short_of_target_qps = short_of_request r, sv_requested_throughput = ld_throughput (rp_requested r),
               sv_achieved_throughput = ld_throughput (rp_achieved r)\<rparr>)"

definition service_go :: "service_verdict \<Rightarrow> bool" where
  "service_go sv \<longleftrightarrow> \<not> (\<not> sv_has_report sv \<or> sv_outcome sv \<noteq> Some OutcomePassed \<or> sv_short_of_target_qps sv)"

fun judge_services :: "world \<Rightarrow> campaign_service list \<Rightarrow> port_err + service_verdict list" where
  "judge_services w [] = Inr []"
| "judge_services w (svc # svcs) =
     (case get_execution (w_catalog w) (cs_execution_id svc) of Inl e \<Rightarrow> Inl e
      | Inr exe \<Rightarrow> (case judge_services w svcs of Inl e \<Rightarrow> Inl e
          | Inr svs \<Rightarrow> Inr (if ex_kind exe = KindCalibrateEngine then svs else service_verdict_of w svc # svs)))"

definition merge_other_load :: "other_load \<Rightarrow> (int, other_load) gomap \<Rightarrow> (int, other_load) gomap" where
  "merge_other_load ol m =
     (case mget m (ol_execution_id ol) of
        None \<Rightarrow> mput (ol_execution_id ol) ol m
      | Some ex \<Rightarrow> mput (ol_execution_id ol)
          (ex\<lparr>ol_start := (if ol_start ol < ol_start ex then ol_start ol else ol_start ex),
              ol_end := (if ol_end ex < ol_end ol then ol_end ol else ol_end ex),
              ol_engine_count := (if ol_engine_count ex < ol_engine_count ol then ol_engine_count ol else ol_engine_count ex)\<rparr>) m)"

definition launch_load :: "world \<Rightarrow> campaign \<Rightarrow> launch_record \<Rightarrow> other_load option" where
  "launch_load w c l =
     (case la_end_time l of None \<Rightarrow> None
      | Some t_end \<Rightarrow>
          (case get_execution (w_catalog w) (la_execution_id l) of Inl _ \<Rightarrow> None
           | Inr exe \<Rightarrow> (case get_project (w_catalog w) (ex_project_id exe) of Inl _ \<Rightarrow> None
               | Inr proj \<Rightarrow> if pr_tenant_id proj \<noteq> Some (cp_tenant_id c) then None
                   else Some \<lparr>ol_execution_id = la_execution_id l, ol_start = la_started_time l, ol_end = t_end,
                              ol_engine_count = la_engines l\<rparr>)))"

definition other_loads :: "world \<Rightarrow> campaign \<Rightarrow> other_load list" where
  "other_loads w c =
     (let designated = cs_execution_id ` set (cp_services c);
          reserved = map (\<lambda>r. \<lparr>ol_execution_id = rv_execution_id r, ol_start = rv_start r, ol_end = rv_end r,
                              ol_engine_count = rv_engine_count r\<rparr>)
            (filter (\<lambda>r. rv_execution_id r \<notin> designated)
              (reservations_in_window (w_ledger w) (cp_tenant_id c) '''' (cp_start c) (cp_end c)));
          launched = List.map_filter (launch_load w c)
            (filter (\<lambda>l. la_execution_id l \<notin> designated) (launch_history (w_runs w) (cp_start c) (cp_end c)))
      in sort_key ol_execution_id (mvals (fold merge_other_load (reserved @ launched) [])))"

definition verdict :: "world \<Rightarrow> int \<Rightarrow> port_err + campaign_verdict" where
  "verdict w campaignID =
     (case get_campaign (w_campaigns w) campaignID of Inl e \<Rightarrow> Inl e
      | Inr c \<Rightarrow> (case judge_services w (cp_services c) of Inl e \<Rightarrow> Inl e
          | Inr svs \<Rightarrow> Inr \<lparr>cv_campaign_id = campaignID, cv_services = svs, cv_go = list_all service_go svs,
                           cv_other_load = other_loads w c\<rparr>))"

section \<open>Comparison with a baseline\<close>

datatype comparison_status = ComparisonImproved | ComparisonRegressed | ComparisonNewlyAtRisk | ComparisonStillAtRisk
  | ComparisonSteady | ComparisonNew | ComparisonDropped

record service_comparison =
  sc_project_id :: int
  sc_status :: comparison_status
  sc_has_current :: bool
  sc_go :: bool
  sc_has_baseline :: bool
  sc_baseline_go :: bool

definition classify_change :: "bool \<Rightarrow> bool \<Rightarrow> bool \<Rightarrow> bool \<Rightarrow> comparison_status" where
  "classify_change hasCurr currGo hasBase baseGo =
     (if \<not> hasCurr then ComparisonDropped
      else if \<not> hasBase then (if currGo then ComparisonNew else ComparisonNewlyAtRisk)
      else if currGo \<and> \<not> baseGo then ComparisonImproved
      else if \<not> currGo \<and> baseGo then ComparisonRegressed
      else if \<not> currGo \<and> \<not> baseGo then ComparisonStillAtRisk
      else ComparisonSteady)"

definition compare_services :: "(int \<times> bool) list \<Rightarrow> (int \<times> bool) list \<Rightarrow> service_comparison list" where
  "compare_services current baseline =
     (let curr = fold (\<lambda>(i, g). mput i g) current []; base = fold (\<lambda>(i, g). mput i g) baseline []
      in map (\<lambda>i. let currGo = mget_or False curr i; hasCurr = (mget curr i \<noteq> None);
                      baseGo = mget_or False base i; hasBase = (mget base i \<noteq> None)
                  in \<lparr>sc_project_id = i, sc_status = classify_change hasCurr currGo hasBase baseGo, sc_has_current = hasCurr,
                      sc_go = currGo, sc_has_baseline = hasBase, sc_baseline_go = baseGo\<rparr>)
           (sort (remdups (mkeys curr @ mkeys base))))"

definition has_ended :: "campaign \<Rightarrow> time \<Rightarrow> bool" where
  "has_ended c now \<longleftrightarrow> cp_aborted_at c \<noteq> None \<or> \<not> now < cp_end c"

definition later_baseline :: "campaign \<Rightarrow> campaign option \<Rightarrow> campaign option" where
  "later_baseline other best =
     (case best of None \<Rightarrow> Some other | Some b \<Rightarrow> if cp_start b < cp_start other then Some other else best)"

definition resolve_default_baseline :: "world \<Rightarrow> campaign \<Rightarrow> campaign option" where
  "resolve_default_baseline w c =
     fold later_baseline (filter (\<lambda>other. cp_id other \<noteq> cp_id c \<and> has_ended other (w_now w) \<and> cp_start other < cp_start c)
       (list_campaigns_by_tenant (w_campaigns w) (cp_tenant_id c))) None"

record campaign_comparison =
  cn_campaign_id :: int
  cn_baseline :: "int option"
  cn_services :: "service_comparison list"

definition to_signals :: "service_verdict list \<Rightarrow> (int \<times> bool) list" where
  "to_signals = map (\<lambda>sv. (sv_project_id sv, sv_has_report sv \<and> sv_outcome sv = Some OutcomePassed \<and> \<not> sv_short_of_target_qps sv))"

definition campaign_compare :: "world \<Rightarrow> int \<Rightarrow> int \<Rightarrow> port_err + campaign_comparison" where
  "campaign_compare w campaignID baselineID =
     (case get_campaign (w_campaigns w) campaignID of Inl e \<Rightarrow> Inl e
      | Inr c \<Rightarrow>
         (case (if 0 < baselineID then map_sum id Some (get_campaign (w_campaigns w) baselineID)
                else Inr (resolve_default_baseline w c)) of
            Inl e \<Rightarrow> Inl e
          | Inr None \<Rightarrow> Inr \<lparr>cn_campaign_id = campaignID, cn_baseline = None, cn_services = []\<rparr>
          | Inr (Some b) \<Rightarrow>
             (case verdict w campaignID of Inl e \<Rightarrow> Inl e
              | Inr cur \<Rightarrow> (case verdict w (cp_id b) of Inl e \<Rightarrow> Inl e
                  | Inr bas \<Rightarrow> Inr \<lparr>cn_campaign_id = campaignID, cn_baseline = Some (cp_id b),
                       cn_services = compare_services (to_signals (cv_services cur)) (to_signals (cv_services bas))\<rparr>))))"

section \<open>The freeze\<close>

definition covers :: "int \<Rightarrow> campaign \<Rightarrow> bool" where
  "covers projectID c \<longleftrightarrow> projectID \<in> cs_project_id ` set (cp_services c)"

lemma designated_None: "designated_execution c p = None \<longleftrightarrow> \<not> covers p c"
  by (auto simp: designated_execution_def covers_def find_None_iff)

lemma frozen_by_eq:
  assumes "\<forall>c \<in> set cs. cp_name c \<noteq> ''''"
  shows "frozen_by cs p e b =
    (if \<exists>c \<in> set cs. designated_execution c p = Some e then None
     else if b \<noteq> '''' then Some b else map_option cp_name (find (covers p) cs))"
  using assms
proof (induction cs arbitrary: b)
  case (Cons c cs)
  then show ?case using designated_None[of c p] by (cases "designated_execution c p") auto
qed simp

text \<open>
  C31. The freeze: an execution of a project is blocked exactly when an active campaign covers the
  project and no active campaign designates this execution for it; the reason is the name of the
  first campaign that covers it.
\<close>

theorem is_frozen_iff:
  assumes "\<forall>c \<in> set (mvals (cm_campaigns (w_campaigns w))). campaign_validate c = None"
  shows "is_frozen w p e = (if \<exists>c \<in> set (active_campaigns w). designated_execution c p = Some e then None
    else map_option cp_name (find (covers p) (active_campaigns w)))"
proof -
  have "\<forall>c \<in> set (active_campaigns w). cp_name c \<noteq> ''''"
    using assms by (auto simp: active_campaigns_def list_active_campaigns_def campaign_validate_def split: if_splits)
  then show ?thesis by (simp add: is_frozen_def frozen_by_eq)
qed

definition freeze_world :: world where
  "freeze_world = (new_world 50)\<lparr>
     w_campaigns := \<lparr>cm_seq = 2, cm_campaigns =
       [(1, \<lparr>cp_id = 1, cp_name = ''spring'', cp_tenant_id = 1, cp_start = 0, cp_end = 100,
             cp_services = [\<lparr>cs_project_id = 3, cs_execution_id = 7\<rparr>], cp_aborted_at = None\<rparr>),
        (2, \<lparr>cp_id = 2, cp_name = ''sale'', cp_tenant_id = 1, cp_start = 0, cp_end = 100,
             cp_services = [\<lparr>cs_project_id = 3, cs_execution_id = 8\<rparr>], cp_aborted_at = None\<rparr>)]\<rparr>,
     w_catalog := new_catalog\<lparr>ct_executions := map (\<lambda>i. (i, \<lparr>ex_id = i, ex_name = ''e'', ex_project_id = 3, ex_engine = '''',
        ex_kind = '''', ex_cpu = '''', ex_memory = '''', ex_cluster = '''', ex_fan_out_targets = [], ex_csv_split = False,
        ex_tenant_id = Some 1, ex_created_by = '''', ex_updated_by = '''', ex_created_time = 0\<rparr>)) [7, 8, 9]\<rparr>,
     w_sched := new_scheduler\<lparr>sd_deployments := map (\<lambda>i. (i, [(1, \<lparr>dp_cluster = '''', dp_project_id = 3, dp_execution_id = i,
        dp_scenario_id = 1, dp_image = '''', dp_cpu = '''', dp_memory = '''', dp_shards = [], dp_scenario_files = []\<rparr>, 0)])) [7, 8, 9]\<rparr>\<rparr>"

lemma freeze_world_valid:
  "\<forall>c \<in> set (mvals (cm_campaigns (w_campaigns freeze_world))). campaign_validate c = None"
  by (simp add: freeze_world_def mvals_def campaign_validate_def)

theorem is_frozen_iff_witness: "is_frozen freeze_world 3 9 = Some ''spring'' \<and> is_frozen freeze_world 3 8 = None"
  using is_frozen_iff[OF freeze_world_valid, of 3 9] is_frozen_iff[OF freeze_world_valid, of 3 8]
  by (simp add: freeze_world_def new_world_def active_campaigns_def list_active_campaigns_def is_active_def mvals_def
      designated_execution_def covers_def)

text \<open>
  With two campaigns on one project, the execution one of them designates is exempt from the
  freeze, yet the other's drain stops it.
\<close>

theorem exempt_yet_drained:
  "is_frozen freeze_world 3 7 = None \<and> in_scope_executions freeze_world 2 = Inr [7, 9]"
  by (simp add: freeze_world_def new_world_def is_frozen_def active_campaigns_def list_active_campaigns_def is_active_def mvals_def
      designated_execution_def in_scope_executions_def get_campaign_def found_def get_execution_def deployed_executions_def earliest_def
      mget_Cons)

section \<open>Verdicts\<close>

lemma judge_services_eq:
  assumes "judge_services w svcs = Inr svs"
  shows "svs = map (service_verdict_of w) (filter (\<lambda>svc. \<exists>exe. get_execution (w_catalog w) (cs_execution_id svc) = Inr exe \<and>
    ex_kind exe \<noteq> KindCalibrateEngine) svcs)"
  using assms by (induction svcs arbitrary: svs) (auto split: sum.splits if_splits)

text \<open>The latest report of an execution is a passing one at the requested rate.\<close>

definition ready :: "world \<Rightarrow> int \<Rightarrow> bool" where
  "ready w executionID \<longleftrightarrow> (case list_reports (w_reports w) executionID 1 of [] \<Rightarrow> False
     | r # _ \<Rightarrow> rp_outcome r = OutcomePassed \<and> \<not> short_of_request r)"

lemma service_go_ready: "service_go (service_verdict_of w svc) \<longleftrightarrow> ready w (cs_execution_id svc)"
  by (auto simp: service_go_def service_verdict_of_def ready_def split: list.split)

text \<open>
  C34. When the verdict of a campaign can be read, it is a go exactly when every designated execution
  that is not an engine calibration is ready: it has a report, and the latest one passed and did not
  fall short of the requested rate. Calibrations do not count, neither their reports nor their
  capacity profiles; a campaign of calibrations alone is a go.
\<close>

theorem verdict_go_iff:
  assumes "get_campaign (w_campaigns w) i = Inr c" "verdict w i = Inr v"
  shows "cv_go v \<longleftrightarrow> (\<forall>svc \<in> set (cp_services c). \<forall>exe. get_execution (w_catalog w) (cs_execution_id svc) = Inr exe \<longrightarrow>
    ex_kind exe \<noteq> KindCalibrateEngine \<longrightarrow> ready w (cs_execution_id svc))"
proof -
  obtain svs where svs: "judge_services w (cp_services c) = Inr svs" "cv_go v \<longleftrightarrow> list_all service_go svs"
    using assms by (auto simp: verdict_def split: sum.splits)
  show ?thesis unfolding svs(2) judge_services_eq[OF svs(1)] by (auto simp: list_all_iff service_go_ready)
qed

theorem verdict_go_iff_witness:
  "\<exists>v. verdict freeze_world 1 = Inr v \<and> (cv_go v \<longleftrightarrow> ready freeze_world 7)"
proof -
  obtain c where c: "get_campaign (w_campaigns freeze_world) 1 = Inr c" "cp_services c = [\<lparr>cs_project_id = 3, cs_execution_id = 7\<rparr>]"
    by (simp add: freeze_world_def get_campaign_def found_def mget_Cons)
  obtain exe where exe: "get_execution (w_catalog freeze_world) 7 = Inr exe" "ex_kind exe = ''''"
    by (simp add: freeze_world_def get_execution_def found_def mget_Cons)
  then obtain v where "verdict freeze_world 1 = Inr v" using c by (auto simp: verdict_def)
  then show ?thesis using verdict_go_iff[OF c(1)] c(2) exe by (auto simp: KindCalibrateEngine_def)
qed

section \<open>Tenancy\<close>

definition service_verified :: "catalog \<Rightarrow> int \<Rightarrow> campaign_service \<Rightarrow> bool" where
  "service_verified ct tenantID svc \<longleftrightarrow> (\<exists>exe proj. get_execution ct (cs_execution_id svc) = Inr exe \<and>
     ex_project_id exe = cs_project_id svc \<and> get_project ct (cs_project_id svc) = Inr proj \<and> pr_tenant_id proj = Some tenantID)"

lemma verify_services_state [simp]: "snd (verify_services c w) = w"
proof -
  have "keeps (\<lambda>w'. w' = w) (verify_services c)"
    unfolding verify_services_def by (auto intro!: keeps_rules)
  then show ?thesis by (simp add: keeps_def)
qed

lemma verify_services_iff:
  "fst (verify_services c w) = Inr () \<longleftrightarrow> list_all (service_verified (w_catalog w) (cp_tenant_id c)) (cp_services c)"
proof -
  have "fst (foreach svcs (\<lambda>svc.
     call (fetch (\<lambda>w. get_execution (w_catalog w) (cs_execution_id svc))) (\<lambda>exe.
     if ex_project_id exe \<noteq> cs_project_id svc then fail (ACampaign CpErrServiceExecutionMismatch)
     else call (fetch (\<lambda>w. get_project (w_catalog w) (cs_project_id svc))) (\<lambda>proj.
       if pr_tenant_id proj \<noteq> Some (cp_tenant_id c) then fail (ACampaign CpErrServiceProjectTenantMismatch) else ret ()))) w) = Inr ()
     \<longleftrightarrow> list_all (service_verified (w_catalog w) (cp_tenant_id c)) svcs" for svcs
    by (induction svcs)
       (auto simp: ret_def call_def fail_def fetch_def service_verified_def split: sum.splits if_splits)
  then show ?thesis by (simp add: verify_services_def)
qed

text \<open>Every stored campaign is valid and its services belong to its tenant.\<close>

definition campaigns_ok :: "world \<Rightarrow> bool" where
  "campaigns_ok w \<longleftrightarrow> (\<forall>i c. mget (cm_campaigns (w_campaigns w)) i = Some c \<longrightarrow> cp_id c = i \<and> campaign_validate c = None \<and>
     list_all (service_verified (w_catalog w) (cp_tenant_id c)) (cp_services c))"

lemma campaign_validate_id [simp]: "campaign_validate (c\<lparr>cp_id := i\<rparr>) = campaign_validate c"
  by (simp add: campaign_validate_def)

lemma campaign_create_ok [keeps_rules]: "keeps campaigns_ok (campaign_create c)"
proof (rule keepsI)
  fix w assume ok: "campaigns_ok w"
  show "campaigns_ok (snd (campaign_create c w))"
  proof (cases "campaign_validate c = None \<and> fst (verify_services c w) = Inr ()")
    case True
    then have "verify_services c w = (Inr (), w)" by (metis prod.collapse verify_services_state)
    then have "campaign_create c w = (Inr (c\<lparr>cp_id := cm_seq (w_campaigns w) + 1\<rparr>),
        w\<lparr>w_campaigns := snd (create_campaign c (w_campaigns w))\<rparr>)"
      using True by (simp add: campaign_create_def call_def store_ops wrap_err_def zoom_def create_campaign_def Let_def ret_def)
    then show ?thesis using ok True by (auto simp: campaigns_ok_def create_campaign_def Let_def verify_services_iff)
  next
    case False
    have "snd (campaign_create c w) = w"
      using False by (auto simp: campaign_create_def call_def ret_def fail_def check_def split: option.splits prod.splits sum.splits)
         (metis verify_services_state snd_conv fst_conv)+
    then show ?thesis using ok by simp
  qed
qed

lemma campaign_abort_ok [keeps_rules]: "keeps campaigns_ok (campaign_abort i)"
  by (auto simp: keeps_def campaign_abort_def timed_def abort_campaign_def campaigns_ok_def campaign_validate_def split: option.split if_splits)

lemma campaign_update_ok [keeps_rules]: "keeps campaigns_ok (campaign_update i new)"
proof (rule keepsI)
  fix w assume ok: "campaigns_ok w"
  show "campaigns_ok (snd (campaign_update i new w))"
  proof (cases "mget (cm_campaigns (w_campaigns w)) i")
    case None
    then show ?thesis using ok by (simp add: campaign_update_def call_def fetch_def get_campaign_def found_def)
  next
    case (Some c)
    define n where "n = new\<lparr>cp_id := cp_id c, cp_tenant_id := cp_tenant_id c, cp_aborted_at := cp_aborted_at c\<rparr>"
    have id: "cp_id c = i" using ok Some by (simp add: campaigns_ok_def)
    show ?thesis
    proof (cases "w_now w < cp_start c \<and> campaign_validate n = None \<and> fst (verify_services n w) = Inr ()")
      case True
      then have "verify_services n w = (Inr (), w)" by (metis prod.collapse verify_services_state)
      then have "snd (campaign_update i new w) = w\<lparr>w_campaigns := snd (update_campaign n (w_campaigns w))\<rparr>"
        using True Some unfolding campaign_update_def
        by (simp add: call_def fetch_def get_campaign_def found_def timed_def Let_def n_def[symmetric] ret_def
            store_ops wrap_err_def zoom_def update_campaign_def split: option.split)
      moreover have "campaign_validate (c\<lparr>cp_name := cp_name n, cp_start := cp_start n, cp_end := cp_end n, cp_services := cp_services n\<rparr>) = None"
        using True by (auto simp: campaign_validate_def split: if_splits)
      moreover have "cp_id n = i" "cp_tenant_id n = cp_tenant_id c" using id by (simp_all add: n_def)
      ultimately show ?thesis using ok True Some by (auto simp: campaigns_ok_def update_campaign_def verify_services_iff)
    next
      case False
      have "snd (campaign_update i new w) = w"
        using False Some unfolding campaign_update_def
        by (auto simp: call_def fetch_def get_campaign_def found_def timed_def Let_def n_def[symmetric] ret_def fail_def check_def
            split: option.splits prod.splits sum.splits) (metis verify_services_state snd_conv fst_conv)+
      then show ?thesis using ok by simp
    qed
  qed
qed

text \<open>
  C36. Whatever the calls, every stored campaign is valid, each designated execution belonged to the
  stated project and that project to the campaign's tenant: creation and editing check it, and an
  abort changes neither.
\<close>

theorem campaigns_stay_verified:
  "campaigns_ok (new_world t) \<and> keeps campaigns_ok (campaign_create c) \<and> keeps campaigns_ok (campaign_update i new) \<and>
   keeps campaigns_ok (campaign_abort i)"
  by (simp add: campaign_create_ok campaign_update_ok campaign_abort_ok)
     (simp add: campaigns_ok_def new_world_def new_campaign_store_def)

section \<open>What the verdict's list of other load leaves out\<close>

text \<open>A reservation of the campaign's tenant that overlaps its window, on a named cluster, is not listed.\<close>

lemma other_load_misses_named_clusters:
  defines "w \<equiv> freeze_world\<lparr>w_ledger := \<lparr>lg_seq = 1, lg_reservations = [(1, \<lparr>rv_id = 1, rv_tenant_id = 1, rv_cluster = ''eu'',
     rv_engine_count = 4, rv_start = 20, rv_end = 80, rv_execution_id = 9\<rparr>)], lg_ceilings = []\<rparr>\<rparr>"
  shows "\<exists>v. verdict w 1 = Inr v \<and> cv_other_load v = []"
  unfolding w_def
  by (simp add: freeze_world_def new_world_def verdict_def get_campaign_def found_def mget_Cons get_execution_def other_loads_def
      reservations_in_window_def mvals_def launch_history_def new_run_store_def List.map_filter_def)

end
