(* ===== verification/Metrics_App.thy ===== *)
theory Metrics_App
  imports World
begin

text \<open>
  The metric service of \<open>internal/app/metricsapp\<close> with the threshold service of
  \<open>internal/app/thresholdapp/service.go\<close>: ingestion of pushed measurements, the live view, and
  the finalisation of a run, which builds, stores, announces and grades its report and closes its
  marker.
\<close>

section \<open>Thresholds\<close>

definition threshold_replace :: "int \<Rightarrow> threshold list \<Rightarrow> threshold list app" where
  "threshold_replace scenarioID defs =
     call (fetch (\<lambda>w. get_scenario (w_catalog w) scenarioID)) (\<lambda>_.
     let defs = map (\<lambda>d. d\<lparr>th_scenario_id := scenarioID\<rparr>) defs
     in call (foreach (zip [1..int (length defs)] defs) (\<lambda>(i, d). check (map_option (AThreshold i) (threshold_validate d)))) (\<lambda>_.
        timed (\<lambda>now. in_thresholds (replace_thresholds now scenarioID defs))))"

definition evaluate_run :: "report \<Rightarrow> unit app" where
  "evaluate_run rep =
     (if rp_scenario_id rep \<le> 0 then ret ()
      else attempt (fetch (\<lambda>w. list_thresholds_for_scenario (w_thresholds w) (rp_scenario_id rep))) (\<lambda>r. case r of
        Inl e \<Rightarrow> if e = APort PortErrNotFound then ret () else fail e
      | Inr defs \<Rightarrow> if defs = [] then ret ()
          else timed (\<lambda>now. in_thresholds (save_threshold_results now (map (\<lambda>d. threshold_evaluate d rep now) defs)))))"

section \<open>The live view\<close>

definition seen_mark :: "int \<Rightarrow> string \<Rightarrow> world \<Rightarrow> bool \<times> world" where
  "seen_mark executionID key w =
     (let keys = mget_or [] (w_seen w) executionID
      in if key \<in> set keys then (False, w) else (True, w\<lparr>w_seen := mput executionID (key # keys) (w_seen w)\<rparr>))"

definition seen_forget :: "int \<Rightarrow> world \<Rightarrow> world" where
  "seen_forget executionID w = w\<lparr>w_seen := mdel executionID (w_seen w)\<rparr>"

definition tally_add :: "int \<Rightarrow> string \<Rightarrow> interval \<Rightarrow> world \<Rightarrow> world" where
  "tally_add runID cluster iv w =
     (let counts = mget_or [] (w_tally w) runID;
          cur = mget_or \<lparr>cc_samples = 0, cc_failed = 0\<rparr> counts cluster
      in w\<lparr>w_tally := mput runID (mput cluster \<lparr>cc_samples = i64 (cc_samples cur + iv_samples iv),
             cc_failed = i64 (cc_failed cur + iv_failed iv)\<rparr> counts) (w_tally w)\<rparr>)"

definition tally_snapshot :: "world \<Rightarrow> int \<Rightarrow> outcome \<Rightarrow> cluster_result list" where
  "tally_snapshot w runID outc =
     (case mget (w_tally w) runID of None \<Rightarrow> []
      | Some counts \<Rightarrow> map (\<lambda>name. let c = mget_or \<lparr>cc_samples = 0, cc_failed = 0\<rparr> counts name
          in \<lparr>cl_cluster = name, cl_outcome = outc, cl_samples = cc_samples c, cl_failed = cc_failed c\<rparr>) (sort (mkeys counts)))"

definition tally_forget :: "int \<Rightarrow> world \<Rightarrow> world" where
  "tally_forget runID w = w\<lparr>w_tally := mdel runID (w_tally w)\<rparr>"

definition interval_key :: "batch \<Rightarrow> interval \<Rightarrow> string" where
  "interval_key b iv = bt_cluster b @ ''|'' @ itoa (bt_shard_index b) @ ''|'' @ itoa (bt_scenario_id b) @ ''|'' @
     itoa (iv_timestamp iv) @ ''|'' @ iv_label iv"

definition live_metric :: "batch \<Rightarrow> interval \<Rightarrow> int \<Rightarrow> metric" where
  "live_metric b iv runID =
     \<lparr>em_threads = f64_of_int (iv_concurrency iv), em_latency = percentile (iv_latency iv) 50, em_label = iv_label iv,
      em_status = (if 0 < iv_failed iv \<and> iv_succeeded iv = 0 then ''500'' else ''200''),
      em_execution_id = itoa (bt_execution_id b), em_scenario_id = itoa (bt_scenario_id b),
      em_engine_id = (if bt_cluster b \<noteq> '''' then bt_cluster b @ ''/'' @ itoa (bt_shard_index b) else itoa (bt_shard_index b)),
      em_run_id = itoa runID\<rparr>"

definition record_live :: "batch \<Rightarrow> interval \<Rightarrow> int \<Rightarrow> world \<Rightarrow> world" where
  "record_live b iv runID w =
     (let m = live_metric b iv runID
      in w\<lparr>w_sink := (w_sink w)\<lparr>mk_recorded := mk_recorded (w_sink w) @ [m]\<rparr>,
           w_published := w_published w @ [(bt_execution_id b, m)]\<rparr>)"

definition show_interval :: "batch \<Rightarrow> int \<Rightarrow> interval \<Rightarrow> world \<Rightarrow> world" where
  "show_interval b runID iv w =
     (case seen_mark (bt_execution_id b) (interval_key b iv) w of
        (False, w) \<Rightarrow> w
      | (True, w) \<Rightarrow> record_live b iv runID (tally_add runID (bt_cluster b) iv w))"

definition metrics_purge :: "int \<Rightarrow> world \<Rightarrow> world" where
  "metrics_purge executionID w =
     seen_forget executionID (w\<lparr>w_sink := (w_sink w)\<lparr>mk_deleted := mk_deleted (w_sink w) @ [executionID]\<rparr>\<rparr>)"

section \<open>Finalisation\<close>

fun requested_from :: "entry list \<Rightarrow> load \<Rightarrow> load" where
  "requested_from [] ld = ld"
| "requested_from (e # es) ld =
     (let ld = ld\<lparr>ld_throughput := fadd (ld_throughput ld) (f64_of_int (en_throughput e))\<rparr>
      in if 1 < en_steps e then
           let ld = ld\<lparr>ld_steps := ld_steps ld @ map (\<lambda>st. \<lparr>sl_index = sc_index st, sl_throughput = f64_of_int (sc_throughput st),
                        sl_concurrency = i64 (sc_concurrency st * en_engines e), sl_duration = en_duration e\<rparr>)
                      (staircase_steps (en_concurrency e) (en_throughput e) (en_steps e))\<rparr>;
               d = i64 (en_duration e * en_steps e)
           in requested_from es (if ld_duration ld < d then ld\<lparr>ld_duration := d\<rparr> else ld)
         else requested_from es (if ld_duration ld < en_duration e then ld\<lparr>ld_duration := en_duration e\<rparr> else ld))"

definition requested_load :: "entry list \<Rightarrow> load" where
  "requested_load es = requested_from es \<lparr>ld_concurrency = virtual_users es, ld_throughput = 0, ld_duration = 0, ld_steps = [],
     ld_samples = 0, ld_failed = 0\<rparr>"

definition has_named_cluster :: "cluster_result list \<Rightarrow> bool" where
  "has_named_cluster rows \<longleftrightarrow> list_ex (\<lambda>r. cl_cluster r \<noteq> '''') rows"

definition close_run :: "int \<Rightarrow> int \<Rightarrow> unit app" where
  "close_run executionID runID =
     call (readst (\<lambda>w. current_run (w_runs w) executionID)) (\<lambda>cur.
     if cur \<noteq> Some runID then ret () else timed (\<lambda>now. in_runs (stop_run now executionID)))"

definition save_err_app :: "save_err \<Rightarrow> app_err" where
  "save_err_app e = (case e of SavePort p \<Rightarrow> APort p | SaveReport r \<Rightarrow> AReport r)"

definition store_report :: "report \<Rightarrow> unit app" where
  "store_report rep = wrap_err save_err_app (zoom w_reports (\<lambda>s w. w\<lparr>w_reports := s\<rparr>) (save_report rep))"

definition run_meta :: "int \<Rightarrow> int \<Rightarrow> outcome \<Rightarrow> entry list \<Rightarrow> run_record \<Rightarrow> execution \<Rightarrow> time \<Rightarrow> meta" where
  "run_meta executionID runID outc es history exe now =
     \<lparr>mt_execution_id = executionID, mt_scenario_id = (case es of [e] \<Rightarrow> en_scenario_id e | _ \<Rightarrow> 0), mt_run_id = runID,
      mt_engine = ex_engine exe, mt_cluster = ex_cluster exe, mt_correlation_id = rr_correlation_id history,
      mt_started_at = rr_started_time history, mt_ended_at = now, mt_requested = requested_load es, mt_outcome = outc\<rparr>"

definition run_report :: "world \<Rightarrow> int \<Rightarrow> int \<Rightarrow> outcome \<Rightarrow> entry list \<Rightarrow> run_record \<Rightarrow> execution \<Rightarrow> report" where
  "run_report w executionID runID outc es history exe =
     (let rep = acc_report (restore (progress_snapshot (w_progress w) runID)) (run_meta executionID runID outc es history exe (w_now w));
          rows = tally_snapshot w runID (rp_outcome rep)
      in if has_named_cluster rows then rep\<lparr>rp_cluster_results := rows\<rparr> else rep)"

definition finalize :: "int \<Rightarrow> int \<Rightarrow> outcome \<Rightarrow> unit app" where
  "finalize executionID runID outc =
     call (readst (\<lambda>w. case get_report (w_reports w) runID of Inr _ \<Rightarrow> True | Inl _ \<Rightarrow> False)) (\<lambda>alreadyFinalised.
     call (readst (\<lambda>w. load_profile_for (w_catalog w) executionID)) (\<lambda>es.
     call (fetch (\<lambda>w. run_history (w_runs w) runID)) (\<lambda>history.
     call (fetch (\<lambda>w. get_execution (w_catalog w) executionID)) (\<lambda>exe.
     call (readst (\<lambda>w. run_report w executionID runID outc es history exe)) (\<lambda>rep.
     call (store_report rep) (\<lambda>_.
     call (if alreadyFinalised then ret ()
           else call (modify (\<lambda>w. w\<lparr>w_notified := w_notified w @ [(ex_project_id exe, rep)]\<rparr>)) (\<lambda>_. evaluate_run rep)) (\<lambda>_.
     call (in_progress (discard runID)) (\<lambda>_.
     besteffort (timed (\<lambda>now. in_catalog (touch_activity now executionID)) :: unit app) (close_run executionID runID)))))))))"

definition exitCodeUnknown :: int where "exitCodeUnknown = -1"

definition finalize_completed :: "int \<Rightarrow> int \<Rightarrow> unit app" where
  "finalize_completed executionID runID =
     call (readst (\<lambda>w. shard_states (w_progress w) runID)) (\<lambda>states.
     finalize executionID runID (combine_outcomes (map (\<lambda>st. case sh_exit_code st of None \<Rightarrow> exitCodeUnknown | Some c \<Rightarrow> c) states)))"

definition stop_outcome :: "world \<Rightarrow> int \<Rightarrow> outcome" where
  "stop_outcome w runID =
     worst_outcome (OutcomeAborted # List.map_filter (\<lambda>st. if sh_finished st then map_option outcome_from_exit_code (sh_exit_code st)
       else None) (shard_states (w_progress w) runID))"

definition finalize_run :: "int \<Rightarrow> int \<Rightarrow> unit app" where
  "finalize_run executionID runID = call (readst (\<lambda>w. stop_outcome w runID)) (\<lambda>outc. finalize executionID runID outc)"

definition finalize_orphaned :: "int \<Rightarrow> int \<Rightarrow> orphan_completion list \<Rightarrow> unit app" where
  "finalize_orphaned executionID runID orphans =
     finalize executionID runID (worst_outcome (OutcomeAborted # map (\<lambda>oc. case oc_exit_code oc of
       None \<Rightarrow> outcome_from_exit_code (-1) | Some c \<Rightarrow> outcome_from_exit_code c) orphans))"

section \<open>Ingestion\<close>

definition all_shards_finished :: "int \<Rightarrow> int \<Rightarrow> bool app" where
  "all_shards_finished executionID runID =
     call (readst (\<lambda>w. int (length (filter sh_finished (shard_states (w_progress w) runID))))) (\<lambda>finished.
     call (readst (\<lambda>w. load_profile_for (w_catalog w) executionID)) (\<lambda>es.
     let planned = sum64 (map en_engines es) 0
     in if planned = 0 then ret False
        else call (fetch (\<lambda>w. get_execution (w_catalog w) executionID)) (\<lambda>exe.
          ret ((if is_fan_out exe then i64 (planned * int (length (ex_fan_out_targets exe))) else planned) \<le> finished))))"

definition progress_batch_of :: "batch \<Rightarrow> int \<Rightarrow> progress_batch" where
  "progress_batch_of b runID =
     \<lparr>pb_run_id = runID, pb_scenario_id = bt_scenario_id b, pb_shard_index = bt_shard_index b, pb_cluster = bt_cluster b,
      pb_stream_id = bt_stream_id b, pb_final = bt_final b, pb_exit_code = bt_exit_code b, pb_intervals = bt_intervals b\<rparr>"

definition ingest :: "batch \<Rightarrow> unit app" where
  "ingest b =
     call (readst (\<lambda>w. current_run (w_runs w) (bt_execution_id b))) (\<lambda>cur. case cur of
       None \<Rightarrow>
         call (if bt_final b
               then timed (\<lambda>now. in_runs (record_orphan_completion \<lparr>oc_execution_id = bt_execution_id b,
                      oc_scenario_id = bt_scenario_id b, oc_shard_index = bt_shard_index b, oc_exit_code = bt_exit_code b,
                      oc_finished_at = now\<rparr>))
               else ret ()) (\<lambda>_. fail (ANoActiveRun (bt_execution_id b)))
     | Some runID \<Rightarrow>
         if bt_run_id b \<noteq> 0 \<and> bt_run_id b \<noteq> runID then fail (AStaleRun (bt_run_id b) runID)
         else call (check (map_option APort (progress_batch_validate (progress_batch_of b runID)))) (\<lambda>_.
              call (modify (fold (show_interval b runID) (bt_intervals b))) (\<lambda>_.
              call (in_progress (absorb (progress_batch_of b runID))) (\<lambda>_.
              if \<not> bt_final b then ret ()
              else call (all_shards_finished (bt_execution_id b) runID) (\<lambda>all_done.
                if \<not> all_done then ret ()
                else call (finalize_completed (bt_execution_id b) runID) (\<lambda>_.
                  modify (\<lambda>w. tally_forget runID (seen_forget (bt_execution_id b) w))))))))"

section \<open>What a finalisation does\<close>

lemma call_fetch: "call (fetch f) k w = (case f w of Inl e \<Rightarrow> (Inl (APort e), w) | Inr x \<Rightarrow> k x w)"
  by (simp add: call_def fetch_def split: sum.split)

lemma evaluate_run_only: "\<exists>s. snd (evaluate_run rep w) = w\<lparr>w_thresholds := s\<rparr>"
  by (auto simp: evaluate_run_def ret_def attempt_def fetch_def fail_def timed_def split: sum.split intro: exI[of _ "w_thresholds w"])

lemma store_report_eq:
  "store_report rep w = (map_sum save_err_app id (fst (save_report rep (w_reports w))), w\<lparr>w_reports := snd (save_report rep (w_reports w))\<rparr>)"
  by (simp add: store_report_def wrap_err_def zoom_def split: prod.split sum.split)

lemma save_report_first_wins:
  "mget (rt_reports s) r = Some x \<Longrightarrow> mget (rt_reports (snd (save_report rep s))) r = Some x"
  by (auto simp: save_report_def split: option.split)

text \<open>The report of a run, as the store keeps it.\<close>

definition report_of :: "world \<Rightarrow> int \<Rightarrow> report option" where
  "report_of w runID = mget (rt_reports (w_reports w)) runID"

lemma stop_run_current: "current_run (snd (stop_run now e s)) e' = (if e' = e then None else current_run s e')"
  by (simp add: stop_run_def current_run_def split: option.split)

lemma close_run_current:
  "current_run (w_runs (snd (close_run e r w))) e' = (if e' = e \<and> current_run (w_runs w) e = Some r then None else current_run (w_runs w) e')"
  by (auto simp: close_run_def ret_def timed_def stop_run_current)

lemma close_run_only: "\<exists>s. snd (close_run e r w) = w\<lparr>w_runs := s\<rparr>"
  by (auto simp: close_run_def ret_def timed_def intro: exI[of _ "w_runs w"])

lemma close_run_reports: "w_reports (snd (close_run e r w)) = w_reports w"
  by (simp add: close_run_def ret_def timed_def)

lemma acc_report_run_id [simp]: "rp_run_id (acc_report a m) = mt_run_id m"
  by (simp add: acc_report_def Let_def split: prod.split)

lemma run_report_run_id [simp]: "rp_run_id (run_report w e r outc es h exe) = r"
  by (simp add: run_report_def Let_def run_meta_def)

text \<open>
  The state after a successful finalisation, with the part the best-effort stamp and the grading
  change left open.
\<close>

lemma finalize_InrD:
  assumes "finalize e r outc w = (Inr (), w')"
  obtains h exe rep cat ths where
    "run_history (w_runs w) r = Inr h" "get_execution (w_catalog w) e = Inr exe"
    "rep = run_report w e r outc (load_profile_for (w_catalog w) e) h exe" "fst (save_report rep (w_reports w)) = Inr ()"
    "w' = snd (close_run e r (w\<lparr>w_reports := snd (save_report rep (w_reports w)),
       w_notified := w_notified w @ (case get_report (w_reports w) r of Inr _ \<Rightarrow> [] | Inl _ \<Rightarrow> [(ex_project_id exe, rep)]),
       w_thresholds := ths, w_progress := snd (discard r (w_progress w)), w_catalog := cat\<rparr>))"
    "fst (discard r (w_progress w)) = Inr ()" "fst (close_run e r w') = Inr ()"
proof -
  obtain h where h: "run_history (w_runs w) r = Inr h" using assms
    by (auto simp: finalize_def call_fetch split: sum.splits)
  obtain exe where exe: "get_execution (w_catalog w) e = Inr exe" using assms h
    by (auto simp: finalize_def call_fetch split: sum.splits)
  define rep where "rep = run_report w e r outc (load_profile_for (w_catalog w) e) h exe"
  let ?old = "case get_report (w_reports w) r of Inr _ \<Rightarrow> True | Inl _ \<Rightarrow> False"
  have st: "call (store_report rep) (\<lambda>_. call (if ?old then ret ()
           else call (modify (\<lambda>w. w\<lparr>w_notified := w_notified w @ [(ex_project_id exe, rep)]\<rparr>)) (\<lambda>_. evaluate_run rep)) (\<lambda>_.
     call (in_progress (discard r)) (\<lambda>_.
     besteffort (timed (\<lambda>now. in_catalog (touch_activity now e)) :: unit app) (close_run e r)))) w = (Inr (), w')"
    using assms unfolding rep_def by (simp add: finalize_def call_fetch h exe)
  obtain w1 where w1: "store_report rep w = (Inr (), w1)" and
    st1: "call (if ?old then ret () else call (modify (\<lambda>w. w\<lparr>w_notified := w_notified w @ [(ex_project_id exe, rep)]\<rparr>)) (\<lambda>_. evaluate_run rep)) (\<lambda>_.
     call (in_progress (discard r)) (\<lambda>_.
     besteffort (timed (\<lambda>now. in_catalog (touch_activity now e)) :: unit app) (close_run e r))) w1 = (Inr (), w')"
    using st by (rule call_unitE)
  have w1s: "w1 = w\<lparr>w_reports := snd (save_report rep (w_reports w))\<rparr>" "fst (save_report rep (w_reports w)) = Inr ()"
    using w1 unfolding store_report_eq by auto
  obtain w2 where w2: "(if ?old then ret () else call (modify (\<lambda>w. w\<lparr>w_notified := w_notified w @ [(ex_project_id exe, rep)]\<rparr>)) (\<lambda>_. evaluate_run rep)) w1 = (Inr (), w2)"
    and st2: "call (in_progress (discard r)) (\<lambda>_.
     besteffort (timed (\<lambda>now. in_catalog (touch_activity now e)) :: unit app) (close_run e r)) w2 = (Inr (), w')"
    using st1 by (rule call_unitE)
  obtain ths where w2s: "w2 = w1\<lparr>w_notified := w_notified w @ (case get_report (w_reports w) r of Inr _ \<Rightarrow> [] | Inl _ \<Rightarrow> [(ex_project_id exe, rep)]),
       w_thresholds := ths\<rparr>"
  proof (cases "get_report (w_reports w) r")
    case (Inl x)
    let ?w = "w1\<lparr>w_notified := w_notified w1 @ [(ex_project_id exe, rep)]\<rparr>"
    obtain s where s: "snd (evaluate_run rep ?w) = ?w\<lparr>w_thresholds := s\<rparr>" using evaluate_run_only by blast
    have "evaluate_run rep ?w = (Inr (), w2)" using w2 Inl by simp
    then have "w2 = ?w\<lparr>w_thresholds := s\<rparr>" using s by simp
    then show ?thesis using that[of s] Inl w1s(1) by simp
  next
    case (Inr x)
    then have "w2 = w1" using w2 by (simp add: ret_def)
    then show ?thesis using that[of "w_thresholds w"] Inr w1s(1) by simp
  qed
  obtain w3 where w3: "in_progress (discard r) w2 = (Inr (), w3)"
    and st3: "besteffort (timed (\<lambda>now. in_catalog (touch_activity now e)) :: unit app) (close_run e r) w3 = (Inr (), w')"
    using st2 by (rule call_unitE)
  have w3s: "w3 = w2\<lparr>w_progress := snd (discard r (w_progress w2))\<rparr>" "fst (discard r (w_progress w2)) = Inr ()"
    using w3 unfolding store_op_eq by auto
  have "w' = snd (close_run e r (w3\<lparr>w_catalog := snd (touch_activity (w_now w3) e (w_catalog w3))\<rparr>))"
    using st3 by (simp add: besteffort_def timed_def)
  moreover have "fst (close_run e r w') = Inr ()"
    by (auto simp: close_run_def ret_def timed_def in_runs_def wrap_err_def zoom_def stop_run_def split: option.split)
  ultimately show ?thesis using that[OF h exe rep_def] w1s w2s w3s by simp
qed

text \<open>
  C9. A run that was finalised is closed for good: its marker is gone while every other
  execution's stays, its working state is discarded, its report is stored and was not overwritten
  if there was one before, and the completion was announced, with that report, exactly when this
  finalisation was the first.
\<close>

theorem finalize_closes_run:
  assumes "finalize e r outc w = (Inr (), w')" "rt_get_err (w_reports w) = None"
  shows "current_run (w_runs w') e \<noteq> Some r \<and> (\<forall>e'. e' \<noteq> e \<longrightarrow> current_run (w_runs w') e' = current_run (w_runs w) e')
    \<and> mget (pg_runs (w_progress w')) r = None
    \<and> (case report_of w r of
         Some rep \<Rightarrow> report_of w' r = Some rep \<and> w_notified w' = w_notified w
       | None \<Rightarrow> (\<exists>rep exe. report_of w' r = Some rep \<and> get_execution (w_catalog w) e = Inr exe \<and>
           w_notified w' = w_notified w @ [(ex_project_id exe, rep)] \<and> rp_outcome rep = outc))"
  using assms(1)
proof (cases rule: finalize_InrD)
  case (1 h exe rep cat ths)
  have outc: "rp_outcome rep = outc" "rp_starred rep = False" "rp_note rep = ''''"
    unfolding 1(3) by (simp_all add: run_report_def Let_def acc_report_def run_meta_def split: prod.split)
  let ?v = "w\<lparr>w_reports := snd (save_report rep (w_reports w)),
       w_notified := w_notified w @ (case get_report (w_reports w) r of Inr _ \<Rightarrow> [] | Inl _ \<Rightarrow> [(ex_project_id exe, rep)]),
       w_thresholds := ths, w_progress := snd (discard r (w_progress w)), w_catalog := cat\<rparr>"
  obtain s where "snd (close_run e r ?v) = ?v\<lparr>w_runs := s\<rparr>" using close_run_only by blast
  with 1(5) have fields: "w' = ?v\<lparr>w_runs := s\<rparr>" by (rule trans)
  have runs: "current_run (w_runs w') e' = (if e' = e \<and> current_run (w_runs w) e = Some r then None else current_run (w_runs w) e')" for e'
    unfolding 1(5) close_run_current by simp
  have prog: "mget (pg_runs (w_progress w')) r = None"
    using 1(6) unfolding fields by (simp add: discard_def split: option.splits)
  have save: "report_validate rep = None" "rt_save_err (w_reports w) = None"
    using 1(4) by (auto simp: save_report_def split: option.splits)
  have "case report_of w r of
         Some rep \<Rightarrow> report_of w' r = Some rep \<and> w_notified w' = w_notified w
       | None \<Rightarrow> (\<exists>rep exe. report_of w' r = Some rep \<and> get_execution (w_catalog w) e = Inr exe \<and>
           w_notified w' = w_notified w @ [(ex_project_id exe, rep)] \<and> rp_outcome rep = outc)"
  proof (cases "report_of w r")
    case None
    then have "report_of w' r = Some rep" using save outc(2,3) run_report_run_id
      unfolding report_of_def fields by (simp add: save_report_def) (simp add: 1(3))
    then show ?thesis using None outc(1) 1(2) assms(2) by (simp add: fields report_of_def get_report_def)
  next
    case (Some x)
    then show ?thesis using assms(2) save_report_first_wins[of "w_reports w" r x rep]
      by (simp add: fields report_of_def get_report_def)
  qed
  then show ?thesis using runs prog by auto
qed

section \<open>A finalisation succeeds\<close>

definition stores_healthy :: "world \<Rightarrow> bool" where
  "stores_healthy w \<longleftrightarrow> rt_save_err (w_reports w) = None \<and> rt_get_err (w_reports w) = None \<and> pg_discard_err (w_progress w) = None
     \<and> pg_absorb_err (w_progress w) = None \<and> tk_list_err (w_thresholds w) = None \<and> tk_save_results_err (w_thresholds w) = None"

lemma evaluate_run_works: "stores_healthy w \<Longrightarrow> fst (evaluate_run rep w) = Inr ()"
  by (auto simp: evaluate_run_def ret_def attempt_def fetch_def timed_def store_op_eq stores_healthy_def
      list_thresholds_for_scenario_def save_threshold_results_def Let_def)

lemma stores_healthy_notified [simp]: "stores_healthy (w\<lparr>w_notified := n\<rparr>) = stores_healthy w"
  by (simp add: stores_healthy_def)

lemma run_report_validate: "0 < e \<Longrightarrow> 0 < r \<Longrightarrow> report_validate (run_report w e r outc es h exe) = None"
  by (simp add: report_validate_def run_report_def Let_def acc_report_def run_meta_def split: prod.split)

lemma finalize_works:
  assumes "stores_healthy w" "run_history (w_runs w) r = Inr h" "get_execution (w_catalog w) e = Inr exe" "0 < e" "0 < r"
  shows "\<exists>w'. finalize e r outc w = (Inr (), w')"
proof -
  define rep where "rep = run_report w e r outc (load_profile_for (w_catalog w) e) h exe"
  let ?w1 = "w\<lparr>w_reports := snd (save_report rep (w_reports w))\<rparr>"
  have v: "report_validate rep = None" using assms(4,5) by (simp add: rep_def run_report_validate)
  have st: "store_report rep w = (Inr (), ?w1)"
    using assms(1) v by (simp add: store_report_eq stores_healthy_def save_report_def)
  have h1: "stores_healthy ?w1" using assms(1) v by (simp add: stores_healthy_def save_report_def)
  define step where "step = (if case get_report (w_reports w) r of Inl _ \<Rightarrow> False | Inr _ \<Rightarrow> True then ret ()
      else call (modify (\<lambda>w. w\<lparr>w_notified := w_notified w @ [(ex_project_id exe, rep)]\<rparr>)) (\<lambda>_. evaluate_run rep))"
  have "fst (step ?w1) = Inr ()"
    using evaluate_run_works[of "?w1\<lparr>w_notified := w_notified ?w1 @ [(ex_project_id exe, rep)]\<rparr>" rep] h1
    unfolding step_def by (simp add: ret_def)
  moreover obtain s n where "snd (step ?w1) = ?w1\<lparr>w_notified := n, w_thresholds := s\<rparr>"
  proof -
    obtain s where "snd (evaluate_run rep (?w1\<lparr>w_notified := w_notified ?w1 @ [(ex_project_id exe, rep)]\<rparr>))
        = ?w1\<lparr>w_notified := w_notified ?w1 @ [(ex_project_id exe, rep)]\<rparr>\<lparr>w_thresholds := s\<rparr>" using evaluate_run_only by blast
    then show ?thesis using that[of "w_thresholds w" "w_notified w"] that[of s "w_notified w @ [(ex_project_id exe, rep)]"]
      unfolding step_def by (cases "get_report (w_reports w) r") (simp_all add: ret_def)
  qed
  ultimately have stp: "step ?w1 = (Inr (), ?w1\<lparr>w_notified := n, w_thresholds := s\<rparr>)" by (metis prod.collapse)
  have cl: "fst (close_run e r v) = Inr ()" for v
    by (simp add: close_run_def ret_def timed_def store_op_eq stop_run_def split: option.split)
  have d: "fst (discard r (w_progress w)) = Inr ()" using assms(1) by (simp add: stores_healthy_def discard_def)
  have "finalize e r outc w = call (store_report rep) (\<lambda>_. call step (\<lambda>_. call (in_progress (discard r)) (\<lambda>_.
      besteffort (timed (\<lambda>now. in_catalog (touch_activity now e)) :: unit app) (close_run e r)))) w"
    unfolding step_def rep_def by (simp add: finalize_def call_fetch assms(2,3))
  also have "fst \<dots> = Inr ()"
    by (simp add: call_Inr[where m = "store_report rep" and s = w, OF st] call_Inr[where m = step and s = ?w1, OF stp])
       (simp add: call_def store_op_eq d besteffort_def cl)
  finally show ?thesis by (metis prod.collapse)
qed

section \<open>What an ingested batch does\<close>

text \<open>The live view touches nothing but the live view.\<close>

definition same_but_live :: "world \<Rightarrow> world \<Rightarrow> bool" where
  "same_but_live w w' \<longleftrightarrow> (\<exists>sn tl sk pb. w' = w\<lparr>w_seen := sn, w_tally := tl, w_sink := sk, w_published := pb\<rparr>)"

lemma same_but_live_refl: "same_but_live w w"
  unfolding same_but_live_def
  by (rule exI[of _ "w_seen w"], rule exI[of _ "w_tally w"], rule exI[of _ "w_sink w"], rule exI[of _ "w_published w"]) simp

lemma same_but_live_trans: "same_but_live a b \<Longrightarrow> same_but_live b c \<Longrightarrow> same_but_live a c"
  unfolding same_but_live_def by fastforce

lemma show_interval_live: "same_but_live w (show_interval b r iv w)"
proof (cases "interval_key b iv \<in> set (mget_or [] (w_seen w) (bt_execution_id b))")
  case True
  then show ?thesis by (simp add: show_interval_def seen_mark_def Let_def same_but_live_refl)
next
  case False
  then show ?thesis
    unfolding same_but_live_def show_interval_def seen_mark_def tally_add_def record_live_def Let_def
    by (simp, intro exI) (rule world.unfold_congs refl | simp)+
qed

lemma show_intervals_live: "same_but_live w (fold (show_interval b r) ivs w)"
  by (induction ivs arbitrary: w) (auto simp: same_but_live_refl intro: same_but_live_trans show_interval_live)

lemma same_but_live_fields:
  assumes "same_but_live w w'"
  shows "w_runs w' = w_runs w" "w_progress w' = w_progress w" "w_reports w' = w_reports w" "w_catalog w' = w_catalog w"
    "w_thresholds w' = w_thresholds w" "w_ledger w' = w_ledger w" "w_now w' = w_now w" "w_notified w' = w_notified w"
  using assms by (auto simp: same_but_live_def)

lemma ingest_no_run:
  assumes "current_run (w_runs w) (bt_execution_id b) = None"
  shows "ingest b w = (Inl (ANoActiveRun (bt_execution_id b)), if bt_final b then w\<lparr>w_runs := snd (record_orphan_completion
        \<lparr>oc_execution_id = bt_execution_id b, oc_scenario_id = bt_scenario_id b, oc_shard_index = bt_shard_index b,
         oc_exit_code = bt_exit_code b, oc_finished_at = w_now w\<rparr> (w_runs w))\<rparr> else w)"
  using assms by (simp add: ingest_def) (simp add: call_def timed_def store_op_eq record_orphan_completion_def Let_def ret_def fail_def)

text \<open>
  C30. A pod that has no business with the current run changes nothing of it: without an open run the
  batch is refused, a final one leaving only the note that this engine finished; a batch of another
  run is refused and leaves no trace.
\<close>

theorem ingest_refuses:
  assumes "case current_run (w_runs w) (bt_execution_id b) of None \<Rightarrow> True | Some r \<Rightarrow> bt_run_id b \<noteq> 0 \<and> bt_run_id b \<noteq> r"
  shows "ingest b w = (case current_run (w_runs w) (bt_execution_id b) of
      Some r \<Rightarrow> (Inl (AStaleRun (bt_run_id b) r), w)
    | None \<Rightarrow> (Inl (ANoActiveRun (bt_execution_id b)), if bt_final b then w\<lparr>w_runs := snd (record_orphan_completion
        \<lparr>oc_execution_id = bt_execution_id b, oc_scenario_id = bt_scenario_id b, oc_shard_index = bt_shard_index b,
         oc_exit_code = bt_exit_code b, oc_finished_at = w_now w\<rparr> (w_runs w))\<rparr> else w))"
proof (cases "current_run (w_runs w) (bt_execution_id b)")
  case None
  then show ?thesis by (simp add: ingest_no_run)
next
  case (Some r)
  then show ?thesis using assms by (simp add: ingest_def fail_def)
qed

definition late_batch :: batch where
  "late_batch = \<lparr>bt_execution_id = 5, bt_scenario_id = 2, bt_run_id = 9, bt_shard_index = 0, bt_stream_id = ''s'', bt_intervals = [],
     bt_cluster = '''', bt_final = True, bt_exit_code = Some 0\<rparr>"

theorem ingest_refuses_witness:
  "fst (ingest late_batch (new_world 3)) = Inl (ANoActiveRun 5) \<and>
   orphan_completions (w_runs (snd (ingest late_batch (new_world 3)))) 5
     = [\<lparr>oc_execution_id = 5, oc_scenario_id = 2, oc_shard_index = 0, oc_exit_code = Some 0, oc_finished_at = 3\<rparr>]"
  using ingest_refuses[of late_batch "new_world 3"]
  by (simp add: late_batch_def new_world_def new_run_store_def current_run_def record_orphan_completion_def Let_def mget_or_def
      mput_fresh orphan_completions_def mget_Cons mvals_def)

text \<open>A batch of the current run, the last one of its pod or not.\<close>

definition run_batch :: "int \<Rightarrow> int \<Rightarrow> batch \<Rightarrow> bool" where
  "run_batch e r b \<longleftrightarrow> bt_execution_id b = e \<and> (bt_run_id b = 0 \<or> bt_run_id b = r) \<and>
     progress_batch_validate (progress_batch_of b r) = None"

text \<open>Whether as many pods have finished as the profile and the clusters of the execution plan.\<close>

definition shards_done :: "catalog \<Rightarrow> execution \<Rightarrow> progress \<Rightarrow> int \<Rightarrow> int \<Rightarrow> bool" where
  "shards_done cat exe p e r \<longleftrightarrow>
     (let planned = sum64 (map en_engines (load_profile_for cat e)) 0
      in planned \<noteq> 0 \<and> (if is_fan_out exe then i64 (planned * int (length (ex_fan_out_targets exe))) else planned)
           \<le> int (length (filter sh_finished (shard_states p r))))"

lemma all_shards_finished_eq:
  "get_execution (w_catalog w) e = Inr exe \<Longrightarrow> all_shards_finished e r w = (Inr (shards_done (w_catalog w) exe (w_progress w) e r), w)"
  by (simp add: all_shards_finished_def shards_done_def call_fetch Let_def ret_def)

lemma absorb_errs [simp]:
  "pg_absorb_err (snd (absorb b p)) = pg_absorb_err p" "pg_discard_err (snd (absorb b p)) = pg_discard_err p"
  by (simp_all add: absorb_def Let_def absorb_series_def split: prod.split option.split)

text \<open>
  The state in which a batch of the current run has been absorbed: the live view and the progress
  of the run have changed, nothing else. A batch that does not complete the run stops there; one
  that does is followed by the finalisation.
\<close>

definition absorbed_state :: "int \<Rightarrow> batch \<Rightarrow> world \<Rightarrow> world" where
  "absorbed_state r b w = (fold (show_interval b r) (bt_intervals b) w)\<lparr>w_progress := snd (absorb (progress_batch_of b r) (w_progress w))\<rparr>"

lemma absorbed_state_fields:
  "w_progress (absorbed_state r b w) = snd (absorb (progress_batch_of b r) (w_progress w))" "w_runs (absorbed_state r b w) = w_runs w"
  "w_reports (absorbed_state r b w) = w_reports w" "w_catalog (absorbed_state r b w) = w_catalog w" "w_now (absorbed_state r b w) = w_now w"
  "stores_healthy (absorbed_state r b w) = stores_healthy w" "report_of (absorbed_state r b w) r' = report_of w r'"
  using same_but_live_fields[OF show_intervals_live[of w b r "bt_intervals b"]]
  by (simp_all add: absorbed_state_def stores_healthy_def report_of_def)

lemma ingest_open:
  assumes "current_run (w_runs w) e = Some r" "run_batch e r b" "pg_absorb_err (w_progress w) = None"
    "get_execution (w_catalog w) e = Inr exe"
  defines "v \<equiv> absorbed_state r b w"
  shows "ingest b w = (if bt_final b \<and> shards_done (w_catalog w) exe (w_progress v) e r
     then call (finalize_completed e r) (\<lambda>_. modify (\<lambda>w. tally_forget r (seen_forget e w))) v else (Inr (), v))"
proof -
  let ?w1 = "fold (show_interval b r) (bt_intervals b) w"
  note live = same_but_live_fields[OF show_intervals_live[of w b r "bt_intervals b"]]
  have ok: "fst (absorb (progress_batch_of b r) (w_progress w)) = Inr ()"
    using assms(2,3) by (simp add: run_batch_def absorb_def Let_def split: prod.split)
  have st: "in_progress (absorb (progress_batch_of b r)) ?w1 = (Inr (), v)"
    using ok by (simp add: store_op_eq live v_def absorbed_state_def)
  have "ingest b w = (if \<not> bt_final b then ret () else call (all_shards_finished e r) (\<lambda>all_done. if \<not> all_done then ret ()
      else call (finalize_completed e r) (\<lambda>_. modify (\<lambda>w. tally_forget r (seen_forget e w))))) v"
    using assms(1,2) by (auto simp: ingest_def run_batch_def call_Inr[where m = "in_progress (absorb (progress_batch_of b r))" and s = ?w1, OF st])
  moreover have "get_execution (w_catalog v) e = Inr exe" using assms(4) by (simp add: v_def absorbed_state_fields)
  ultimately show ?thesis
    by (simp add: call_Inr[where m = "all_shards_finished e r" and s = v, OF all_shards_finished_eq] ret_def) (simp add: v_def absorbed_state_fields)
qed

text \<open>Batches that are pushed after the run has ended change nothing of its report.\<close>

lemma ingest_closed:
  assumes "current_run (w_runs w) (bt_execution_id b) = None"
  shows "report_of (snd (ingest b w)) r = report_of w r" "current_run (w_runs (snd (ingest b w))) e = current_run (w_runs w) e"
  by (simp_all add: ingest_no_run[OF assms] report_of_def record_orphan_completion_def current_run_def Let_def)

definition pushes :: "batch list \<Rightarrow> world \<Rightarrow> world" where
  "pushes bs w = fold (\<lambda>b w. snd (ingest b w)) bs w"

lemma pushes_simps [simp]: "pushes [] w = w" "pushes (b # bs) w = pushes bs (snd (ingest b w))" "pushes (bs @ cs) w = pushes cs (pushes bs w)"
  by (simp_all add: pushes_def)

lemma pushes_closed:
  assumes "current_run (w_runs w) e = None" "list_all (run_batch e r) bs"
  shows "report_of (pushes bs w) r = report_of w r \<and> current_run (w_runs (pushes bs w)) e = None"
  using assms
proof (induction bs arbitrary: w)
  case (Cons b bs)
  have "current_run (w_runs w) (bt_execution_id b) = None" using Cons.prems by (simp add: run_batch_def)
  from ingest_closed[OF this] show ?case using Cons by simp
qed simp

text \<open>
  The progress of a run after some of its batches, and whether the last of them completed the run.
\<close>

abbreviation progress_after :: "int \<Rightarrow> batch list \<Rightarrow> world \<Rightarrow> progress" where
  "progress_after r bs w \<equiv> foldl (\<lambda>p b. snd (absorb b p)) (w_progress w) (map (\<lambda>b. progress_batch_of b r) bs)"

definition completes :: "world \<Rightarrow> execution \<Rightarrow> int \<Rightarrow> int \<Rightarrow> batch list \<Rightarrow> bool" where
  "completes w exe e r bs \<longleftrightarrow> bs \<noteq> [] \<and> bt_final (last bs) \<and> shards_done (w_catalog w) exe (progress_after r bs w) e r"

lemma pushes_open:
  assumes "current_run (w_runs w) e = Some r" "list_all (run_batch e r) bs" "stores_healthy w" "get_execution (w_catalog w) e = Inr exe"
    "\<forall>i \<le> length bs. \<not> completes w exe e r (take i bs)"
  shows "w_progress (pushes bs w) = progress_after r bs w \<and> w_runs (pushes bs w) = w_runs w \<and> w_reports (pushes bs w) = w_reports w \<and>
    w_catalog (pushes bs w) = w_catalog w \<and> w_now (pushes bs w) = w_now w \<and> stores_healthy (pushes bs w)"
  using assms(2,5)
proof (induction bs rule: rev_induct)
  case (snoc b bs)
  have "\<not> completes w exe e r (take i bs)" if "i \<le> length bs" for i using snoc.prems(2)[rule_format, of i] that by simp
  then have IH: "w_progress (pushes bs w) = progress_after r bs w" "w_runs (pushes bs w) = w_runs w" "w_reports (pushes bs w) = w_reports w"
    "w_catalog (pushes bs w) = w_catalog w" "w_now (pushes bs w) = w_now w" "stores_healthy (pushes bs w)"
    using snoc by auto
  let ?w = "pushes bs w"
  have "\<not> completes w exe e r (bs @ [b])" using snoc.prems(2)[rule_format, of "Suc (length bs)"] by simp
  then have "\<not> (bt_final b \<and> shards_done (w_catalog ?w) exe (w_progress (absorbed_state r b ?w)) e r)"
    by (auto simp: completes_def absorbed_state_fields IH)
  moreover have "current_run (w_runs ?w) e = Some r" "run_batch e r b" "pg_absorb_err (w_progress ?w) = None" "get_execution (w_catalog ?w) e = Inr exe"
    using assms(1,4) snoc.prems(1) IH by (simp_all add: stores_healthy_def)
  from ingest_open[OF this] calculation have "ingest b ?w = (Inr (), absorbed_state r b ?w)" by simp
  then show ?case by (simp add: absorbed_state_fields IH)
qed (simp add: assms(3))

section \<open>From the pods to the stored report\<close>


lemma finalize_report_eq:
  assumes "finalize e r outc w = (Inr (), w')" "report_of w r = None" "run_history (w_runs w) r = Inr h" "get_execution (w_catalog w) e = Inr exe"
  shows "report_of w' r = Some (run_report w e r outc (load_profile_for (w_catalog w) e) h exe)"
proof -
  have "\<exists>h' exe'. run_history (w_runs w) r = Inr h' \<and> get_execution (w_catalog w) e = Inr exe' \<and>
      report_of w' r = Some (run_report w e r outc (load_profile_for (w_catalog w) e) h' exe')"
    using assms(1)
  proof (cases rule: finalize_InrD)
    case (1 h exe rep cat ths)
    have "rp_starred rep = False" "rp_note rep = ''''" "rp_run_id rep = r"
      unfolding 1(3) by (simp_all add: run_report_def Let_def acc_report_def run_meta_def split: prod.split)
    moreover have "report_validate rep = None" "rt_save_err (w_reports w) = None"
      using 1(4) by (auto simp: save_report_def split: option.splits)
    ultimately have "mget (rt_reports (snd (save_report rep (w_reports w)))) r = Some rep"
      using assms(2) by (simp add: save_report_def report_of_def)
    moreover have "w_reports w' = snd (save_report rep (w_reports w))" unfolding 1(5) by (simp add: close_run_reports)
    ultimately show ?thesis using 1(1,2) unfolding report_of_def 1(3) by auto
  qed
  then show ?thesis using assms(3,4) by auto
qed

lemma finalize_report:
  assumes "finalize e r outc w = (Inr (), w')" "report_of w r = None"
  shows "\<exists>h exe. report_of w' r = Some (run_report w e r outc (load_profile_for (w_catalog w) e) h exe)"
  using assms(1)
proof (cases rule: finalize_InrD)
  case (1 h exe rep cat ths)
  from finalize_report_eq[OF assms 1(1,2)] show ?thesis by blast
qed

lemma finalize_current:
  assumes "finalize e r outc w = (Inr (), w')" "current_run (w_runs w) e = Some r"
  shows "current_run (w_runs w') e = None"
  using assms(1)
proof (cases rule: finalize_InrD)
  case (1 h exe rep cat ths)
  show ?thesis unfolding 1(5) close_run_current using assms(2) by simp
qed

text \<open>The report without the split by cluster, which is kept beside the accumulated measurements.\<close>

lemma run_report_build:
  assumes "acc_wf (pn_acc (run_or_new (w_progress w) r))" "pn_acc (run_or_new (w_progress w) r) = foldl acc_add new_accumulator d"
  shows "(run_report w e r outc es h exe)\<lparr>rp_cluster_results := []\<rparr> = build (run_meta e r outc es h exe (w_now w)) d"
proof -
  have rep: "acc_report (restore (progress_snapshot (w_progress w) r)) m = build m d" for m
    unfolding snapshot_report[OF assms(1)] by (simp add: assms(2) build_def)
  have "rp_cluster_results (build m d) = []" for m by (simp add: build_def acc_report_def Let_def split: prod.split)
  then show ?thesis unfolding run_report_def rep Let_def by simp
qed

text \<open>The accumulated measurements of a run after some of its batches.\<close>

lemma progress_once:
  assumes "mget (pg_runs (w_progress w)) r = None" "pg_absorb_err (w_progress w) = None"
    "list_all (batch_of r stream) (map (\<lambda>b. progress_batch_of b r) bs)"
    "transmits lg (\<lambda>_. 0) (map (\<lambda>b. progress_batch_of b r) bs) sent" "\<forall>k. numbered (lg k)"
  shows "\<exists>d. (\<forall>k. from_pod k d = take (sent k) (lg k)) \<and>
    pn_acc (run_or_new (progress_after r bs w) r) = foldl acc_add new_accumulator (map snd d)"
proof -
  have fresh: "pn_acc (run_or_new (w_progress w) r) = new_accumulator" "pn_shards (run_or_new (w_progress w) r) = []"
    using assms(1) by (simp_all add: run_or_new_def mget_or_def)
  have "watermarks r stream (\<lambda>_. 0) (w_progress w)" using assms(2) fresh(2) by (simp add: watermarks_def)
  note once = exactly_once_from[OF assms(4) this assms(3,5), simplified]
  show ?thesis using once fresh(1) by (intro exI[of _ "added (w_progress w) (map (\<lambda>b. progress_batch_of b r) bs)"]) auto
qed

lemma transmits_prefix: "transmits lg cov (bs @ cs) cov' \<Longrightarrow> \<exists>c. transmits lg cov bs c"
proof (induction bs arbitrary: cov)
  case Nil
  then show ?case by (auto intro: transmits.intros)
next
  case (Cons b bs)
  from Cons.prems[simplified] obtain s n where "s \<le> cov (batch_key b)" "pb_intervals b = take n (drop s (lg (batch_key b)))"
    "transmits lg (cov(batch_key b := max (cov (batch_key b)) (min (s + n) (length (lg (batch_key b)))))) (bs @ cs) cov'"
    by (rule transmits_ConsE) blast
  then show ?case using Cons.IH by (blast intro: transmits.intros(2))
qed

text \<open>The outcome of a run whose pods all finished: their exit codes, an unknown one counting as a failure of the pod.\<close>

definition completed_outcome :: "progress \<Rightarrow> int \<Rightarrow> outcome" where
  "completed_outcome p r = combine_outcomes (map (\<lambda>st. case sh_exit_code st of None \<Rightarrow> exitCodeUnknown | Some c \<Rightarrow> c) (shard_states p r))"

lemma finalize_completed_eq: "finalize_completed e r w = finalize e r (completed_outcome (w_progress w) r) w"
  by (simp add: finalize_completed_def completed_outcome_def)

lemma completing_push:
  assumes "current_run (w_runs w) e = Some r" "list_all (run_batch e r) (bs @ [b])" "stores_healthy w"
    "get_execution (w_catalog w) e = Inr exe" "run_history (w_runs w) r = Inr h" "0 < e" "report_of w r = None"
    "\<forall>i \<le> length bs. \<not> completes w exe e r (take i bs)" "completes w exe e r (bs @ [b])"
    "acc_wf (pn_acc (run_or_new (progress_after r (bs @ [b]) w) r))"
    "pn_acc (run_or_new (progress_after r (bs @ [b]) w) r) = foldl acc_add new_accumulator d"
  shows "\<exists>rep. report_of (pushes (bs @ [b]) w) r = Some rep \<and> current_run (w_runs (pushes (bs @ [b]) w)) e = None \<and>
    rep\<lparr>rp_cluster_results := []\<rparr> = build (run_meta e r (completed_outcome (progress_after r (bs @ [b]) w) r)
      (load_profile_for (w_catalog w) e) h exe (w_now w)) d"
proof -
  let ?w = "pushes bs w" and ?out = "completed_outcome (progress_after r (bs @ [b]) w) r"
  let ?v = "absorbed_state r b ?w"
  have b: "list_all (run_batch e r) bs" "run_batch e r b" using assms(2) by simp_all
  note op = pushes_open[OF assms(1) b(1) assms(3,4,8)]
  have v: "w_progress ?v = progress_after r (bs @ [b]) w" "w_runs ?v = w_runs w" "w_catalog ?v = w_catalog w" "w_now ?v = w_now w"
    "stores_healthy ?v" "report_of ?v r = None"
    using op assms(7) by (simp_all add: absorbed_state_fields) (simp add: report_of_def)
  have r: "0 < r" using b(2) by (auto simp: run_batch_def progress_batch_validate_def progress_batch_of_def split: if_splits)
  obtain v' where fin: "finalize e r ?out ?v = (Inr (), v')" using finalize_works[of ?v r h e exe ?out] v assms(4-6) r by auto
  have rep: "report_of v' r = Some (run_report ?v e r ?out (load_profile_for (w_catalog w) e) h exe)"
    using finalize_report_eq[OF fin v(6), of h exe] v assms(4,5) by simp
  have cur: "current_run (w_runs v') e = None" using finalize_current[OF fin] assms(1) v by simp
  have "stores_healthy ?w" using op by (elim conjE)
  then have "pg_absorb_err (w_progress ?w) = None" unfolding stores_healthy_def by (elim conjE)
  from ingest_open[OF _ b(2) this, of exe] op assms(1,4,9)
  have "ingest b ?w = call (finalize_completed e r) (\<lambda>_. modify (\<lambda>w. tally_forget r (seen_forget e w))) ?v"
    by (simp add: completes_def v(1))
  also have "\<dots> = (Inr (), tally_forget r (seen_forget e v'))"
    using fin by (simp add: call_def finalize_completed_eq v(1) modify_def)
  finally have "pushes (bs @ [b]) w = tally_forget r (seen_forget e v')" by simp
  then have "report_of (pushes (bs @ [b]) w) r = report_of v' r" "w_runs (pushes (bs @ [b]) w) = w_runs v'"
    by (simp_all add: report_of_def tally_forget_def seen_forget_def)
  then show ?thesis using rep cur run_report_build[of ?v r d e ?out "load_profile_for (w_catalog w) e" h exe] assms(10,11) v by simp
qed

text \<open>
  C3. From the pods to the stored report: the pods push what they measured in any interleaving,
  repeating batches as often as they like, last batches included. Up to the first last batch with
  which as many pods have finished as are planned, the run stays open and has no report, and a
  finalisation then builds the report from exactly what every pod has sent of its log, in its order.
  That batch closes the run: the stored report is built from exactly what every pod had sent up to
  and including it, with the outcome of the pods' exit codes, and no later batch changes it. Stores
  are healthy; the split of the report by cluster is left out.
\<close>

theorem pushed_measurements_reported:
  assumes "current_run (w_runs w) e = Some r" "mget (pg_runs (w_progress w)) r = None" "stores_healthy w" "report_of w r = None"
    "run_history (w_runs w) r = Inr h" "get_execution (w_catalog w) e = Inr exe" "0 < e" "0 < r" "list_all (run_batch e r) bs"
    "list_all (batch_of r stream) (map (\<lambda>b. progress_batch_of b r) bs)"
    "transmits lg (\<lambda>_. 0) (map (\<lambda>b. progress_batch_of b r) bs) sent" "\<forall>k. numbered (lg k)"
  defines "report_from \<equiv> (\<lambda>sent outc rep. \<exists>d. (\<forall>k. from_pod k d = take (sent k) (lg k)) \<and>
    rep\<lparr>rp_cluster_results := []\<rparr> = build (run_meta e r outc (load_profile_for (w_catalog w) e) h exe (w_now w)) (map snd d))"
  shows "case find (\<lambda>i. completes w exe e r (take i bs)) [0..<Suc (length bs)] of
      None \<Rightarrow> current_run (w_runs (pushes bs w)) e = Some r \<and> report_of (pushes bs w) r = None \<and>
        (\<forall>outc. \<exists>w' rep. finalize e r outc (pushes bs w) = (Inr (), w') \<and> report_of w' r = Some rep \<and> report_from sent outc rep)
    | Some i \<Rightarrow> current_run (w_runs (pushes bs w)) e = None \<and>
        (\<exists>sent'. transmits lg (\<lambda>_. 0) (map (\<lambda>b. progress_batch_of b r) (take i bs)) sent') \<and>
        (\<exists>rep. report_of (pushes bs w) r = Some rep \<and>
           (\<forall>sent'. transmits lg (\<lambda>_. 0) (map (\<lambda>b. progress_batch_of b r) (take i bs)) sent' \<longrightarrow>
              report_from sent' (completed_outcome (progress_after r (take i bs) w) r) rep))"
proof (cases "find (\<lambda>i. completes w exe e r (take i bs)) [0..<Suc (length bs)]")
  case None
  then have "\<not> completes w exe e r (take i bs)" if "i \<le> length bs" for i
    using that unfolding find_None_iff set_upt atLeastLessThan_iff by fastforce
  then have "\<forall>i \<le> length bs. \<not> completes w exe e r (take i bs)" by blast
  note op = pushes_open[OF assms(1,9,3,6) this]
  have err: "pg_absorb_err (w_progress w) = None" using assms(3) by (simp add: stores_healthy_def)
  obtain d where d: "\<forall>k. from_pod k d = take (sent k) (lg k)"
    "pn_acc (run_or_new (progress_after r bs w) r) = foldl acc_add new_accumulator (map snd d)"
    using progress_once[OF assms(2) err assms(10-12)] by blast
  have none: "report_of (pushes bs w) r = None" using op assms(4) by (simp add: report_of_def)
  have "\<exists>w' rep. finalize e r outc (pushes bs w) = (Inr (), w') \<and> report_of w' r = Some rep \<and> report_from sent outc rep" for outc
  proof -
    obtain w' where fin: "finalize e r outc (pushes bs w) = (Inr (), w')"
      using finalize_works[of "pushes bs w" r h e exe outc] op assms(5-8) by auto
    from finalize_report_eq[OF fin none, of h exe] op assms(5,6)
    have "report_of w' r = Some (run_report (pushes bs w) e r outc (load_profile_for (w_catalog w) e) h exe)" by simp
    moreover have "acc_wf (foldl acc_add new_accumulator (map snd d))" by (simp add: acc_wf_adds acc_wf_new)
    ultimately show ?thesis using fin d op run_report_build[of "pushes bs w" r "map snd d" e outc "load_profile_for (w_catalog w) e" h exe]
      unfolding report_from_def by auto
  qed
  then show ?thesis using None op assms(1) none by simp
next
  case (Some i)
  then have i: "i \<le> length bs" "completes w exe e r (take i bs)" "\<forall>j < i. \<not> completes w exe e r (take j bs)"
    unfolding find_Some_iff by (auto simp del: upt_Suc)
  then obtain j where j: "i = Suc j" "j < length bs" by (cases i) (auto simp: completes_def)
  have tk: "take i bs = take j bs @ [bs ! j]" using j by (simp add: take_Suc_conv_app_nth)
  have split: "bs = (take j bs @ [bs ! j]) @ drop i bs" using tk by (metis append_take_drop_id)
  have err: "pg_absorb_err (w_progress w) = None" using assms(3) by (simp add: stores_healthy_def)
  have sub: "list_all (run_batch e r) (take j bs @ [bs ! j])" "list_all (run_batch e r) (drop i bs)"
    "list_all (batch_of r stream) (map (\<lambda>b. progress_batch_of b r) (take i bs))"
    using assms(9,10) split tk by (metis list_all_append map_append)+
  obtain sent0 where tr0: "transmits lg (\<lambda>_. 0) (map (\<lambda>b. progress_batch_of b r) (take i bs)) sent0"
    using transmits_prefix[of lg "\<lambda>_. 0" "map (\<lambda>b. progress_batch_of b r) (take i bs)" "map (\<lambda>b. progress_batch_of b r) (drop i bs)" sent] assms(11)
    by (metis append_take_drop_id map_append)
  have once: "\<exists>d. (\<forall>k. from_pod k d = take (sent' k) (lg k)) \<and>
      pn_acc (run_or_new (progress_after r (take i bs) w) r) = foldl acc_add new_accumulator (map snd d)"
    if "transmits lg (\<lambda>_. 0) (map (\<lambda>b. progress_batch_of b r) (take i bs)) sent'" for sent'
    using progress_once[OF assms(2) err sub(3) that assms(12)] by blast
  obtain d :: "(shard_key \<times> interval) list" where d: "pn_acc (run_or_new (progress_after r (take i bs) w) r) = foldl acc_add new_accumulator (map snd d)"
    using once[OF tr0] by blast
  have "\<forall>k \<le> length (take j bs). \<not> completes w exe e r (take k (take j bs))" using i(3) j by (auto simp: min_def)
  note push = completing_push[OF assms(1) sub(1) assms(3,6,5,7,4) this i(2)[unfolded tk], folded tk]
  obtain rep where rep: "report_of (pushes (take i bs) w) r = Some rep" "current_run (w_runs (pushes (take i bs) w)) e = None"
    using push[of "map snd d"] d by (auto simp: acc_wf_adds acc_wf_new)
  have built: "report_from sent' (completed_outcome (progress_after r (take i bs) w) r) rep"
    if tr: "transmits lg (\<lambda>_. 0) (map (\<lambda>b. progress_batch_of b r) (take i bs)) sent'" for sent'
  proof -
    obtain d' where d': "\<forall>k. from_pod k d' = take (sent' k) (lg k)"
      "pn_acc (run_or_new (progress_after r (take i bs) w) r) = foldl acc_add new_accumulator (map snd d')" using once[OF tr] by blast
    have "acc_wf (foldl acc_add new_accumulator (map snd d'))" by (simp add: acc_wf_adds acc_wf_new)
    then show ?thesis using push[of "map snd d'"] d' rep(1) unfolding report_from_def by (intro exI[of _ d']) auto
  qed
  have "pushes bs w = pushes (drop i bs) (pushes (take i bs) w)" by (metis append_take_drop_id pushes_simps(3))
  then have "report_of (pushes bs w) r = Some rep" "current_run (w_runs (pushes bs w)) e = None"
    using pushes_closed[OF rep(2) sub(2)] rep(1) by simp_all
  then show ?thesis using Some tr0 built by auto
qed

section \<open>Two pods of one run\<close>

definition pushed_execution :: execution where
  "pushed_execution = \<lparr>ex_id = 5, ex_name = ''e'', ex_project_id = 3, ex_engine = '''', ex_kind = '''', ex_cpu = '''', ex_memory = '''',
     ex_cluster = '''', ex_fan_out_targets = [], ex_csv_split = False, ex_tenant_id = None, ex_created_by = '''', ex_updated_by = '''',
     ex_created_time = 0\<rparr>"

definition pushed_entry :: entry where
  "pushed_entry = \<lparr>en_name = ''checkout'', en_scenario_id = 1, en_concurrency = 10, en_rampup = 0, en_engines = 2, en_throughput = 0,
     en_duration = 60, en_csv_split = False, en_mode = '''', en_steps = 0\<rparr>"

definition pushed_history :: run_record where
  "pushed_history = \<lparr>rr_run_id = 7, rr_execution_id = 5, rr_started_time = 0, rr_end_time = None, rr_correlation_id = ''x''\<rparr>"

definition pushed_world :: world where
  "pushed_world = (new_world 100)\<lparr>
     w_runs := new_run_store\<lparr>rs_run_seq := 7, rs_current_run := [(5, 7)], rs_run_history := [(7, pushed_history)]\<rparr>,
     w_catalog := new_catalog\<lparr>ct_executions := [(5, pushed_execution)], ct_exec := [(5, [pushed_entry])]\<rparr>\<rparr>"

text \<open>The batch with \<open>n\<close> measurements of pod \<open>i\<close> from position \<open>s\<close> on, the pod's last or not.\<close>

definition pushed_batch :: "int \<Rightarrow> nat \<Rightarrow> nat \<Rightarrow> bool \<Rightarrow> batch" where
  "pushed_batch i s n fin = \<lparr>bt_execution_id = 5, bt_scenario_id = 1, bt_run_id = 7, bt_shard_index = i, bt_stream_id = ''s'',
     bt_intervals = take n (drop s (sample_logs (1, ''c'', i))), bt_cluster = ''c'', bt_final = fin,
     bt_exit_code = (if fin then Some 0 else None)\<rparr>"

text \<open>The first pod sends its first measurement, the second all it has, the first everything again with what is new, twice.\<close>

definition pushed_batches :: "batch list" where
  "pushed_batches = [pushed_batch 0 0 1 False, pushed_batch 1 0 1 True, pushed_batch 0 0 2 True, pushed_batch 0 0 2 True]"

lemma pushed_batches_ok:
  "list_all (run_batch 5 7) pushed_batches" "list_all (batch_of 7 (\<lambda>_. ''s'')) (map (\<lambda>b. progress_batch_of b 7) pushed_batches)"
  by (simp_all add: pushed_batches_def run_batch_def batch_of_def progress_batch_of_def pushed_batch_def progress_batch_validate_def sample_logs_def)

lemma pushed_batches_transmit:
  "transmits sample_logs (\<lambda>_. 0) (map (\<lambda>b. progress_batch_of b 7) pushed_batches) sample_sent"
  "transmits sample_logs (\<lambda>_. 0) (map (\<lambda>b. progress_batch_of b 7) (take 3 pushed_batches)) sample_sent"
proof -
  have send: "transmits sample_logs cov (progress_batch_of (pushed_batch i s n fin) 7 # bs) c"
    if "s \<le> cov (1, ''c'', i)"
      "transmits sample_logs (cov((1, ''c'', i) := max (cov (1, ''c'', i)) (min (s + n) (length (sample_logs (1, ''c'', i)))))) bs c"
    for cov i s n fin bs c using that transmits.intros(2)[of s cov "progress_batch_of (pushed_batch i s n fin) 7" n sample_logs bs c]
    by (simp add: batch_key_def progress_batch_of_def pushed_batch_def)
  define c1 where "c1 = (\<lambda>_::shard_key. 0::nat)((1, ''c'', 0) := 1)"
  define c2 where "c2 = c1((1, ''c'', 1) := 1)"
  have sent: "sample_sent = c2((1, ''c'', 0) := 2)" by (auto simp: sample_sent_def c2_def c1_def)
  have three: "transmits sample_logs (\<lambda>_. 0) (map (\<lambda>b. progress_batch_of b 7)
      ([pushed_batch 0 0 1 False, pushed_batch 1 0 1 True, pushed_batch 0 0 2 True] @ bs)) sample_sent"
    if "transmits sample_logs sample_sent (map (\<lambda>b. progress_batch_of b 7) bs) sample_sent" for bs
    unfolding append_Cons append_Nil list.map
    by (rule send, simp, rule send, simp, rule send, simp)
       (use that in \<open>simp add: sent c2_def c1_def sample_logs_def fun_upd_twist numeral_2_eq_2\<close>)
  have last: "transmits sample_logs sample_sent (map (\<lambda>b. progress_batch_of b 7) [pushed_batch 0 0 2 True]) sample_sent"
    using transmits.intros(1)[of sample_logs sample_sent] unfolding list.map
    by - (rule send, simp_all add: sent c2_def c1_def sample_logs_def numeral_2_eq_2)
  show "transmits sample_logs (\<lambda>_. 0) (map (\<lambda>b. progress_batch_of b 7) pushed_batches) sample_sent"
    using three[OF last] by (simp add: pushed_batches_def)
  show "transmits sample_logs (\<lambda>_. 0) (map (\<lambda>b. progress_batch_of b 7) (take 3 pushed_batches)) sample_sent"
    using three[of "[]"] transmits.intros(1)[of sample_logs sample_sent] by (simp add: pushed_batches_def)
qed

lemma pushed_world_simps:
  "current_run (w_runs pushed_world) 5 = Some 7" "mget (pg_runs (w_progress pushed_world)) 7 = None"
  "pg_absorb_err (w_progress pushed_world) = None" "report_of pushed_world 7 = None" "stores_healthy pushed_world"
  "run_history (w_runs pushed_world) 7 = Inr pushed_history" "get_execution (w_catalog pushed_world) 5 = Inr pushed_execution"
  by (simp_all add: pushed_world_def new_world_def new_run_store_def new_progress_def new_report_store_def current_run_def
      mget_Cons report_of_def stores_healthy_def new_threshold_store_def run_history_def get_execution_def found_def)

lemma finalize_pushed_world: "\<exists>w'. finalize 5 7 OutcomePassed pushed_world = (Inr (), w')"
  using finalize_works[OF pushed_world_simps(5)] pushed_world_simps(6,7) by auto

theorem finalize_closes_run_witness:
  "\<exists>w'. finalize 5 7 OutcomePassed pushed_world = (Inr (), w') \<and> current_run (w_runs w') 5 \<noteq> Some 7"
proof -
  obtain w' where w': "finalize 5 7 OutcomePassed pushed_world = (Inr (), w')" using finalize_pushed_world by blast
  have "rt_get_err (w_reports pushed_world) = None" using pushed_world_simps(5) by (simp add: stores_healthy_def)
  from finalize_closes_run[OF w' this] w' show ?thesis by blast
qed

theorem pushed_measurements_reported_witness:
  "\<exists>rep d. current_run (w_runs (pushes pushed_batches pushed_world)) 5 = None \<and> report_of (pushes pushed_batches pushed_world) 7 = Some rep \<and>
     from_pod (1, ''c'', 0) d = sample_logs (1, ''c'', 0) \<and> from_pod (1, ''c'', 1) d = sample_logs (1, ''c'', 1) \<and>
     rep\<lparr>rp_cluster_results := []\<rparr> = build (run_meta 5 7 OutcomePassed [pushed_entry] pushed_history pushed_execution 100) (map snd d)"
proof -
  have found: "find (\<lambda>i. completes pushed_world pushed_execution 5 7 (take i pushed_batches)) [0..<Suc (length pushed_batches)] = Some 3"
    "completed_outcome (progress_after 7 (take 3 pushed_batches) pushed_world) 7 = OutcomePassed"
    "load_profile_for (w_catalog pushed_world) 5 = [pushed_entry]" "w_now pushed_world = 100" by code_simp+
  note reported = pushed_measurements_reported[OF pushed_world_simps(1,2,5,4,6,7) _ _ pushed_batches_ok pushed_batches_transmit(1) sample_numbered,
      unfolded found option.case]
  from reported
  obtain rep d where "current_run (w_runs (pushes pushed_batches pushed_world)) 5 = None" "report_of (pushes pushed_batches pushed_world) 7 = Some rep"
    and d: "\<forall>k. from_pod k d = take (sample_sent k) (sample_logs k)"
      "rep\<lparr>rp_cluster_results := []\<rparr> = build (run_meta 5 7 OutcomePassed [pushed_entry] pushed_history pushed_execution 100) (map snd d)"
    using pushed_batches_transmit(2) by auto
  moreover have "from_pod (1, ''c'', i) d = sample_logs (1, ''c'', i)" if "i \<in> {0, 1}" for i
    using d(1)[rule_format, of "(1, ''c'', i)"] that by (auto simp: sample_sent_def sample_logs_def)
  ultimately show ?thesis by (intro exI[of _ rep] exI[of _ d]) simp
qed

end
