(* ===== verification/Schedule_App.thy ===== *)
theory Schedule_App
  imports Quota
begin

text \<open>
  The schedule service of \<open>internal/app/scheduleapp/service.go\<close>: creating a schedule with the
  reservations of its occurrences, rolling the horizon of recurring schedules forward, claiming a
  due occurrence and deleting a schedule. Computing occurrences steps a cron expression with no
  bound in the code, so an operation that does so is \<open>None\<close> where it does not return. The clock
  is in UTC, where seven days are seven times 24 hours; the schedule lock is the atomicity of one
  extension.
\<close>

section \<open>Operations\<close>

definition horizonDays :: int where "horizonDays = 7"

definition add_days :: "time \<Rightarrow> int \<Rightarrow> time" where
  "add_days t n = t + n * seconds 86400"

record schedule_view =
  sv_schedule :: schedule
  sv_occurrences :: "occurrence list"

definition occurrence_window :: "entry list \<Rightarrow> duration" where
  "occurrence_window es = i64 (seconds (longest_duration_seconds es))"

text \<open>The body of the loop of \<open>reserveOccurrences\<close> and the loop itself.\<close>

definition reserve_occurrence :: "(int \<Rightarrow> unit app) \<Rightarrow> schedule \<Rightarrow> string \<Rightarrow> int \<Rightarrow> duration \<Rightarrow> time \<Rightarrow> occurrence app" where
  "reserve_occurrence stop sc cluster engines window fireTime =
     attempt (reserve stop (sl_tenant_id sc) cluster engines fireTime (fireTime + window) (sl_execution_id sc)) (\<lambda>r.
     let occ = (case r of
           Inl _ \<Rightarrow> \<lparr>oo_id = 0, oo_schedule_id = sl_id sc, oo_fire_time = fireTime, oo_status = OccurrenceRejected, oo_reservation_id = None\<rparr>
         | Inr rv \<Rightarrow> \<lparr>oo_id = 0, oo_schedule_id = sl_id sc, oo_fire_time = fireTime, oo_status = OccurrenceReserved,
             oo_reservation_id = Some (rv_id rv)\<rparr>)
     in call (in_calendar (create_occurrence occ)) (\<lambda>occID. ret (occ\<lparr>oo_id := occID\<rparr>)))"

fun reserve_each :: "(int \<Rightarrow> unit app) \<Rightarrow> schedule \<Rightarrow> string \<Rightarrow> int \<Rightarrow> duration \<Rightarrow> time list \<Rightarrow> occurrence list app" where
  "reserve_each stop sc cluster engines window [] = ret []"
| "reserve_each stop sc cluster engines window (t # ts) =
     call (reserve_occurrence stop sc cluster engines window t) (\<lambda>occ.
     call (reserve_each stop sc cluster engines window ts) (\<lambda>occs. ret (occ # occs)))"

definition reserve_occurrences :: "(int \<Rightarrow> unit app) \<Rightarrow> schedule \<Rightarrow> time list \<Rightarrow> entry list \<Rightarrow> occurrence list app" where
  "reserve_occurrences stop sc fireTimes es =
     call (fetch (\<lambda>w. get_execution (w_catalog w) (sl_execution_id sc))) (\<lambda>exe.
     reserve_each stop sc (ex_cluster exe) (total_engines es) (occurrence_window es) fireTimes)"

definition schedule_create :: "cron \<Rightarrow> (int \<Rightarrow> unit app) \<Rightarrow> schedule \<Rightarrow> world \<Rightarrow> ((app_err + schedule_view) \<times> world) option" where
  "schedule_create cron stop sc w =
     (case schedule_validate cron sc of Some e \<Rightarrow> Some (Inl (ASchedule e), w)
      | None \<Rightarrow>
         let scenarios = load_profile_for (w_catalog w) (sl_execution_id sc) in
         if scenarios = [] then Some (Inl (AProfile LpErrNoScenarios), w)
         else map_option (\<lambda>r. case r of
             Inl e \<Rightarrow> (Inl (ASchedule e), w)
           | Inr fireTimes \<Rightarrow>
               call (in_calendar (create_schedule sc)) (\<lambda>i. let sc = sc\<lparr>sl_id := i\<rparr> in
               call (reserve_occurrences stop sc fireTimes scenarios) (\<lambda>occs.
               ret \<lparr>sv_schedule = sc, sv_occurrences = occs\<rparr>)) w)
           (occurrences cron sc (w_now w) (add_days (w_now w) horizonDays)))"

definition schedule_list :: "world \<Rightarrow> int \<Rightarrow> schedule_view list" where
  "schedule_list w executionID =
     map (\<lambda>sc. \<lparr>sv_schedule = sc, sv_occurrences = occurrences_for_schedule (w_calendar w) (sl_id sc)\<rparr>)
       (list_schedules_by_execution (w_calendar w) executionID)"

text \<open>Deleting a reservation that is already gone is no error for these callers.\<close>

definition drop_reservation :: "int \<Rightarrow> unit app" where
  "drop_reservation i = attempt (in_ledger (delete_reservation i)) (\<lambda>r. case r of
     Inl e \<Rightarrow> if e = APort PortErrNotFound then ret () else fail e
   | Inr _ \<Rightarrow> ret ())"

definition claim_due :: "time \<Rightarrow> (occurrence \<times> schedule) option app" where
  "claim_due now =
     call (in_calendar (claim_due_occurrence now)) (\<lambda>claimed. case claimed of
       None \<Rightarrow> ret None
     | Some occ \<Rightarrow>
         call (case oo_reservation_id occ of None \<Rightarrow> ret () | Some i \<Rightarrow> drop_reservation i) (\<lambda>_.
         call (fetch (\<lambda>w. get_schedule (w_calendar w) (oo_schedule_id occ))) (\<lambda>sc. ret (Some (occ, sc)))))"

text \<open>Where an extension resumes: just after the last known occurrence, or now.\<close>

definition extend_from :: "calendar \<Rightarrow> schedule \<Rightarrow> time \<Rightarrow> time" where
  "extend_from s sc now =
     (let existing = occurrences_for_schedule s (sl_id sc)
      in if existing \<noteq> [] \<and> now < oo_fire_time (last existing) then oo_fire_time (last existing) + 1 else now)"

definition extend_one :: "cron \<Rightarrow> (int \<Rightarrow> unit app) \<Rightarrow> schedule \<Rightarrow> time \<Rightarrow> time \<Rightarrow> world \<Rightarrow> ((app_err + unit) \<times> world) option" where
  "extend_one cron stop sc now t_to w =
     (let t_from = extend_from (w_calendar w) sc now in
      if \<not> t_from < t_to then Some (Inr (), w)
      else let scenarios = load_profile_for (w_catalog w) (sl_execution_id sc) in
        if scenarios = [] then Some (Inl (AProfile LpErrNoScenarios), w)
        else map_option (\<lambda>r. case r of
            Inl e \<Rightarrow> (Inl (ASchedule e), w)
          | Inr fireTimes \<Rightarrow> call (reserve_occurrences stop sc fireTimes scenarios) (\<lambda>_. ret ()) w)
          (occurrences cron sc t_from t_to))"

text \<open>\<open>ExtendHorizons\<close>: the errors it joins, with the schedule they are about; none is success.\<close>

fun extend_each :: "cron \<Rightarrow> (int \<Rightarrow> unit app) \<Rightarrow> time \<Rightarrow> time \<Rightarrow> schedule list \<Rightarrow> world \<Rightarrow> ((int option \<times> app_err) list \<times> world) option" where
  "extend_each cron stop now t_to [] w = Some ([], w)"
| "extend_each cron stop now t_to (sc # scs) w =
     Option.bind (extend_one cron stop sc now t_to w) (\<lambda>(r, w').
     map_option (\<lambda>(errs, w''). ((case r of Inl e \<Rightarrow> [(Some (sl_id sc), e)] | Inr _ \<Rightarrow> []) @ errs, w''))
       (extend_each cron stop now t_to scs w'))"

definition extend_horizons :: "cron \<Rightarrow> (int \<Rightarrow> unit app) \<Rightarrow> world \<Rightarrow> ((int option \<times> app_err) list \<times> world) option" where
  "extend_horizons cron stop w =
     (let now = w_now w in
      map_option (\<lambda>(errs, w'). case in_calendar (record_horizon_extension now) w' of
            (Inl e, w'') \<Rightarrow> (errs @ [(None, e)], w'') | (Inr _, w'') \<Rightarrow> (errs, w''))
        (extend_each cron stop now (add_days now horizonDays) (list_active_recurring_schedules (w_calendar w)) w))"

definition schedule_delete :: "int \<Rightarrow> unit app" where
  "schedule_delete i =
     call (readst (\<lambda>w. occurrences_for_schedule (w_calendar w) i)) (\<lambda>occs.
     call (foreach occs (\<lambda>occ. case oo_reservation_id occ of
         Some r \<Rightarrow> if oo_status occ = OccurrenceReserved then drop_reservation r else ret ()
       | None \<Rightarrow> ret ())) (\<lambda>_.
     in_calendar (delete_schedule i)))"

section \<open>Stepping an expression\<close>

text \<open>What the cron library documents of \<open>Next\<close>: it is later than its argument, or zero when there is none.\<close>

definition cron_advances :: "cron \<Rightarrow> bool" where
  "cron_advances cron \<longleftrightarrow> (\<forall>x nxt t. cron x = Some nxt \<longrightarrow> nxt t = 0 \<or> t < nxt t)"

lemma activations_spec:
  assumes "\<And>t. nxt t = 0 \<or> t < nxt t"
  shows "\<exists>ts. activations nxt t_to t = Some ts \<and> sorted_wrt (<) (t # ts) \<and> (\<forall>x \<in> set ts. x < t_to)"
proof (induction "nat (t_to - t)" arbitrary: t rule: less_induct)
  case less
  show ?case
  proof (cases "nxt t = 0 \<or> \<not> nxt t < t_to")
    case True
    then show ?thesis by (subst activations.simps) (simp add: Let_def)
  next
    case False
    then have later: "t < nxt t" "nxt t < t_to" "nxt t \<noteq> 0" using assms[of t] by auto
    then obtain ts where ts: "activations nxt t_to (nxt t) = Some ts" "sorted_wrt (<) (nxt t # ts)" "\<forall>x \<in> set ts. x < t_to"
      using less[of "nxt t"] by auto
    then have "activations nxt t_to t = Some (nxt t # ts)" using later by (subst activations.simps) (simp add: Let_def)
    then show ?thesis using ts later by fastforce
  qed
qed

section \<open>The occurrences of a schedule\<close>

definition fire_times :: "calendar \<Rightarrow> int \<Rightarrow> time list" where
  "fire_times s i = map oo_fire_time (occurrences_for_schedule s i)"

definition occurrence_ok :: "(int, schedule) gomap \<Rightarrow> int \<Rightarrow> int \<Rightarrow> occurrence \<Rightarrow> bool" where
  "occurrence_ok scs n i oc \<longleftrightarrow> oo_id oc = i \<and> i \<le> n \<and> mget scs (oo_schedule_id oc) \<noteq> None"

definition calendar_ok :: "calendar \<Rightarrow> bool" where
  "calendar_ok s \<longleftrightarrow> wf_map (ca_schedules s) \<and> wf_map (ca_occurrences s) \<and>
     (\<forall>i sc. mget (ca_schedules s) i = Some sc \<longrightarrow> sl_id sc = i \<and> i \<le> ca_schedule_seq s) \<and>
     (\<forall>i oc. mget (ca_occurrences s) i = Some oc \<longrightarrow> occurrence_ok (ca_schedules s) (ca_occurrence_seq s) i oc)"

lemma create_occurrence_fresh: "calendar_ok s \<Longrightarrow> mget (ca_occurrences s) (ca_occurrence_seq s + 1) = None"
  unfolding calendar_ok_def occurrence_ok_def by (cases "mget (ca_occurrences s) (ca_occurrence_seq s + 1)") fastforce+

lemma sort_key_snoc: "(\<And>x. x \<in> set xs \<Longrightarrow> f x \<le> f y) \<Longrightarrow> sort_key f (xs @ [y]) = sort_key f xs @ [y]"
proof (induction xs)
  case (Cons a xs)
  have "insort_key f a (ys @ [y]) = insort_key f a ys @ [y]" if "f a \<le> f y" for ys
    using that by (induction ys) auto
  then show ?case using Cons by simp
qed simp

lemma create_occurrence_times:
  assumes "calendar_ok s" "create_occurrence oc s = (r, s')" "mget (ca_schedules s) (oo_schedule_id oc) \<noteq> None"
    "\<forall>t \<in> set (fire_times s (oo_schedule_id oc)). t \<le> oo_fire_time oc"
  shows "calendar_ok s'" "ca_schedules s' = ca_schedules s"
    "occurrences_for_schedule s' k = occurrences_for_schedule s k @ (if k = oo_schedule_id oc then [oc\<lparr>oo_id := ca_occurrence_seq s + 1\<rparr>] else [])"
    "fire_times s' k = fire_times s k @ (if k = oo_schedule_id oc then [oo_fire_time oc] else [])"
proof -
  note fresh = mput_fresh[OF create_occurrence_fresh[OF assms(1)]]
  have s': "s' = s\<lparr>ca_occurrence_seq := ca_occurrence_seq s + 1,
      ca_occurrences := mput (ca_occurrence_seq s + 1) (oc\<lparr>oo_id := ca_occurrence_seq s + 1\<rparr>) (ca_occurrences s)\<rparr>"
    using assms(2) by (auto simp: create_occurrence_def Let_def)
  show "ca_schedules s' = ca_schedules s" by (simp add: s')
  show "calendar_ok s'" using assms(1,3) unfolding calendar_ok_def s'
    by (auto simp: occurrence_ok_def split: if_splits) fastforce
  show stored: "occurrences_for_schedule s' k = occurrences_for_schedule s k @
      (if k = oo_schedule_id oc then [oc\<lparr>oo_id := ca_occurrence_seq s + 1\<rparr>] else [])"
  proof (cases "k = oo_schedule_id oc")
    case True
    let ?xs = "filter (\<lambda>oca. oo_schedule_id oca = oo_schedule_id oc) (map snd (ca_occurrences s))"
    have "sort_key oo_fire_time (?xs @ [oc\<lparr>oo_id := i\<rparr>]) = sort_key oo_fire_time ?xs @ [oc\<lparr>oo_id := i\<rparr>]" for i
      using assms(4) by (intro sort_key_snoc) (auto simp: fire_times_def occurrences_for_schedule_def mvals_def)
    then show ?thesis using True by (simp add: occurrences_for_schedule_def s' fresh mvals_def)
  qed (simp add: occurrences_for_schedule_def s' fresh mvals_def)
  show "fire_times s' k = fire_times s k @ (if k = oo_schedule_id oc then [oo_fire_time oc] else [])"
    using stored by (simp add: fire_times_def)
qed

lemma active_known:
  assumes "calendar_ok s"
  shows "\<forall>sc \<in> set (list_active_recurring_schedules s). mget (ca_schedules s) (sl_id sc) \<noteq> None \<and> sl_kind sc = KindRecurring"
  using assms by (auto simp: calendar_ok_def list_active_recurring_schedules_def in_mvals)

lemma active_distinct:
  assumes "calendar_ok s"
  shows "distinct (map sl_id (list_active_recurring_schedules s))"
proof -
  have "map sl_id (mvals (ca_schedules s)) = mkeys (ca_schedules s)"
    using assms by (auto simp: calendar_ok_def mvals_def mkeys_def mget_in_set intro!: map_cong)
  then have "distinct (map sl_id (mvals (ca_schedules s)))" using assms by (simp add: calendar_ok_def wf_map_def mkeys_def)
  then show ?thesis unfolding list_active_recurring_schedules_def by (rule distinct_map_filter)
qed

lemma occurrences_valid:
  assumes "cron_advances cron" "schedule_validate cron sc = None" "t_from < t_to"
  shows "\<exists>ts. occurrences cron sc t_from t_to = Some (Inr ts) \<and> sorted ts"
proof (cases "sl_kind sc = KindOneShot")
  case True
  then show ?thesis using assms by (auto simp: occurrences_def schedule_validate_def split: if_splits)
next
  case False
  then obtain nxt where nxt: "sl_kind sc = KindRecurring" "cron (sl_recurrence sc) = Some nxt"
    using assms(2) by (auto simp: schedule_validate_def split: if_splits)
  moreover obtain ts where "activations nxt t_to (t_from - 1) = Some ts" "sorted_wrt (<) ((t_from - 1) # ts)"
    using activations_spec[of nxt t_to "t_from - 1"] assms(1) nxt(2) by (auto simp: cron_advances_def)
  ultimately show ?thesis using assms(3) False by (simp add: occurrences_def strict_sorted_iff)
qed

lemma create_schedule_fresh:
  assumes "calendar_ok s"
  defines "i \<equiv> ca_schedule_seq s + 1"
  shows "mget (ca_schedules s) i = None" "filter (\<lambda>oc. oo_schedule_id oc = i) (mvals (ca_occurrences s)) = []"
    "calendar_ok (s\<lparr>ca_schedule_seq := i, ca_schedules := mput i (sc\<lparr>sl_id := i\<rparr>) (ca_schedules s)\<rparr>)"
proof -
  have bound: "i' \<le> ca_schedule_seq s" if "mget (ca_schedules s) i' = Some sc'" for i' sc'
    using that assms(1) unfolding calendar_ok_def by blast
  then show none: "mget (ca_schedules s) i = None" unfolding i_def by (cases "mget (ca_schedules s) (ca_schedule_seq s + 1)") fastforce+
  have "mget (ca_schedules s) (oo_schedule_id oc) \<noteq> None" if "oc \<in> set (mvals (ca_occurrences s))" for oc
    using assms(1) that in_mvals[of "ca_occurrences s" oc] unfolding calendar_ok_def occurrence_ok_def by blast
  then show "filter (\<lambda>oc. oo_schedule_id oc = i) (mvals (ca_occurrences s)) = []" using none unfolding filter_empty_conv by metis
  have "occurrence_ok (mput i x (ca_schedules s)) n j oc" if "occurrence_ok (ca_schedules s) n j oc" for n j oc x
    using that by (auto simp: occurrence_ok_def)
  moreover have "i' \<le> i" if "mget (ca_schedules s) i' = Some sc'" for i' sc' using bound[OF that] by (simp add: i_def)
  ultimately show "calendar_ok (s\<lparr>ca_schedule_seq := i, ca_schedules := mput i (sc\<lparr>sl_id := i\<rparr>) (ca_schedules s)\<rparr>)"
    using assms(1) by (auto simp: calendar_ok_def split: if_splits)
qed

section \<open>Stoppers the schedules do not notice\<close>

text \<open>
  What one extension adds to a schedule: the activations after the last known occurrence or, when
  that is past, from now on, as long as the execution and its profile are still there.
\<close>

definition resume_point :: "time list \<Rightarrow> time \<Rightarrow> time" where
  "resume_point old now = (if old \<noteq> [] \<and> now < last old then last old else now - 1)"

definition extension :: "cron \<Rightarrow> world \<Rightarrow> schedule \<Rightarrow> time \<Rightarrow> time \<Rightarrow> time list option" where
  "extension cron w sc now t_to =
     (case cron (sl_recurrence sc) of None \<Rightarrow> Some []
      | Some nxt \<Rightarrow> map_option (\<lambda>ts. if load_profile_for (w_catalog w) (sl_execution_id sc) = [] \<or>
            isl (get_execution (w_catalog w) (sl_execution_id sc)) then [] else ts)
          (activations nxt t_to (resume_point (fire_times (w_calendar w) (sl_id sc)) now)))"

lemma fire_times_sorted: "sorted (fire_times s i)"
  by (simp add: fire_times_def occurrences_for_schedule_def)

lemma extend_from_eq: "extend_from s sc now = resume_point (fire_times s (sl_id sc)) now + 1"
  by (auto simp: extend_from_def resume_point_def fire_times_def Let_def last_map)

lemma resume_point_bound: "sorted old \<Longrightarrow> t \<in> set old \<Longrightarrow> t \<le> resume_point old now + 1"
  by (cases old rule: rev_cases) (auto simp: resume_point_def sorted_append)

text \<open>What the schedule service reads of the world.\<close>

definition schedule_side :: "world \<Rightarrow> time \<times> calendar \<times> (int, execution) gomap \<times> (int, entry list) gomap" where
  "schedule_side w = (w_now w, w_calendar w, ct_executions (w_catalog w), ct_exec (w_catalog w))"

lemma schedule_side_reads:
  "schedule_side v = schedule_side w \<Longrightarrow> w_now v = w_now w \<and> w_calendar v = w_calendar w \<and>
     get_execution (w_catalog v) e = get_execution (w_catalog w) e \<and> load_profile_for (w_catalog v) e = load_profile_for (w_catalog w) e"
  by (simp add: schedule_side_def get_execution_def load_profile_for_def)

locale calendar_stopper =
  fixes stop :: "int \<Rightarrow> unit app"
  assumes stop_side: "keeps (\<lambda>w. schedule_side w = v) (stop e)"
begin

lemma keeps_reclaim: "keeps (\<lambda>w. schedule_side w = v) (reclaim_loop stop rs needed freed)"
  by (induction rs arbitrary: freed) (auto intro!: keeps_rules stop_side)

lemma reserve_side: "schedule_side (snd (reserve stop tid cl n ts te e w)) = schedule_side w"
proof -
  have "keeps (\<lambda>w. schedule_side w = v) (in_ledger m)" for v m by (simp add: keeps_def schedule_side_def)
  then have "keeps (\<lambda>w. schedule_side w = v) (reserve stop tid cl n ts te e)" for v
    unfolding reserve_def reclaim_overrun_def Let_def case_prod_unfold by (intro keeps_rules keeps_reclaim)
  then show ?thesis by (simp add: keeps_def)
qed

lemma reserve_occurrence_eq:
  "\<exists>occ w'. reserve_occurrence stop sc cl n win t w = (Inr occ, w') \<and> oo_fire_time occ = t \<and> oo_schedule_id occ = sl_id sc \<and>
     oo_id occ = ca_occurrence_seq (w_calendar w) + 1 \<and> w_calendar w' = snd (create_occurrence occ (w_calendar w)) \<and>
     schedule_side w' = schedule_side (w\<lparr>w_calendar := w_calendar w'\<rparr>)"
proof -
  obtain r v where r: "reserve stop (sl_tenant_id sc) cl n t (t + win) (sl_execution_id sc) w = (r, v)" by fastforce
  then have "schedule_side v = schedule_side w" using reserve_side by (metis snd_conv)
  then show ?thesis
    by (cases r) (simp_all add: reserve_occurrence_def attempt_def r call_def store_op_eq create_occurrence_def Let_def ret_def schedule_side_def)
qed

text \<open>A loop of reservations appends one occurrence per fire time, whatever is admitted.\<close>

lemma reserve_each_times:
  assumes "calendar_ok (w_calendar w)" "mget (ca_schedules (w_calendar w)) (sl_id sc) \<noteq> None"
    "sorted ts" "\<forall>t \<in> set ts. \<forall>t' \<in> set (fire_times (w_calendar w) (sl_id sc)). t' \<le> t"
  shows "\<exists>occs w'. reserve_each stop sc cl n win ts w = (Inr occs, w') \<and> map oo_fire_time occs = ts \<and> calendar_ok (w_calendar w') \<and>
    ca_schedules (w_calendar w') = ca_schedules (w_calendar w) \<and>
    (\<forall>k. occurrences_for_schedule (w_calendar w') k = occurrences_for_schedule (w_calendar w) k @ (if k = sl_id sc then occs else [])) \<and>
    (\<forall>k. fire_times (w_calendar w') k = fire_times (w_calendar w) k @ (if k = sl_id sc then ts else [])) \<and>
    schedule_side w' = schedule_side (w\<lparr>w_calendar := w_calendar w'\<rparr>)"
  using assms
proof (induction ts arbitrary: w)
  case Nil
  then show ?case by (simp add: ret_def schedule_side_def)
next
  case (Cons t ts)
  obtain occ w1 where one: "reserve_occurrence stop sc cl n win t w = (Inr occ, w1)" "oo_fire_time occ = t" "oo_schedule_id occ = sl_id sc"
    "w_calendar w1 = snd (create_occurrence occ (w_calendar w))" "schedule_side w1 = schedule_side (w\<lparr>w_calendar := w_calendar w1\<rparr>)"
    and oid: "oo_id occ = ca_occurrence_seq (w_calendar w) + 1"
    using reserve_occurrence_eq by blast
  have stored: "occ\<lparr>oo_id := ca_occurrence_seq (w_calendar w) + 1\<rparr> = occ" unfolding oid[symmetric] by simp
  have cr: "create_occurrence occ (w_calendar w) = (fst (create_occurrence occ (w_calendar w)), w_calendar w1)" by (simp add: one(4))
  note created = create_occurrence_times[OF Cons.prems(1) cr, unfolded one(2,3) stored, OF Cons.prems(2)]
  have "\<exists>occs w'. reserve_each stop sc cl n win ts w1 = (Inr occs, w') \<and> map oo_fire_time occs = ts \<and> calendar_ok (w_calendar w') \<and>
    ca_schedules (w_calendar w') = ca_schedules (w_calendar w1) \<and>
    (\<forall>k. occurrences_for_schedule (w_calendar w') k = occurrences_for_schedule (w_calendar w1) k @ (if k = sl_id sc then occs else [])) \<and>
    (\<forall>k. fire_times (w_calendar w') k = fire_times (w_calendar w1) k @ (if k = sl_id sc then ts else [])) \<and>
    schedule_side w' = schedule_side (w1\<lparr>w_calendar := w_calendar w'\<rparr>)"
    using Cons.prems created by (intro Cons.IH) auto
  then obtain occs w' where IH: "reserve_each stop sc cl n win ts w1 = (Inr occs, w')" "map oo_fire_time occs = ts" "calendar_ok (w_calendar w')"
    "ca_schedules (w_calendar w') = ca_schedules (w_calendar w1)"
    "\<forall>k. occurrences_for_schedule (w_calendar w') k = occurrences_for_schedule (w_calendar w1) k @ (if k = sl_id sc then occs else [])"
    "\<forall>k. fire_times (w_calendar w') k = fire_times (w_calendar w1) k @ (if k = sl_id sc then ts else [])"
    "schedule_side w' = schedule_side (w1\<lparr>w_calendar := w_calendar w'\<rparr>)" by blast
  show ?case using one IH created Cons.prems(4) by (auto simp: call_def ret_def schedule_side_def)
qed

lemma extend_one_times:
  assumes "cron_advances cron" "calendar_ok (w_calendar w)" "mget (ca_schedules (w_calendar w)) (sl_id sc) \<noteq> None" "sl_kind sc = KindRecurring"
  shows "\<exists>r w' new. extend_one cron stop sc now t_to w = Some (r, w') \<and> extension cron w sc now t_to = Some new \<and>
    calendar_ok (w_calendar w') \<and> ca_schedules (w_calendar w') = ca_schedules (w_calendar w) \<and>
    (\<forall>k. fire_times (w_calendar w') k = fire_times (w_calendar w) k @ (if k = sl_id sc then new else [])) \<and>
    schedule_side w' = schedule_side (w\<lparr>w_calendar := w_calendar w'\<rparr>)"
proof -
  let ?es = "load_profile_for (w_catalog w) (sl_execution_id sc)"
  let ?p = "resume_point (fire_times (w_calendar w) (sl_id sc)) now"
  have point: "extend_from (w_calendar w) sc now = ?p + 1" by (rule extend_from_eq)
  have idle: "?thesis" if "extend_one cron stop sc now t_to w = Some (r, w)" "extension cron w sc now t_to = Some []" for r
    using that assms(2) by (auto simp: schedule_side_def)
  show ?thesis
  proof (cases "cron (sl_recurrence sc)")
    case None
    then show ?thesis using assms(4)
      by (intro idle[of "if \<not> ?p + 1 < t_to then Inr () else if ?es = [] then Inl (AProfile LpErrNoScenarios) else Inl (ASchedule SlErrRecurrenceInvalid)"])
        (simp_all add: extend_one_def extension_def point Let_def occurrences_def KindOneShot_def KindRecurring_def)
  next
    case (Some nxt)
    then obtain ts where ts: "activations nxt t_to ?p = Some ts" "sorted_wrt (<) (?p # ts)" "\<forall>x \<in> set ts. x < t_to"
      using activations_spec[of nxt t_to ?p] assms(1) by (auto simp: cron_advances_def)
    have occ: "occurrences cron sc (?p + 1) t_to = Some (Inr ts)" if "?p + 1 < t_to"
      using that ts(1) Some assms(4) by (simp add: occurrences_def KindOneShot_def KindRecurring_def)
    have ext: "extension cron w sc now t_to = Some (if ?es = [] \<or> isl (get_execution (w_catalog w) (sl_execution_id sc)) then [] else ts)"
      using Some ts(1) by (simp add: extension_def)
    show ?thesis
    proof (cases "\<not> ?p + 1 < t_to \<or> ?es = [] \<or> isl (get_execution (w_catalog w) (sl_execution_id sc))")
      case True
      have "ts = []" if "\<not> ?p + 1 < t_to" using ts(2,3) that by (cases ts) auto
      then have ext0: "extension cron w sc now t_to = Some []" using True ext by auto
      have "\<exists>r. extend_one cron stop sc now t_to w = Some (r, w)"
      proof (cases "?p + 1 < t_to \<and> ?es \<noteq> []")
        case good: True
        then obtain e where "get_execution (w_catalog w) (sl_execution_id sc) = Inl e"
          using True by (cases "get_execution (w_catalog w) (sl_execution_id sc)") auto
        then show ?thesis using good occ
          by (simp add: extend_one_def point Let_def reserve_occurrences_def call_def fetch_def)
      qed (auto simp: extend_one_def point Let_def)
      then show ?thesis using idle[OF _ ext0] by blast
    next
      case False
      then obtain exe where exe: "get_execution (w_catalog w) (sl_execution_id sc) = Inr exe" by (cases "get_execution (w_catalog w) (sl_execution_id sc)") auto
      have "\<forall>t \<in> set ts. \<forall>t' \<in> set (fire_times (w_calendar w) (sl_id sc)). t' \<le> t"
      proof (intro ballI)
        fix t t' assume "t \<in> set ts" "t' \<in> set (fire_times (w_calendar w) (sl_id sc))"
        then have "?p < t" "t' \<le> ?p + 1" using ts(2) resume_point_bound[OF fire_times_sorted] by auto
        then show "t' \<le> t" by linarith
      qed
      moreover have "sorted ts" using ts(2) by (simp add: strict_sorted_iff)
      ultimately obtain occs w' where "reserve_each stop sc (ex_cluster exe) (total_engines ?es) (occurrence_window ?es) ts w = (Inr occs, w')"
        "calendar_ok (w_calendar w')" "ca_schedules (w_calendar w') = ca_schedules (w_calendar w)"
        "\<forall>k. fire_times (w_calendar w') k = fire_times (w_calendar w) k @ (if k = sl_id sc then ts else [])"
        "schedule_side w' = schedule_side (w\<lparr>w_calendar := w_calendar w'\<rparr>)"
        using reserve_each_times[OF assms(2,3)] by blast
      then show ?thesis using False occ exe ext
        by (simp add: extend_one_def point Let_def reserve_occurrences_def call_def fetch_def ret_def)
    qed
  qed
qed

lemma extension_cong:
  "schedule_side v = schedule_side (w\<lparr>w_calendar := w_calendar v\<rparr>) \<Longrightarrow> fire_times (w_calendar v) (sl_id sc) = fire_times (w_calendar w) (sl_id sc) \<Longrightarrow>
     extension cron v sc now t_to = extension cron w sc now t_to"
  using schedule_side_reads[of v "w\<lparr>w_calendar := w_calendar v\<rparr>" "sl_execution_id sc"] by (simp add: extension_def cong: option.case_cong)

lemma extend_each_times:
  assumes "cron_advances cron" "calendar_ok (w_calendar w)" "distinct (map sl_id scs)"
    "\<forall>sc \<in> set scs. mget (ca_schedules (w_calendar w)) (sl_id sc) \<noteq> None \<and> sl_kind sc = KindRecurring"
  shows "\<exists>errs w'. extend_each cron stop now t_to scs w = Some (errs, w') \<and> calendar_ok (w_calendar w') \<and>
    (\<forall>sc \<in> set scs. \<exists>new. extension cron w sc now t_to = Some new \<and>
       fire_times (w_calendar w') (sl_id sc) = fire_times (w_calendar w) (sl_id sc) @ new) \<and>
    (\<forall>k. k \<notin> sl_id ` set scs \<longrightarrow> fire_times (w_calendar w') k = fire_times (w_calendar w) k)"
  using assms(2-4)
proof (induction scs arbitrary: w)
  case (Cons sc scs)
  obtain r w1 new where one: "extend_one cron stop sc now t_to w = Some (r, w1)" "extension cron w sc now t_to = Some new"
    "calendar_ok (w_calendar w1)" "ca_schedules (w_calendar w1) = ca_schedules (w_calendar w)"
    "\<forall>k. fire_times (w_calendar w1) k = fire_times (w_calendar w) k @ (if k = sl_id sc then new else [])"
    "schedule_side w1 = schedule_side (w\<lparr>w_calendar := w_calendar w1\<rparr>)"
    using extend_one_times[OF assms(1) Cons.prems(1), of sc now t_to] Cons.prems(3) by auto
  obtain errs w' where IH: "extend_each cron stop now t_to scs w1 = Some (errs, w')" "calendar_ok (w_calendar w')"
    "\<forall>sc' \<in> set scs. \<exists>new. extension cron w1 sc' now t_to = Some new \<and>
       fire_times (w_calendar w') (sl_id sc') = fire_times (w_calendar w1) (sl_id sc') @ new"
    "\<forall>k. k \<notin> sl_id ` set scs \<longrightarrow> fire_times (w_calendar w') k = fire_times (w_calendar w1) k"
    using Cons.IH[OF one(3)] Cons.prems(2,3) one(4) by auto
  have same: "fire_times (w_calendar w1) (sl_id sc') = fire_times (w_calendar w) (sl_id sc')" if "sc' \<in> set scs" for sc'
    using one(5) Cons.prems(2) imageI[OF that, of sl_id] by (cases "sl_id sc' = sl_id sc") auto
  then have "\<exists>new. extension cron w sc' now t_to = Some new \<and> fire_times (w_calendar w') (sl_id sc') = fire_times (w_calendar w) (sl_id sc') @ new"
    if "sc' \<in> set scs" for sc' using IH(3) extension_cong[OF one(6)] that by metis
  moreover have "fire_times (w_calendar w') (sl_id sc) = fire_times (w_calendar w) (sl_id sc) @ new" using IH(4) one(5) Cons.prems(2) by auto
  ultimately show ?case using one(1,2,5) IH(1,2,4) by auto
qed simp

lemma extend_horizons_times:
  assumes "cron_advances cron" "calendar_ok (w_calendar w)"
  shows "\<exists>errs w'. extend_horizons cron stop w = Some (errs, w') \<and> calendar_ok (w_calendar w') \<and>
    (\<forall>sc \<in> set (list_active_recurring_schedules (w_calendar w)). \<exists>new.
       extension cron w sc (w_now w) (add_days (w_now w) horizonDays) = Some new \<and>
       fire_times (w_calendar w') (sl_id sc) = fire_times (w_calendar w) (sl_id sc) @ new) \<and>
    (\<forall>k. k \<notin> sl_id ` set (list_active_recurring_schedules (w_calendar w)) \<longrightarrow> fire_times (w_calendar w') k = fire_times (w_calendar w) k)"
proof -
  let ?scs = "list_active_recurring_schedules (w_calendar w)"
  obtain errs w' where w': "extend_each cron stop (w_now w) (add_days (w_now w) horizonDays) ?scs w = Some (errs, w')" "calendar_ok (w_calendar w')"
    "\<forall>sc \<in> set ?scs. \<exists>new. extension cron w sc (w_now w) (add_days (w_now w) horizonDays) = Some new \<and>
       fire_times (w_calendar w') (sl_id sc) = fire_times (w_calendar w) (sl_id sc) @ new"
    "\<forall>k. k \<notin> sl_id ` set ?scs \<longrightarrow> fire_times (w_calendar w') k = fire_times (w_calendar w) k"
    using extend_each_times[OF assms active_distinct[OF assms(2)] active_known[OF assms(2)]] by blast
  then show ?thesis
    by (auto simp: extend_horizons_def store_op_eq record_horizon_extension_def fire_times_def occurrences_for_schedule_def calendar_ok_def)
qed

lemma schedule_create_occurrences:
  assumes "cron_advances cron" "calendar_ok (w_calendar w)" "schedule_validate cron sc = None"
    "load_profile_for (w_catalog w) (sl_execution_id sc) = es" "es \<noteq> []" "get_execution (w_catalog w) (sl_execution_id sc) = Inr exe"
  shows "\<exists>i c occs w'. schedule_create cron stop sc w = Some (Inr \<lparr>sv_schedule = sc\<lparr>sl_id := i\<rparr>, sv_occurrences = occs\<rparr>, w') \<and>
    occurrences cron sc (w_now w) (add_days (w_now w) horizonDays) = Some (Inr (map oo_fire_time occs)) \<and>
    reserve_each stop (sc\<lparr>sl_id := i\<rparr>) (ex_cluster exe) (total_engines es) (occurrence_window es) (map oo_fire_time occs) (w\<lparr>w_calendar := c\<rparr>) = (Inr occs, w') \<and>
    mget (ca_schedules (w_calendar w)) i = None \<and> mget (ca_schedules (w_calendar w')) i = Some (sc\<lparr>sl_id := i\<rparr>) \<and> calendar_ok (w_calendar w') \<and>
    occurrences_for_schedule (w_calendar w') = (occurrences_for_schedule (w_calendar w))(i := occs)"
proof -
  note es = assms(4)[symmetric] and exe = assms(6)
  let ?es = "load_profile_for (w_catalog w) (sl_execution_id sc)" and ?i = "ca_schedule_seq (w_calendar w) + 1"
  let ?w = "w\<lparr>w_calendar := (w_calendar w)\<lparr>ca_schedule_seq := ?i, ca_schedules := mput ?i (sc\<lparr>sl_id := ?i\<rparr>) (ca_schedules (w_calendar w))\<rparr>\<rparr>"
  obtain ts where ts: "occurrences cron sc (w_now w) (add_days (w_now w) horizonDays) = Some (Inr ts)" "sorted ts"
    using occurrences_valid[OF assms(1,3), of "w_now w" "add_days (w_now w) horizonDays"] by (auto simp: add_days_def horizonDays_def seconds_def)
  have fresh: "mget (ca_schedules (w_calendar w)) ?i = None" "occurrences_for_schedule (w_calendar ?w) = occurrences_for_schedule (w_calendar w)"
    "occurrences_for_schedule (w_calendar w) ?i = []" "calendar_ok (w_calendar ?w)"
    using create_schedule_fresh[OF assms(2)] by (simp_all add: occurrences_for_schedule_def fun_eq_iff)
  obtain occs w' where each: "reserve_each stop (sc\<lparr>sl_id := ?i\<rparr>) (ex_cluster exe) (total_engines ?es) (occurrence_window ?es) ts ?w = (Inr occs, w')"
    "map oo_fire_time occs = ts" "calendar_ok (w_calendar w')" "ca_schedules (w_calendar w') = ca_schedules (w_calendar ?w)"
    "\<forall>k. occurrences_for_schedule (w_calendar w') k = occurrences_for_schedule (w_calendar ?w) k @ (if k = ?i then occs else [])"
    using reserve_each_times[OF fresh(4), where sc = "sc\<lparr>sl_id := ?i\<rparr>" and ts = ts and cl = "ex_cluster exe" and n = "total_engines ?es"
        and win = "occurrence_window ?es"] ts(2) fresh(2,3) by (auto simp: fire_times_def)
  have "schedule_create cron stop sc w = Some (Inr \<lparr>sv_schedule = sc\<lparr>sl_id := ?i\<rparr>, sv_occurrences = occs\<rparr>, w')"
    using assms(3,5) ts(1) exe each(1) unfolding es
    by (simp add: schedule_create_def call_def store_op_eq create_schedule_def Let_def reserve_occurrences_def fetch_def ret_def)
  then show ?thesis using ts(1) each fresh(1-3) unfolding es
    by (intro exI[of _ ?i] exI[of _ "w_calendar ?w"] exI[of _ occs] exI[of _ w'] conjI) (auto simp: fun_eq_iff)
qed

end

interpretation nq: calendar_stopper noop_stopper
  by unfold_locales (simp add: keeps_def noop_stopper_def fail_def)

section \<open>What a loop of reservations books\<close>

text \<open>
  The reservations the occurrences of a schedule refer to, as the ledger holds them, and whether a
  request over a window to come fits the ceiling beside what is reserved over it and what overruns.
\<close>

definition bookings :: "schedule \<Rightarrow> string \<Rightarrow> int \<Rightarrow> duration \<Rightarrow> occurrence list \<Rightarrow> (int, reservation) gomap" where
  "bookings sc cl n win occs = List.map_filter (\<lambda>oc. map_option (\<lambda>j. (j, \<lparr>rv_id = j, rv_tenant_id = sl_tenant_id sc, rv_cluster = cl,
     rv_engine_count = n, rv_start = oo_fire_time oc, rv_end = oo_fire_time oc + win, rv_execution_id = sl_execution_id sc\<rparr>))
     (oo_reservation_id oc)) occs"

definition fits_quota :: "world \<Rightarrow> int \<Rightarrow> string \<Rightarrow> int \<Rightarrow> time \<Rightarrow> time \<Rightarrow> bool" where
  "fits_quota w tid cl n ts te \<longleftrightarrow> engines_of (reservations_in_window (w_ledger w) tid cl ts te) +
     engines_of (overrun_reservations w tid cl) + n \<le> quota_ceiling (w_ledger w) tid cl"

text \<open>The state in which the reservations of the given occurrences have been added to the ledger.\<close>

definition with_bookings :: "schedule \<Rightarrow> string \<Rightarrow> int \<Rightarrow> duration \<Rightarrow> occurrence list \<Rightarrow> world \<Rightarrow> world" where
  "with_bookings sc cl n win occs w =
     w\<lparr>w_ledger := (w_ledger w)\<lparr>lg_reservations := lg_reservations (w_ledger w) @ bookings sc cl n win occs\<rparr>\<rparr>"

text \<open>Each occurrence is judged in its turn, beside the reservations of those before it.\<close>

definition booked_in_turn :: "schedule \<Rightarrow> string \<Rightarrow> int \<Rightarrow> duration \<Rightarrow> world \<Rightarrow> occurrence list \<Rightarrow> bool" where
  "booked_in_turn sc cl n win w occs \<longleftrightarrow> list_all (\<lambda>k. let t = oo_fire_time (occs ! k) in
     if fits_quota (with_bookings sc cl n win (take k occs) w) (sl_tenant_id sc) cl n t (t + win)
     then oo_status (occs ! k) = OccurrenceReserved \<and> oo_reservation_id (occs ! k) \<noteq> None
     else oo_status (occs ! k) = OccurrenceRejected \<and> oo_reservation_id (occs ! k) = None) [0..<length occs]"

lemma bookings_snoc:
  "bookings sc cl n win (occs @ [oc]) = bookings sc cl n win occs @ (case oo_reservation_id oc of None \<Rightarrow> []
     | Some j \<Rightarrow> [(j, \<lparr>rv_id = j, rv_tenant_id = sl_tenant_id sc, rv_cluster = cl, rv_engine_count = n, rv_start = oo_fire_time oc,
         rv_end = oo_fire_time oc + win, rv_execution_id = sl_execution_id sc\<rparr>)])"
  by (simp add: bookings_def List.map_filter_def split: option.split)

lemma bookings_engines: "0 \<le> n \<Longrightarrow> engines_of (mvals (bookings sc cl n win occs)) \<le> int (length occs) * n"
  by (induction occs rule: rev_induct)
     (auto simp: bookings_snoc engines_of_def mvals_def algebra_simps bookings_def[of _ _ _ _ "[]"] List.map_filter_def split: option.split)

lemma booked_in_turn_snoc:
  "booked_in_turn sc cl n win w (occs @ [oc]) \<longleftrightarrow> booked_in_turn sc cl n win w occs \<and>
     (if fits_quota (with_bookings sc cl n win occs w) (sl_tenant_id sc) cl n (oo_fire_time oc) (oo_fire_time oc + win)
      then oo_status oc = OccurrenceReserved \<and> oo_reservation_id oc \<noteq> None
      else oo_status oc = OccurrenceRejected \<and> oo_reservation_id oc = None)"
  by (auto simp: booked_in_turn_def list_all_iff nth_append Let_def)

lemma reserve_each_snoc:
  "reserve_each stop sc cl n win (ts @ [t]) = call (reserve_each stop sc cl n win ts) (\<lambda>occs.
     call (reserve_occurrence stop sc cl n win t) (\<lambda>oc. ret (occs @ [oc])))"
  by (induction ts) (simp_all add: call_assoc)

lemma reserve_occurrence_future:
  assumes "ledger_ok (w_ledger w)" "ledger_small (w_ledger w) n" "0 < n" "0 < win" "w_now w < t"
  shows "\<exists>oc w'. reserve_occurrence stop sc cl n win t w = (Inr oc, w') \<and> oo_fire_time oc = t \<and> w' = w\<lparr>w_calendar := w_calendar w', w_ledger := w_ledger w'\<rparr> \<and>
    ledger_ok (w_ledger w') \<and> lg_ceilings (w_ledger w') = lg_ceilings (w_ledger w) \<and>
    lg_reservations (w_ledger w') = lg_reservations (w_ledger w) @ bookings sc cl n win [oc] \<and>
    (if fits_quota w (sl_tenant_id sc) cl n t (t + win) then oo_status oc = OccurrenceReserved \<and> oo_reservation_id oc \<noteq> None
     else oo_status oc = OccurrenceRejected \<and> oo_reservation_id oc = None)"
proof -
  let ?r = "\<lparr>rv_id = 0, rv_tenant_id = sl_tenant_id sc, rv_cluster = cl, rv_engine_count = n, rv_start = t, rv_end = t + win,
    rv_execution_id = sl_execution_id sc\<rparr>"
  note rsv = reserve_future[OF assms(1-3), of t "t + win" stop "sl_tenant_id sc" cl "sl_execution_id sc", unfolded Let_def]
  have one: "bookings sc cl n win [oc] = (case oo_reservation_id oc of None \<Rightarrow> []
     | Some j \<Rightarrow> [(j, ?r\<lparr>rv_id := j, rv_start := oo_fire_time oc, rv_end := oo_fire_time oc + win\<rparr>)])" for oc
    by (simp add: bookings_def List.map_filter_def split: option.split)
  show ?thesis
  proof (cases "fits_quota w (sl_tenant_id sc) cl n t (t + win)")
    case True
    have v: "reservation_validate ?r = None" using assms(3,4) by (simp add: validate_None)
    have ok: "ledger_ok ((w_ledger w)\<lparr>lg_seq := lg_seq (w_ledger w) + 1, lg_reservations := lg_reservations (w_ledger w) @
        [(lg_seq (w_ledger w) + 1, ?r\<lparr>rv_id := lg_seq (w_ledger w) + 1\<rparr>)]\<rparr>)"
      using create_reservation_ok[OF assms(1) v] by (simp add: create_reservation_eq[OF assms(1)])
    show ?thesis using True rsv assms(4,5) ok
      by (simp add: fits_quota_def reserve_occurrence_def attempt_def call_def store_op_eq create_occurrence_def Let_def ret_def one)
  next
    case False
    then show ?thesis using rsv assms(1,4,5)
      by (simp add: fits_quota_def reserve_occurrence_def attempt_def call_def store_op_eq create_occurrence_def Let_def ret_def one)
  qed
qed

lemma reserve_each_books:
  assumes "ledger_ok (w_ledger w)" "0 < n" "0 < win" "list_all (\<lambda>t. w_now w < t) ts"
    "ledger_small (w_ledger w) ((2 * int (length ts) + 1) * n)"
  shows "\<exists>occs w'. reserve_each stop sc cl n win ts w = (Inr occs, w') \<and> map oo_fire_time occs = ts \<and>
    w' = w\<lparr>w_calendar := w_calendar w', w_ledger := w_ledger w'\<rparr> \<and> ledger_ok (w_ledger w') \<and> lg_ceilings (w_ledger w') = lg_ceilings (w_ledger w) \<and>
    lg_reservations (w_ledger w') = lg_reservations (w_ledger w) @ bookings sc cl n win occs \<and> booked_in_turn sc cl n win w occs"
  using assms(4,5)
proof (induction ts rule: rev_induct)
  case Nil
  then show ?case using assms(1) by (simp add: ret_def bookings_def List.map_filter_def booked_in_turn_def)
next
  case (snoc t ts)
  have "ledger_small (w_ledger w) ((2 * int (length ts) + 1) * n)"
    using snoc.prems(2) assms(2) by (simp add: ledger_small_def abs_mult algebra_simps)
  then obtain occs w1 where IH: "reserve_each stop sc cl n win ts w = (Inr occs, w1)" "map oo_fire_time occs = ts"
    "w1 = w\<lparr>w_calendar := w_calendar w1, w_ledger := w_ledger w1\<rparr>" "ledger_ok (w_ledger w1)" "lg_ceilings (w_ledger w1) = lg_ceilings (w_ledger w)"
    "lg_reservations (w_ledger w1) = lg_reservations (w_ledger w) @ bookings sc cl n win occs" "booked_in_turn sc cl n win w occs"
    using snoc by auto
  have len: "length occs = length ts" using IH(2) by (metis length_map)
  have now: "w_now w1 = w_now w" "w_runs w1 = w_runs w" using IH(3) by (cases w; cases w1; simp)+
  have small: "ledger_small (w_ledger w1) n"
    using snoc.prems(2) assms(2) bookings_engines[of n sc cl win occs] IH(6) len
    by (simp add: ledger_small_def abs_mult mvals_def engines_of_def algebra_simps)
  obtain oc w2 where st: "reserve_occurrence stop sc cl n win t w1 = (Inr oc, w2)" "oo_fire_time oc = t" "w2 = w1\<lparr>w_calendar := w_calendar w2, w_ledger := w_ledger w2\<rparr>"
    "ledger_ok (w_ledger w2)" "lg_ceilings (w_ledger w2) = lg_ceilings (w_ledger w1)"
    "lg_reservations (w_ledger w2) = lg_reservations (w_ledger w1) @ bookings sc cl n win [oc]"
    "if fits_quota w1 (sl_tenant_id sc) cl n t (t + win) then oo_status oc = OccurrenceReserved \<and> oo_reservation_id oc \<noteq> None
     else oo_status oc = OccurrenceRejected \<and> oo_reservation_id oc = None"
    using reserve_occurrence_future[OF IH(4) small assms(2,3), of t stop sc cl] snoc.prems(1) now by auto
  have fits: "fits_quota w1 tid cl n a b = fits_quota (with_bookings sc cl n win occs w) tid cl n a b" for tid a b
    using IH(5,6) now by (simp add: fits_quota_def with_bookings_def reservations_in_window_def overrun_reservations_def
        reservations_for_tenant_def quota_ceiling_def get_quota_def)
  have "w2 = w\<lparr>w_calendar := w_calendar w2, w_ledger := w_ledger w2\<rparr>" using st(3) IH(3) by (cases w; cases w1; cases w2) simp
  moreover have "bookings sc cl n win (occs @ [oc]) = bookings sc cl n win occs @ bookings sc cl n win [oc]"
    by (simp add: bookings_def List.map_filter_def)
  moreover have "reserve_each stop sc cl n win (ts @ [t]) w = (Inr (occs @ [oc]), w2)"
    using IH(1) st(1) by (simp add: reserve_each_snoc call_def ret_def)
  ultimately show ?case using IH st by (intro exI[of _ "occs @ [oc]"] exI[of _ w2]) (auto simp: booked_in_turn_snoc fits)
qed

text \<open>Neither the schedule's own id nor the calendar matters to what is booked.\<close>

lemma booked_in_turn_cong: "booked_in_turn (sc\<lparr>sl_id := i\<rparr>) cl n win (w\<lparr>w_calendar := c\<rparr>) occs = booked_in_turn sc cl n win w occs"
proof -
  have "bookings (sc\<lparr>sl_id := i\<rparr>) cl n win xs = bookings sc cl n win xs" for xs by (simp add: bookings_def)
  then have "fits_quota (with_bookings (sc\<lparr>sl_id := i\<rparr>) cl n win xs (w\<lparr>w_calendar := c\<rparr>)) tid cl' n' a b =
      fits_quota (with_bookings sc cl n win xs w) tid cl' n' a b" for xs tid cl' n' a b
    by (simp add: with_bookings_def fits_quota_def overrun_reservations_def)
  then show ?thesis by (simp add: booked_in_turn_def)
qed

section \<open>Claiming\<close>

definition due :: "time \<Rightarrow> occurrence \<Rightarrow> bool" where
  "due now oc \<longleftrightarrow> oo_status oc = OccurrenceReserved \<and> oo_fire_time oc \<le> now"

lemma due_fold:
  "case fold (due_step now) xs acc of None \<Rightarrow> acc = None \<and> list_all (\<lambda>x. \<not> due now x) xs
   | Some c \<Rightarrow> (acc = Some c \<or> c \<in> set xs \<and> due now c) \<and> list_all (\<lambda>x. due now x \<longrightarrow> oo_fire_time c \<le> oo_fire_time x) xs \<and>
       (\<forall>a. acc = Some a \<longrightarrow> oo_fire_time c \<le> oo_fire_time a)"
proof (induction xs arbitrary: acc)
  case Nil
  then show ?case by (cases acc) auto
next
  case (Cons x xs)
  show ?case using Cons[of "due_step now x acc"]
    by (cases acc) (auto simp: due_step_def due_def not_less split: option.splits if_splits)
qed

lemma drop_reservation_eq:
  "drop_reservation i w = (Inr (), w\<lparr>w_ledger := (w_ledger w)\<lparr>lg_reservations := mdel i (lg_reservations (w_ledger w))\<rparr>\<rparr>)"
  by (auto simp: drop_reservation_def attempt_def store_op_eq delete_reservation_def ret_def mdel_absent)

lemma calendar_ok_update:
  assumes "calendar_ok s" "mget (ca_occurrences s) i = Some c" "oo_id c' = oo_id c" "oo_schedule_id c' = oo_schedule_id c"
  shows "calendar_ok (s\<lparr>ca_occurrences := mput i c' (ca_occurrences s)\<rparr>)"
proof -
  have "occurrence_ok (ca_schedules s) (ca_occurrence_seq s) i c'" using assms by (auto simp: calendar_ok_def occurrence_ok_def)
  then show ?thesis using assms(1) by (auto simp: calendar_ok_def)
qed

text \<open>
  C24. A claim takes the earliest occurrence that is due and still reserved, marks it fired and
  frees its reservation, and changes no other occurrence or reservation; without one it changes
  nothing. In a consistent calendar it never fails, and no occurrence is claimed twice.
\<close>

theorem claim_due_exact:
  assumes "calendar_ok (w_calendar w)"
  shows "\<exists>r w'. claim_due now w = (Inr r, w') \<and> calendar_ok (w_calendar w') \<and>
    (case r of None \<Rightarrow> w' = w \<and> list_all (\<lambda>oc. \<not> due now oc) (mvals (ca_occurrences (w_calendar w)))
     | Some (occ, sc) \<Rightarrow> \<exists>old. mget (ca_occurrences (w_calendar w)) (oo_id occ) = Some old \<and> due now old \<and>
         list_all (\<lambda>oc. due now oc \<longrightarrow> oo_fire_time old \<le> oo_fire_time oc) (mvals (ca_occurrences (w_calendar w))) \<and>
         occ = old\<lparr>oo_status := OccurrenceFired\<rparr> \<and> \<not> due now occ \<and> mget (ca_schedules (w_calendar w)) (oo_schedule_id occ) = Some sc \<and>
         w' = w\<lparr>w_calendar := (w_calendar w)\<lparr>ca_occurrences := mput (oo_id occ) occ (ca_occurrences (w_calendar w))\<rparr>,
           w_ledger := (w_ledger w)\<lparr>lg_reservations := (case oo_reservation_id old of None \<Rightarrow> lg_reservations (w_ledger w)
             | Some i \<Rightarrow> mdel i (lg_reservations (w_ledger w)))\<rparr>\<rparr>)"
proof (cases "fold (due_step now) (mvals (ca_occurrences (w_calendar w))) None")
  case None
  then have "claim_due now w = (Inr None, w)"
    by (simp add: claim_due_def call_def store_op_eq claim_due_occurrence_def ret_def)
  then show ?thesis using due_fold[where now = now and xs = "mvals (ca_occurrences (w_calendar w))" and acc = None] None assms by simp
next
  case (Some c)
  note d = due_fold[where now = now and xs = "mvals (ca_occurrences (w_calendar w))" and acc = None, unfolded Some]
  have c: "mget (ca_occurrences (w_calendar w)) (oo_id c) = Some c" "due now c"
    and sched: "mget (ca_schedules (w_calendar w)) (oo_schedule_id c) \<noteq> None"
    using d assms in_mvals[of "ca_occurrences (w_calendar w)" c] by (auto simp: calendar_ok_def occurrence_ok_def)
  let ?c = "c\<lparr>oo_status := OccurrenceFired\<rparr>"
  let ?cal = "(w_calendar w)\<lparr>ca_occurrences := mput (oo_id c) ?c (ca_occurrences (w_calendar w))\<rparr>"
  obtain sc where sc: "mget (ca_schedules (w_calendar w)) (oo_schedule_id c) = Some sc" using sched by blast
  have "claim_due now w = (Inr (Some (?c, sc)), w\<lparr>w_calendar := ?cal, w_ledger := (w_ledger w)\<lparr>lg_reservations := (case oo_reservation_id c of
      None \<Rightarrow> lg_reservations (w_ledger w) | Some i \<Rightarrow> mdel i (lg_reservations (w_ledger w)))\<rparr>\<rparr>)"
  proof -
    have "in_calendar (claim_due_occurrence now) w = (Inr (Some ?c), w\<lparr>w_calendar := ?cal\<rparr>)"
      by (simp add: store_op_eq claim_due_occurrence_def Some Let_def)
    note step = call_Inr[where m = "in_calendar (claim_due_occurrence now)" and s = w, OF this]
    show ?thesis unfolding claim_due_def step
      by (cases "oo_reservation_id c") (simp_all add: call_def ret_def drop_reservation_eq fetch_def get_schedule_def sc)
  qed
  moreover have "calendar_ok ?cal" using calendar_ok_update[OF assms c(1)] by simp
  moreover have "list_all (\<lambda>x. due now x \<longrightarrow> oo_fire_time c \<le> oo_fire_time x) (mvals (ca_occurrences (w_calendar w)))" using d by simp
  ultimately show ?thesis using c sc by (intro exI[of _ "Some (?c, sc)"] exI conjI) (simp_all add: due_def)
qed

section \<open>Deleting\<close>

definition held_ids :: "occurrence list \<Rightarrow> int list" where
  "held_ids occs = List.map_filter (\<lambda>oc. if oo_status oc = OccurrenceReserved then oo_reservation_id oc else None) occs"

lemma drop_each:
  "foreach occs (\<lambda>occ. case oo_reservation_id occ of
       Some r \<Rightarrow> if oo_status occ = OccurrenceReserved then drop_reservation r else ret () | None \<Rightarrow> ret ()) w
   = (Inr (), w\<lparr>w_ledger := (w_ledger w)\<lparr>lg_reservations := filter (\<lambda>(i, _). i \<notin> set (held_ids occs)) (lg_reservations (w_ledger w))\<rparr>\<rparr>)"
proof (induction occs arbitrary: w)
  case Nil
  then show ?case by (simp add: ret_def held_ids_def map_filter_def)
next
  case (Cons oc occs)
  show ?case
  proof (cases "oo_status oc = OccurrenceReserved \<and> oo_reservation_id oc \<noteq> None")
    case True
    then obtain r where "oo_status oc = OccurrenceReserved" "oo_reservation_id oc = Some r" by auto
    then show ?thesis using Cons
      by (simp add: call_def drop_reservation_eq held_ids_def map_filter_def mdel_filter case_prod_unfold conj_commute)
  next
    case False
    then show ?thesis using Cons by (cases "oo_reservation_id oc") (simp_all add: call_def ret_def held_ids_def map_filter_def)
  qed
qed

text \<open>
  C35. Deleting a schedule removes it with its occurrences and frees exactly the reservations its
  waiting occurrences hold. Reservations made by a manual trigger, for the same execution or
  another, and those of other schedules stay, and so do the other schedules.
\<close>

theorem schedule_delete_exact:
  assumes "mget (ca_schedules (w_calendar w)) i \<noteq> None"
  shows "schedule_delete i w = (Inr (), w\<lparr>
    w_ledger := (w_ledger w)\<lparr>lg_reservations := filter (\<lambda>(r, _). r \<notin> set (held_ids (occurrences_for_schedule (w_calendar w) i)))
      (lg_reservations (w_ledger w))\<rparr>,
    w_calendar := (w_calendar w)\<lparr>ca_schedules := mdel i (ca_schedules (w_calendar w)),
      ca_occurrences := filter (\<lambda>(_, oc). oo_schedule_id oc \<noteq> i) (ca_occurrences (w_calendar w))\<rparr>\<rparr>)"
proof -
  have "schedule_delete i w = in_calendar (delete_schedule i) (w\<lparr>w_ledger := (w_ledger w)\<lparr>lg_reservations :=
      filter (\<lambda>(r, _). r \<notin> set (held_ids (occurrences_for_schedule (w_calendar w) i))) (lg_reservations (w_ledger w))\<rparr>\<rparr>)"
    unfolding schedule_delete_def call_readst by (rule call_Inr[OF drop_each])
  then show ?thesis using assms by (simp add: store_op_eq delete_schedule_def)
qed

definition two_occurrences :: world where
  "two_occurrences = (new_world 0)\<lparr>
     w_calendar := new_calendar\<lparr>ca_schedules := [(1, \<lparr>sl_id = 1, sl_execution_id = 5, sl_tenant_id = 1, sl_kind = KindRecurring,
         sl_fire_at = None, sl_recurrence = ''@daily'', sl_active = True\<rparr>)],
       ca_occurrences := map (\<lambda>(i, st). (i, \<lparr>oo_id = i, oo_schedule_id = 1, oo_fire_time = i, oo_status = st, oo_reservation_id = Some i\<rparr>))
         [(1, OccurrenceFired), (2, OccurrenceReserved)]\<rparr>,
     w_ledger := new_ledger\<lparr>lg_reservations := map (\<lambda>i. (i, \<lparr>rv_id = i, rv_tenant_id = 1, rv_cluster = '''', rv_engine_count = 1,
       rv_start = 0, rv_end = 10, rv_execution_id = 5\<rparr>)) [1, 2, 3]\<rparr>\<rparr>"

theorem schedule_delete_exact_witness:
  "\<exists>w'. schedule_delete 1 two_occurrences = (Inr (), w') \<and> map fst (lg_reservations (w_ledger w')) = [1, 3] \<and> ca_schedules (w_calendar w') = []"
proof -
  have "mget (ca_schedules (w_calendar two_occurrences)) 1 \<noteq> None" by (simp add: two_occurrences_def mget_Cons)
  moreover have "held_ids (occurrences_for_schedule (w_calendar two_occurrences) 1) = [2]" by code_simp
  ultimately show ?thesis using schedule_delete_exact[of two_occurrences 1] by (simp add: two_occurrences_def mdel_filter)
qed

end
