(* ===== verification/Deployment.thy ===== *)
theory Deployment
  imports Metrics_App Campaign_App Quota
begin

text \<open>
  The first half of \<open>internal/app/lifecycleapp/service.go\<close>: deploying the engines of an
  execution. A scenario's load is split over its pods, each pod gets a compiled configuration with
  its share, and the pods are created on every cluster of the execution. Libraries the service calls
  (YAML encoding, Kubernetes quantities, the image table) are fields of \<open>lifecycle_env\<close>, as are
  the hooks a binary may leave unwired.
\<close>

section \<open>The environment of the service\<close>

record lifecycle_env =
  le_image :: "string \<Rightarrow> string option"
  le_default_engine :: string
  le_milli_value :: "string \<Rightarrow> int option"
  le_value :: "string \<Rightarrow> int option"
  le_unmarshal :: "string \<Rightarrow> taurus_scenario option"
  le_marshal :: "config \<Rightarrow> string option"
  le_metrics_wired :: bool
  le_usage_wired :: bool

section \<open>Names and keys\<close>

definition run_shard_key :: "int \<Rightarrow> int \<Rightarrow> int \<Rightarrow> string \<Rightarrow> string" where
  "run_shard_key runID scenarioID shd ext =
     ''run/'' @ itoa runID @ ''/scenario-'' @ itoa scenarioID @ ''-shard-'' @ itoa shd @ ''.'' @ ext"

definition run_shard_cluster_key :: "int \<Rightarrow> int \<Rightarrow> int \<Rightarrow> string \<Rightarrow> string \<Rightarrow> string" where
  "run_shard_cluster_key runID scenarioID shd cluster ext =
     ''run/'' @ itoa runID @ ''/cluster-'' @ cluster @ ''/scenario-'' @ itoa scenarioID @ ''-shard-'' @ itoa shd @ ''.'' @ ext"

definition run_log_key :: "int \<Rightarrow> int \<Rightarrow> int \<Rightarrow> string" where
  "run_log_key runID scenarioID shd = run_shard_key runID scenarioID shd ''log''"

definition run_config_key :: "int \<Rightarrow> int \<Rightarrow> int \<Rightarrow> string" where
  "run_config_key runID scenarioID shd = run_shard_key runID scenarioID shd ''yml''"

definition deployed_config_key :: "int \<Rightarrow> int \<Rightarrow> string" where
  "deployed_config_key scenarioID shd = ''scenario/'' @ itoa scenarioID @ ''/compiled/shard-'' @ itoa shd @ ''.yml''"

definition scenario_file_key :: "int \<Rightarrow> string \<Rightarrow> string" where
  "scenario_file_key scenarioID filename = ''scenario/'' @ itoa scenarioID @ ''/'' @ filename"

definition podScenarioPath :: string where "podScenarioPath = ''/honryu/config/scenario/''"

definition engine_of :: "execution \<Rightarrow> string \<Rightarrow> string" where
  "engine_of exe fallback = (if ex_engine exe \<noteq> '''' then ex_engine exe else fallback)"

section \<open>Quota units\<close>

definition baselineEngineCPU :: string where "baselineEngineCPU = ''500m''"
definition baselineEngineMemory :: string where "baselineEngineMemory = ''512Mi''"

text \<open>One dimension of \<open>sizeRatio\<close>: the ratio so far, raised to this dimension's if that is larger.\<close>

definition raise_ratio :: "(string \<Rightarrow> int option) \<Rightarrow> string \<Rightarrow> string \<Rightarrow> rat \<Rightarrow> app_err + rat" where
  "raise_ratio parse baseline q ratio =
     (if q = '''' then Inr ratio
      else case parse q of None \<Rightarrow> Inl (AQuantity q)
        | Some v \<Rightarrow> (case parse baseline of None \<Rightarrow> Inl (AQuantity baseline)
            | Some b \<Rightarrow> let r = fdiv (f64_of_int v) (f64_of_int b) in Inr (if ratio < r then r else ratio)))"

definition size_ratio :: "lifecycle_env \<Rightarrow> string \<Rightarrow> string \<Rightarrow> app_err + rat" where
  "size_ratio env cpu memory =
     (case raise_ratio (le_milli_value env) baselineEngineCPU cpu 1 of Inl e \<Rightarrow> Inl e
      | Inr ratio \<Rightarrow> raise_ratio (le_value env) baselineEngineMemory memory ratio)"

definition engine_equivalents :: "lifecycle_env \<Rightarrow> string \<Rightarrow> string \<Rightarrow> int \<Rightarrow> app_err + int" where
  "engine_equivalents env cpu memory podCount =
     (case size_ratio env cpu memory of Inl e \<Rightarrow> Inl e
      | Inr ratio \<Rightarrow> Inr (i64 (int_of_f64 (math_ceil ratio) * podCount)))"

definition fan_out_engines :: "int \<Rightarrow> execution \<Rightarrow> int" where
  "fan_out_engines profileEngines exe =
     (if \<not> is_fan_out exe then profileEngines else i64 (profileEngines * int (length (ex_fan_out_targets exe))))"

section \<open>Compiling the shards of an entry\<close>

fun load_files :: "int \<Rightarrow> string list \<Rightarrow> (string, string) gomap \<Rightarrow> (string, string) gomap app" where
  "load_files scenarioID [] files = ret files"
| "load_files scenarioID (name # names) files =
     (if name = '''' then load_files scenarioID names files
      else call (fetch (\<lambda>w. download (w_objects w) (scenario_file_key scenarioID name))) (\<lambda>content.
        load_files scenarioID names (mput name content files)))"

definition scenario_input_of :: "lifecycle_env \<Rightarrow> int \<Rightarrow> scenario \<Rightarrow> scenario_files \<Rightarrow> scenario_input app" where
  "scenario_input_of env scenarioID sc pf =
     (let si = \<lparr>si_scenario = sc, si_script_path = '''', si_default_address = '''', si_requests = [], si_headers = [],
                si_timeout = 0, si_keep_alive = None, si_data_paths = map ((@) podScenarioPath) (sf_data pf)\<rparr>
      in if sc_kind sc = KindNative then ret (si\<lparr>si_script_path := podScenarioPath @ sf_test_file pf\<rparr>)
         else if sc_kind sc = KindPortable then
           attempt (fetch (\<lambda>w. get_scenario_requests (w_catalog w) scenarioID)) (\<lambda>r. case r of
             Inl e \<Rightarrow> if e = APort PortErrNotFound then ret si else fail e
           | Inr raw \<Rightarrow> (case le_unmarshal env raw of None \<Rightarrow> fail (AYaml scenarioID)
               | Some frag \<Rightarrow> ret (si\<lparr>si_requests := ts_requests frag, si_default_address := ts_default_address frag,
                   si_headers := ts_headers frag, si_timeout := ts_timeout frag, si_keep_alive := ts_keep_alive frag\<rparr>)))
         else ret si)"

text \<open>The entries one pod runs: its share, or for a staircase its share of every step.\<close>

definition shard_tests :: "entry \<Rightarrow> int \<Rightarrow> int \<Rightarrow> shard \<Rightarrow> entry list" where
  "shard_tests en pods i sh =
     (if 1 < en_steps en then
        map (\<lambda>st. en\<lparr>en_concurrency := max 1 (split_share (sc_concurrency st) pods i),
                     en_throughput := max 1 (split_share (sc_throughput st) pods i), en_rampup := 0\<rparr>)
          (staircase_steps (en_concurrency en) (en_throughput en) (en_steps en))
      else [en\<lparr>en_concurrency := sh_concurrency sh, en_throughput := sh_throughput sh\<rparr>])"

fun compile_each :: "lifecycle_env \<Rightarrow> compile_input \<Rightarrow> entry \<Rightarrow> int \<Rightarrow> int \<Rightarrow> shard list \<Rightarrow> shard_spec list \<Rightarrow> shard_spec list app" where
  "compile_each env ci en pods i [] specs = ret specs"
| "compile_each env ci en pods i (sh # shs) specs =
     (case compile_taurus (ci\<lparr>ci_tests := shard_tests en pods i sh, ci_sequential := (1 < en_steps en)\<rparr>) of
        Inl e \<Rightarrow> fail (ACompile e)
      | Inr cfg \<Rightarrow> (case le_marshal env cfg of None \<Rightarrow> fail (AYaml (en_scenario_id en))
          | Some raw \<Rightarrow> besteffort (in_objects (upload (deployed_config_key (en_scenario_id en) (sh_index sh)) raw))
              (compile_each env ci en pods (i + 1) shs
                (specs @ [\<lparr>ss_index = sh_index sh, ss_config = raw, ss_concurrency = sh_concurrency sh\<rparr>]))))"

definition compile_shards :: "lifecycle_env \<Rightarrow> execution \<Rightarrow> entry \<Rightarrow> shard list \<Rightarrow> string \<Rightarrow> (string, string) gomap
    \<Rightarrow> (shard_spec list \<times> (string, string) gomap) app" where
  "compile_shards env exe en shards engine headers =
     call (fetch (\<lambda>w. get_scenario (w_catalog w) (en_scenario_id en))) (\<lambda>sc.
     call (readst (\<lambda>w. scenario_files_for (w_catalog w) (en_scenario_id en))) (\<lambda>pf.
     if sc_kind sc = KindNative \<and> sf_test_file pf = '''' then fail (ANoTestFile (en_scenario_id en))
     else call (load_files (en_scenario_id en) (sf_test_file pf # sf_data pf) []) (\<lambda>files.
          call (scenario_input_of env (en_scenario_id en) sc pf) (\<lambda>si.
          call (readst (\<lambda>w. criteria_for (w_catalog w) (ex_id exe))) (\<lambda>criteria.
          let ci = \<lparr>ci_execution = exe, ci_tests = [], ci_engine = engine, ci_scenarios = [(en_scenario_id en, si)],
                    ci_headers = headers, ci_criteria = criteria, ci_sequential = False\<rparr>
          in call (compile_each env ci en (int (length shards)) 0 shards []) (\<lambda>specs. ret (specs, files)))))))"

section \<open>Deploying\<close>

definition deploy_entry :: "lifecycle_env \<Rightarrow> execution \<Rightarrow> int \<Rightarrow> string \<Rightarrow> (string, string) gomap \<Rightarrow> entry \<Rightarrow> unit app" where
  "deploy_entry env exe executionID img headers en =
     (case plan en (en_engines en) of Inl e \<Rightarrow> fail (AShard e)
      | Inr shards \<Rightarrow>
         call (compile_shards env exe en shards (engine_of exe (le_default_engine env)) headers) (\<lambda>(specs, files).
         foreach (clusters exe) (\<lambda>cluster. wrap_err (AFanOut cluster)
           (timed (\<lambda>now. in_sched (deploy_scenario now \<lparr>dp_cluster = cluster, dp_project_id = ex_project_id exe,
              dp_execution_id = executionID, dp_scenario_id = en_scenario_id en, dp_image = img, dp_cpu = ex_cpu exe,
              dp_memory = ex_memory exe, dp_shards = specs, dp_scenario_files = files\<rparr>))))))"

text \<open>\<open>Deploy\<close>, with the trace identity the generator minted for this call, or its error.\<close>

definition deploy :: "lifecycle_env \<Rightarrow> string + trace_context \<Rightarrow> int \<Rightarrow> unit app" where
  "deploy env minted executionID =
     call (fetch (\<lambda>w. get_execution (w_catalog w) executionID)) (\<lambda>exe.
     call (readst (\<lambda>w. load_profile_for (w_catalog w) executionID)) (\<lambda>es.
     if es = [] then fail (ARun RunErrNoScenarios)
     else call (readst (\<lambda>w. current_run (w_runs w) executionID)) (\<lambda>cur.
          call (check (map_option ARun (can_deploy (derive_phase 0 (cur \<noteq> None))))) (\<lambda>_.
          case le_image env (ex_engine exe) of None \<Rightarrow> fail (AImage (ex_engine exe))
          | Some img \<Rightarrow> (case minted of Inl e \<Rightarrow> fail (ATrace e)
            | Inr tc \<Rightarrow>
              call (in_catalog (set_pending_correlation_id executionID (tc_trace_id tc))) (\<lambda>_.
              call (in_runs (clear_orphan_completions executionID)) (\<lambda>_.
              call (timed (\<lambda>now. in_catalog (touch_activity now executionID))) (\<lambda>_.
              let headers = telemetry_headers tc \<lparr>id_tenant_id = ex_tenant_id exe, id_project_id = ex_project_id exe,
                              id_execution_id = executionID, id_run_correlation_id = tc_trace_id tc\<rparr>
              in foreach es (deploy_entry env exe executionID img headers)))))))))"

section \<open>Status\<close>

definition plan_refs :: "entry list \<Rightarrow> scenario_ref list" where
  "plan_refs = map (\<lambda>e. \<lparr>sr_scenario_id = en_scenario_id e, sr_shards = en_engines e\<rparr>)"

fun sum_status :: "string list \<Rightarrow> int \<Rightarrow> scenario_ref list \<Rightarrow> int \<Rightarrow> (int, int) gomap \<Rightarrow> bool \<Rightarrow> (int \<times> (int, int) gomap \<times> bool) app" where
  "sum_status [] executionID refs pool deployed reachable = ret (pool, deployed, reachable)"
| "sum_status (cl # cls) executionID refs pool deployed reachable =
     call (wrap_err (AFanOut cl) (in_sched (sched_execution_status cl executionID refs))) (\<lambda>st.
     sum_status cls executionID refs (i64 (pool + xs_pool_size st))
       (fold (\<lambda>pr d. mput (rd_scenario_id pr) (i64 (mget_or 0 d (rd_scenario_id pr) + rd_engines_deployed pr)) d) (xs_scenarios st) deployed)
       (reachable \<and> list_all rd_reachable (xs_scenarios st)))"

definition execution_status_across :: "execution \<Rightarrow> int \<Rightarrow> scenario_ref list \<Rightarrow> execution_status app" where
  "execution_status_across exe executionID refs =
     (case clusters exe of
        [cl] \<Rightarrow> in_sched (sched_execution_status cl executionID refs)
      | cls \<Rightarrow> call (sum_status cls executionID refs 0 [] True) (\<lambda>(pool, deployed, reachable).
          ret \<lparr>xs_scenarios = map (\<lambda>ref. \<lparr>rd_scenario_id = sr_scenario_id ref, rd_engines_wanted = sr_shards ref,
                 rd_engines_deployed = mget_or 0 deployed (sr_scenario_id ref), rd_reachable = reachable\<rparr>) refs,
               xs_pool_size = pool\<rparr>))"

definition require_every_cluster_ready :: "execution \<Rightarrow> int \<Rightarrow> scenario_ref list \<Rightarrow> unit app" where
  "require_every_cluster_ready exe executionID refs =
     foreach (ex_fan_out_targets exe) (\<lambda>cl. wrap_err (AFanOut cl)
       (call (in_sched (sched_execution_status cl executionID refs)) (\<lambda>st.
        if xs_pool_size st < sum64 (map sr_shards refs) 0 then fail (ARun RunErrEnginesNotReady) else ret ())))"

record scenario_status =
  st_scenario_id :: int
  st_engines_wanted :: int
  st_engines_deployed :: int
  st_reachable :: bool
  st_in_progress :: bool
  st_started_time :: "time option"

record lifecycle_status =
  ls_phase :: phase
  ls_pool_size :: int
  ls_scenarios :: "scenario_status list"

definition running_by_scenario :: "world \<Rightarrow> int \<Rightarrow> (int, time) gomap" where
  "running_by_scenario w executionID =
     fold (\<lambda>rp. mput (rn_scenario_id rp) (rn_started_time rp)) (running_scenarios_by_execution (w_runs w) executionID) []"

definition status_view :: "world \<Rightarrow> int \<Rightarrow> execution_status \<Rightarrow> lifecycle_status" where
  "status_view w executionID sched =
     (let running = running_by_scenario w executionID
      in \<lparr>ls_phase = derive_phase (xs_pool_size sched) (current_run (w_runs w) executionID \<noteq> None), ls_pool_size = xs_pool_size sched,
          ls_scenarios = map (\<lambda>pr. \<lparr>st_scenario_id = rd_scenario_id pr, st_engines_wanted = rd_engines_wanted pr,
             st_engines_deployed = rd_engines_deployed pr, st_reachable = rd_reachable pr,
             st_in_progress = (mget running (rd_scenario_id pr) \<noteq> None), st_started_time = mget running (rd_scenario_id pr)\<rparr>)
             (xs_scenarios sched)\<rparr>)"

definition lifecycle_status_of :: "int \<Rightarrow> lifecycle_status app" where
  "lifecycle_status_of executionID =
     call (fetch (\<lambda>w. get_execution (w_catalog w) executionID)) (\<lambda>exe.
     call (readst (\<lambda>w. load_profile_for (w_catalog w) executionID)) (\<lambda>es.
     call (execution_status_across exe executionID (plan_refs es)) (\<lambda>sched.
     readst (\<lambda>w. status_view w executionID sched))))"

definition cluster_status :: "int \<Rightarrow> string \<Rightarrow> lifecycle_status app" where
  "cluster_status executionID cluster =
     call (fetch (\<lambda>w. get_execution (w_catalog w) executionID)) (\<lambda>exe.
     if cluster \<notin> set (clusters exe) then fail (APort PortErrNotFound)
     else call (readst (\<lambda>w. load_profile_for (w_catalog w) executionID)) (\<lambda>es.
          call (in_sched (sched_execution_status cluster executionID (plan_refs es))) (\<lambda>sched.
          readst (\<lambda>w. status_view w executionID sched))))"

definition engines_detail :: "world \<Rightarrow> int \<Rightarrow> int \<Rightarrow> port_err + execution_detail" where
  "engines_detail w projectID executionID =
     (case get_execution (w_catalog w) executionID of Inl e \<Rightarrow> Inl e
      | Inr exe \<Rightarrow> (case clusters exe of
          [cl] \<Rightarrow> Inr (sched_engine_detail (w_sched w) executionID)
        | cls \<Rightarrow> Inr (fold (\<lambda>cl out. let d = sched_engine_detail (w_sched w) executionID
             in \<lparr>xd_ingress_ip = (if xd_ingress_ip out = '''' then xd_ingress_ip d else xd_ingress_ip out),
                 xd_engines = xd_engines out @ map (\<lambda>en. en\<lparr>ed_name := cl @ ''/'' @ ed_name en\<rparr>) (xd_engines d)\<rparr>)
             cls \<lparr>xd_ingress_ip = '''', xd_engines = []\<rparr>)))"

definition cluster_for :: "world \<Rightarrow> int \<Rightarrow> port_err + string" where
  "cluster_for w executionID =
     (case get_execution (w_catalog w) executionID of Inl e \<Rightarrow> Inl e
      | Inr exe \<Rightarrow> Inr (if is_fan_out exe then hd (ex_fan_out_targets exe) else ex_cluster exe))"

definition lifecycle_pod_log :: "world \<Rightarrow> int \<Rightarrow> int \<Rightarrow> string \<Rightarrow> port_err + string" where
  "lifecycle_pod_log w executionID scenarioID cluster =
     (case (if cluster = '''' then cluster_for w executionID else Inr cluster) of Inl e \<Rightarrow> Inl e
      | Inr ref \<Rightarrow> pod_log (w_sched w) ref executionID scenarioID 0)"

text \<open>A concrete environment: one image, the two baseline quantities, every hook wired.\<close>

definition demo_env :: lifecycle_env where
  "demo_env = \<lparr>le_image = (\<lambda>_. Some ''engine''), le_default_engine = ''jmeter'',
     le_milli_value = (\<lambda>q. if q = ''500m'' then Some 500 else if q = ''2'' then Some 2000 else None),
     le_value = (\<lambda>q. if q = ''512Mi'' then Some 536870912 else None),
     le_unmarshal = (\<lambda>_. None), le_marshal = (\<lambda>_. Some ''config''), le_metrics_wired = True, le_usage_wired = True\<rparr>"

end
