(* ===== verification/Deploy_Load.thy ===== *)
theory Deploy_Load
  imports Deployment
begin

text \<open>
  What the engines of a deployed execution run: the configurations on the pods of a scenario add up
  to the load its entry asks for.
\<close>

lemma compiled_load:
  assumes "compile_taurus inp = Inr cfg"
  shows "map te_concurrency (cfg_execution cfg) = map en_concurrency (ci_tests inp)"
    "map te_throughput (cfg_execution cfg) = map en_throughput (ci_tests inp)"
  using assms by (simp_all add: compile_taurus_Inr compiled_def exec_block_def o_def)

text \<open>The shards of a flat entry: one configuration each, with the shard's own users and rate.\<close>

definition runs_configs :: "lifecycle_env \<Rightarrow> shard_spec list \<Rightarrow> config list \<Rightarrow> bool" where
  "runs_configs env specs cfgs \<longleftrightarrow> list_all2 (\<lambda>s cfg. le_marshal env cfg = Some (ss_config s)) specs cfgs"

lemma compile_each_flat:
  assumes "compile_each env ci en pods i shs specs w = (Inr out, w')" "\<not> 1 < en_steps en"
  shows "\<exists>new cfgs. out = specs @ new \<and> runs_configs env new cfgs \<and> map ss_index new = map sh_index shs \<and>
    map (\<lambda>cfg. map te_concurrency (cfg_execution cfg)) cfgs = map (\<lambda>sh. [sh_concurrency sh]) shs \<and>
    map (\<lambda>cfg. map te_throughput (cfg_execution cfg)) cfgs = map (\<lambda>sh. [sh_throughput sh]) shs"
  using assms(1)
proof (induction shs arbitrary: i specs w)
  case Nil
  then show ?case by (intro exI[of _ "[]"]) (simp add: ret_def runs_configs_def)
next
  case (Cons sh shs)
  let ?inp = "ci\<lparr>ci_tests := shard_tests en pods i sh, ci_sequential := (1 < en_steps en)\<rparr>"
  obtain cfg raw where cfg: "compile_taurus ?inp = Inr cfg" "le_marshal env cfg = Some raw"
    using Cons.prems by (auto simp: fail_def split: sum.splits option.splits)
  let ?w1 = "snd (in_objects (upload (deployed_config_key (en_scenario_id en) (sh_index sh)) raw) w)"
  let ?spec = "\<lparr>ss_index = sh_index sh, ss_config = raw, ss_concurrency = sh_concurrency sh\<rparr>"
  have "compile_each env ci en pods (i + 1) shs (specs @ [?spec]) ?w1 = (Inr out, w')"
    using Cons.prems cfg by (simp add: besteffort_def)
  from Cons.IH[OF this] obtain new cfgs where IH: "out = specs @ ?spec # new" "runs_configs env new cfgs" "map ss_index new = map sh_index shs"
    "map (\<lambda>cfg. map te_concurrency (cfg_execution cfg)) cfgs = map (\<lambda>sh. [sh_concurrency sh]) shs"
    "map (\<lambda>cfg. map te_throughput (cfg_execution cfg)) cfgs = map (\<lambda>sh. [sh_throughput sh]) shs" by auto
  have "map te_concurrency (cfg_execution cfg) = [sh_concurrency sh]" "map te_throughput (cfg_execution cfg) = [sh_throughput sh]"
    using compiled_load[OF cfg(1)] assms(2) by (simp_all add: shard_tests_def)
  then show ?case using IH cfg(2) by (intro exI[of _ "?spec # new"] exI[of _ "cfg # cfgs"]) (simp add: runs_configs_def)
qed

text \<open>Compiling writes to the object store only.\<close>

lemma keeps_compile_each:
  assumes "\<And>w k d. I w \<Longrightarrow> I (w\<lparr>w_objects := snd (upload k d (w_objects w))\<rparr>)"
  shows "keeps I (compile_each env ci en pods i shs specs)"
  by (induction shs arbitrary: i specs) (auto intro!: keeps_rules simp: keeps_def[of _ "in_objects _"] assms)

lemma keeps_load_files: "keeps I (load_files sid names files)"
  by (induction names arbitrary: files) (auto intro!: keeps_rules)

lemma keeps_scenario_input: "keeps I (scenario_input_of env sid sc pf)"
  unfolding scenario_input_of_def Let_def by (intro keeps_rules)

lemma keeps_compile_shards:
  assumes "\<And>w k d. I w \<Longrightarrow> I (w\<lparr>w_objects := snd (upload k d (w_objects w))\<rparr>)"
  shows "keeps I (compile_shards env exe en shards engine headers)"
  unfolding compile_shards_def Let_def by (intro keeps_rules keeps_compile_each keeps_load_files keeps_scenario_input assms)

lemma compile_shards_InrD:
  assumes "compile_shards env exe en shards engine headers w = (Inr (specs, files), w')" "\<not> 1 < en_steps en"
  shows "\<exists>cfgs. runs_configs env specs cfgs \<and> map ss_index specs = map sh_index shards \<and>
    map (\<lambda>cfg. map te_concurrency (cfg_execution cfg)) cfgs = map (\<lambda>sh. [sh_concurrency sh]) shards \<and>
    map (\<lambda>cfg. map te_throughput (cfg_execution cfg)) cfgs = map (\<lambda>sh. [sh_throughput sh]) shards"
proof -
  from assms(1) obtain ci v v' where "compile_each env ci en (int (length shards)) 0 shards [] v = (Inr specs, v')"
    unfolding compile_shards_def Let_def
    by (auto elim!: call_InrE simp: fail_def ret_def split: if_splits)
  from compile_each_flat[OF this assms(2)] show ?thesis by auto
qed

lemma deploy_scenario_last:
  "last_deploy (snd (deploy_scenario now spec s)) e sid =
     (if e = dp_execution_id spec \<and> sid = dp_scenario_id spec then Some spec else last_deploy s e sid)"
  by (auto simp: deploy_scenario_def last_deploy_def Let_def mget_or_def split: option.split)

text \<open>Every cluster gets the same shards; nothing else of the scheduler changes.\<close>

lemma deploy_clusters:
  fixes mk :: "string \<Rightarrow> deploy_spec"
  assumes "\<And>cl. dp_execution_id (mk cl) = e \<and> dp_scenario_id (mk cl) = sid"
  shows "\<exists>w'. foreach cls (\<lambda>cl. wrap_err (AFanOut cl) (timed (\<lambda>now. in_sched (deploy_scenario now (mk cl))))) w = (Inr (), w') \<and>
    (\<forall>e' sid'. last_deploy (w_sched w') e' sid' = (if e' = e \<and> sid' = sid \<and> cls \<noteq> [] then Some (mk (last cls)) else last_deploy (w_sched w) e' sid'))"
proof (induction cls arbitrary: w)
  case Nil
  then show ?case by (simp add: ret_def)
next
  case (Cons cl cls)
  let ?w1 = "w\<lparr>w_sched := snd (deploy_scenario (w_now w) (mk cl) (w_sched w))\<rparr>"
  have "wrap_err (AFanOut cl) (timed (\<lambda>now. in_sched (deploy_scenario now (mk cl)))) w = (Inr (), ?w1)"
    by (simp add: wrap_err_def timed_def store_op_eq deploy_scenario_def Let_def)
  moreover obtain w' where "foreach cls (\<lambda>cl. wrap_err (AFanOut cl) (timed (\<lambda>now. in_sched (deploy_scenario now (mk cl))))) ?w1 = (Inr (), w')"
    "\<forall>e' sid'. last_deploy (w_sched w') e' sid' = (if e' = e \<and> sid' = sid \<and> cls \<noteq> [] then Some (mk (last cls)) else last_deploy (w_sched ?w1) e' sid')"
    using Cons.IH by blast
  ultimately show ?case using assms by (intro exI[of _ w']) (auto simp: call_def deploy_scenario_last)
qed

text \<open>
  The deployment of a scenario whose configurations add up to the users and the configured rate of an
  entry. An engine reads a rate of zero as no limit, so the configured rates bound what the engines
  drive only if none is zero: a pod is without a limit exactly when the entry's rate is below the
  number of pods.
\<close>

definition carries :: "lifecycle_env \<Rightarrow> entry \<Rightarrow> deploy_spec \<Rightarrow> bool" where
  "carries env en spec \<longleftrightarrow> (\<exists>cfgs. runs_configs env (dp_shards spec) cfgs \<and>
     (let pods = min (en_engines en) (en_concurrency en);
          users = concat (map (\<lambda>cfg. map te_concurrency (cfg_execution cfg)) cfgs);
          rates = concat (map (\<lambda>cfg. map te_throughput (cfg_execution cfg)) cfgs)
      in map ss_index (dp_shards spec) = [0..pods - 1] \<and> sum_list users = en_concurrency en \<and>
         sum_list rates = en_throughput en \<and> list_all (\<lambda>q. 0 \<le> q) rates \<and> (list_ex (\<lambda>q. q = 0) rates \<longleftrightarrow> en_throughput en < pods)))"

definition flat_entry :: "entry \<Rightarrow> bool" where
  "flat_entry en \<longleftrightarrow> \<not> 1 < en_steps en \<and> in_i64 (en_concurrency en) \<and> 0 \<le> en_throughput en \<and> in_i64 (en_throughput en)"

lemma concat_singletons [simp]: "concat (map (\<lambda>y. [h y]) ys) = map h ys"
  by (induction ys) auto

text \<open>A share of the rate is zero for some pod exactly when there are more pods than requests per second.\<close>

lemma plan_rates:
  assumes "plan e n = Inr shards" "0 \<le> en_throughput e" "in_i64 (en_throughput e)"
  shows "list_all (\<lambda>q. 0 \<le> q) (map sh_throughput shards)"
    "list_ex (\<lambda>q. q = 0) (map sh_throughput shards) \<longleftrightarrow> en_throughput e < min n (en_concurrency e)"
proof -
  let ?m = "min n (en_concurrency e)" and ?t = "en_throughput e"
  note P = plan_InrD[OF assms(1)]
  have m: "0 < ?m" using P by simp
  have q: "0 \<le> ?t div ?m" using assms(2) m by (simp add: pos_imp_zdiv_nonneg_iff)
  have share: "split_share ?t ?m i = ?t div ?m + (if i < ?t mod ?m then 1 else 0)" if "0 \<le> i" for i
    using assms(2,3) m that by (intro split_share_nonneg) (auto simp: in_i64_def)
  show "list_all (\<lambda>q. 0 \<le> q) (map sh_throughput shards)" using q by (auto simp: P(3) list_all_iff share)
  have "list_ex (\<lambda>q. q = 0) (map sh_throughput shards) \<longleftrightarrow> (\<exists>i \<in> {0..?m - 1}. ?t div ?m + (if i < ?t mod ?m then 1 else 0) = 0)"
  proof -
    have "list_ex (\<lambda>q. q = 0) (map sh_throughput shards) \<longleftrightarrow> (\<exists>i \<in> {0..?m - 1}. split_share ?t ?m i = 0)"
      unfolding P(3) list_ex_iff by (simp add: o_def) (metis (no_types, lifting) image_iff)
    also have "\<dots> \<longleftrightarrow> (\<exists>i \<in> {0..?m - 1}. ?t div ?m + (if i < ?t mod ?m then 1 else 0) = 0)"
      by (intro bex_cong refl) (simp only: share atLeastAtMost_iff)
    finally show ?thesis .
  qed
  also have "\<dots> \<longleftrightarrow> ?t div ?m = 0 \<and> (\<exists>i \<in> {0..?m - 1}. \<not> i < ?t mod ?m)" using q by (auto split: if_splits)
  also have "\<dots> \<longleftrightarrow> ?t < ?m"
  proof -
    have "\<not> k - 1 < t mod k" "t div k = 0 \<longleftrightarrow> t < k" if "0 < k" "0 \<le> t" for t k :: int
      using that pos_mod_bound[of k t] by (linarith, auto simp: zdiv_eq_0_iff)
    from this[OF m assms(2)] m show ?thesis by (metis atLeastAtMost_iff diff_ge_0_iff_ge int_one_le_iff_zero_less order_refl)
  qed
  finally show "list_ex (\<lambda>q. q = 0) (map sh_throughput shards) \<longleftrightarrow> ?t < ?m" .
qed

lemma deploy_entry_InrD:
  assumes "deploy_entry env exe e img headers en w = (Inr (), w')"
  shows "(flat_entry en \<longrightarrow> (\<exists>spec. last_deploy (w_sched w') e (en_scenario_id en) = Some spec \<and> dp_image spec = img \<and> carries env en spec)) \<and>
    (\<forall>e' sid. (e', sid) \<noteq> (e, en_scenario_id en) \<longrightarrow> last_deploy (w_sched w') e' sid = last_deploy (w_sched w) e' sid)"
proof -
  obtain shards where p: "plan en (en_engines en) = Inr shards" using assms by (auto simp: deploy_entry_def fail_def split: sum.splits)
  from assms p obtain sf w1 where c: "compile_shards env exe en shards (engine_of exe (le_default_engine env)) headers w = (Inr sf, w1)"
    by (auto simp: deploy_entry_def elim: call_InrE)
  obtain specs files where sf: "sf = (specs, files)" by (cases sf)
  have same: "w_sched w1 = w_sched w" using keepsD[OF keeps_compile_shards[of "\<lambda>v. w_sched v = w_sched w"] _ c] by simp
  let ?mk = "\<lambda>cluster. \<lparr>dp_cluster = cluster, dp_project_id = ex_project_id exe, dp_execution_id = e, dp_scenario_id = en_scenario_id en,
      dp_image = img, dp_cpu = ex_cpu exe, dp_memory = ex_memory exe, dp_shards = specs, dp_scenario_files = files\<rparr>"
  have run: "foreach (clusters exe) (\<lambda>cluster. wrap_err (AFanOut cluster) (timed (\<lambda>now. in_sched (deploy_scenario now (?mk cluster))))) w1 = (Inr (), w')"
    using assms p c sf by (simp add: deploy_entry_def call_def)
  have ne: "clusters exe \<noteq> []" by (simp add: clusters_def is_fan_out_def)
  have last: "last_deploy (w_sched w') e' sid' = (if e' = e \<and> sid' = en_scenario_id en then Some (?mk (last (clusters exe))) else last_deploy (w_sched w) e' sid')" for e' sid'
    using deploy_clusters[of ?mk e "en_scenario_id en" "clusters exe" w1] run ne same by auto
  have "carries env en (?mk (last (clusters exe)))" if flat: "flat_entry en"
  proof -
    obtain cfgs where cfgs: "runs_configs env specs cfgs" "map ss_index specs = map sh_index shards"
      "map (\<lambda>cfg. map te_concurrency (cfg_execution cfg)) cfgs = map (\<lambda>sh. [sh_concurrency sh]) shards"
      "map (\<lambda>cfg. map te_throughput (cfg_execution cfg)) cfgs = map (\<lambda>sh. [sh_throughput sh]) shards"
      using compile_shards_InrD[OF c[unfolded sf]] flat by (auto simp: flat_entry_def)
    have "map sh_index shards = [0..min (en_engines en) (en_concurrency en) - 1]" using plan_InrD[OF p] by (simp add: o_def)
    then show ?thesis using cfgs plan_sums[OF p] plan_rates[OF p] flat
      unfolding carries_def flat_entry_def by (intro exI[of _ cfgs]) (simp add: Let_def)
  qed
  then show ?thesis using last by auto
qed

lemma deploy_entries_InrD:
  assumes "foreach es (deploy_entry env exe e img headers) w = (Inr (), w')" "distinct (map en_scenario_id es)"
  shows "(\<forall>en \<in> set es. flat_entry en \<longrightarrow> (\<exists>spec. last_deploy (w_sched w') e (en_scenario_id en) = Some spec \<and> dp_image spec = img \<and> carries env en spec)) \<and>
    (\<forall>e' sid. e' \<noteq> e \<or> sid \<notin> en_scenario_id ` set es \<longrightarrow> last_deploy (w_sched w') e' sid = last_deploy (w_sched w) e' sid)"
  using assms
proof (induction es arbitrary: w)
  case Nil
  then show ?case by (simp add: ret_def)
next
  case (Cons en es)
  from Cons.prems(1) obtain w1 where w1: "deploy_entry env exe e img headers en w = (Inr (), w1)"
    and rest: "foreach es (deploy_entry env exe e img headers) w1 = (Inr (), w')" unfolding foreach.simps by (rule call_unitE)
  note one = deploy_entry_InrD[OF w1]
  have IH: "\<forall>en \<in> set es. flat_entry en \<longrightarrow> (\<exists>spec. last_deploy (w_sched w') e (en_scenario_id en) = Some spec \<and> dp_image spec = img \<and> carries env en spec)"
    "\<forall>e' sid. e' \<noteq> e \<or> sid \<notin> en_scenario_id ` set es \<longrightarrow> last_deploy (w_sched w') e' sid = last_deploy (w_sched w1) e' sid"
    using Cons.IH[OF rest] Cons.prems(2) by auto
  have "last_deploy (w_sched w') e (en_scenario_id en) = last_deploy (w_sched w1) e (en_scenario_id en)" using IH(2) Cons.prems(2) by simp
  then show ?case using one IH by auto
qed

text \<open>
  C12. After a successful deploy of a profile that names no scenario twice, every flat entry (no
  staircase, users and a non-negative rate in 64-bit range) has its scenario's engines deployed on the
  resolved image. Their configurations add up to exactly the users and the
  configured request rate of the entry, and every engine has a limit of its own as long as the rate is
  at least the number of pods; below that some engine's configured rate is zero, which it reads as
  unlimited. For a fan-out this is about the engines on record, those of the last cluster. No other
  execution's engines changed.
\<close>

theorem deploy_conserves_load:
  assumes "deploy env minted e w = (Inr (), w')" "distinct (map en_scenario_id (load_profile_for (w_catalog w) e))"
  shows "\<exists>exe img. get_execution (w_catalog w) e = Inr exe \<and> le_image env (ex_engine exe) = Some img \<and> current_run (w_runs w) e = None \<and>
    list_all (\<lambda>en. flat_entry en \<longrightarrow> (\<exists>spec. last_deploy (w_sched w') e (en_scenario_id en) = Some spec \<and> dp_image spec = img \<and> carries env en spec))
      (load_profile_for (w_catalog w) e) \<and>
    (\<forall>e' sid. e' \<noteq> e \<longrightarrow> last_deploy (w_sched w') e' sid = last_deploy (w_sched w) e' sid)"
proof -
  let ?es = "load_profile_for (w_catalog w) e"
  obtain exe where exe: "get_execution (w_catalog w) e = Inr exe" using assms(1) by (auto simp: deploy_def call_fetch split: sum.splits)
  have es: "?es \<noteq> []" using assms(1) exe by (auto simp: deploy_def call_fetch fail_def)
  have cur: "current_run (w_runs w) e = None" using assms(1) exe es
    by (cases "current_run (w_runs w) e") (auto simp: deploy_def call_fetch can_deploy_def derive_phase_def fail_def)
  obtain img tc where img: "le_image env (ex_engine exe) = Some img" "minted = Inr tc" using assms(1) exe es cur
    by (auto simp: deploy_def call_fetch can_deploy_def derive_phase_def fail_def split: option.splits sum.splits)
  define headers where "headers = telemetry_headers tc \<lparr>id_tenant_id = ex_tenant_id exe, id_project_id = ex_project_id exe,
      id_execution_id = e, id_run_correlation_id = tc_trace_id tc\<rparr>"
  have "call (in_catalog (set_pending_correlation_id e (tc_trace_id tc))) (\<lambda>_.
      call (in_runs (clear_orphan_completions e)) (\<lambda>_.
      call (timed (\<lambda>now. in_catalog (touch_activity now e))) (\<lambda>_. foreach ?es (deploy_entry env exe e img headers)))) w = (Inr (), w')"
    using assms(1) exe es cur img by (simp add: deploy_def call_fetch can_deploy_def derive_phase_def headers_def Let_def)
  then obtain w3 where w3: "w_sched w3 = w_sched w" "foreach ?es (deploy_entry env exe e img headers) w3 = (Inr (), w')"
    by (elim call_unitE) (rule that[rotated], assumption, auto simp: store_op_eq timed_def)
  from deploy_entries_InrD[OF w3(2) assms(2)] show ?thesis using exe img(1) cur w3(1) by (auto simp: list_all_iff)
qed

definition deploy_world :: world where
  "deploy_world = (new_world 100)\<lparr>
     w_catalog := new_catalog\<lparr>ct_executions := [(5, \<lparr>ex_id = 5, ex_name = ''e'', ex_project_id = 3, ex_engine = '''', ex_kind = '''',
         ex_cpu = '''', ex_memory = '''', ex_cluster = '''', ex_fan_out_targets = [], ex_csv_split = False, ex_tenant_id = None,
         ex_created_by = '''', ex_updated_by = '''', ex_created_time = 0\<rparr>)],
       ct_scenarios := [(7, zero_scenario\<lparr>sc_id := 7, sc_name := ''s'', sc_kind := KindNative, sc_engine := ''jmeter''\<rparr>)],
       ct_plan_test := [(7, ''t.jmx'')], ct_exec := [(5, [demo_entry])]\<rparr>,
     w_objects := new_object_store\<lparr>os_objects := [(''scenario/7/t.jmx'', ''script'')]\<rparr>\<rparr>"

theorem deploy_conserves_load_witness:
  "\<exists>w' spec. deploy demo_env (Inr \<lparr>tc_trace_id = ''t'', tc_parent_id = ''p''\<rparr>) 5 deploy_world = (Inr (), w') \<and>
     last_deploy (w_sched w') 5 7 = Some spec \<and> carries demo_env demo_entry spec"
proof -
  let ?d = "deploy demo_env (Inr \<lparr>tc_trace_id = ''t'', tc_parent_id = ''p''\<rparr>) 5 deploy_world"
  have "fst ?d = Inr ()" by code_simp
  then obtain w' where w': "?d = (Inr (), w')" by (metis prod.collapse)
  have es: "load_profile_for (w_catalog deploy_world) 5 = [demo_entry]"
    by (simp add: deploy_world_def load_profile_for_def mget_or_def mget_Cons)
  have "flat_entry demo_entry" "en_scenario_id demo_entry = 7" by (simp_all add: flat_entry_def demo_entry_def in_i64_def)
  then show ?thesis using deploy_conserves_load[OF w'] w' by (auto simp: es)
qed

end
