(* ===== verification/Lifecycle.thy ===== *)
theory Lifecycle
  imports Deployment
begin

text \<open>
  The second half of \<open>internal/app/lifecycleapp/service.go\<close>: starting and stopping runs, purging
  and reaping engines, closing stranded and abandoned runs, and the drain sweep of
  \<open>cmd/scheduler/main.go\<close>. The quota service stops executions through \<open>lifecycle_stop\<close>, and the
  lifecycle reserves through the quota service. \<open>le_metrics_wired\<close> and \<open>le_usage_wired\<close> tell
  whether the binary attached the metric service and the usage recorder, which otherwise do nothing.
\<close>

section \<open>Hooks\<close>

definition hook_finalize :: "lifecycle_env \<Rightarrow> int \<Rightarrow> int \<Rightarrow> unit app" where
  "hook_finalize env executionID runID = (if le_metrics_wired env then finalize_run executionID runID else ret ())"

definition hook_finalize_orphaned :: "lifecycle_env \<Rightarrow> int \<Rightarrow> int \<Rightarrow> orphan_completion list \<Rightarrow> unit app" where
  "hook_finalize_orphaned env executionID runID orphans =
     (if le_metrics_wired env then finalize_orphaned executionID runID orphans else ret ())"

definition hook_purge :: "lifecycle_env \<Rightarrow> int \<Rightarrow> unit app" where
  "hook_purge env executionID = (if le_metrics_wired env then modify (metrics_purge executionID) else ret ())"

definition record_start :: "lifecycle_env \<Rightarrow> int \<Rightarrow> string \<Rightarrow> int \<Rightarrow> int \<Rightarrow> unit app" where
  "record_start env executionID owner engines vu =
     (if le_usage_wired env then timed (\<lambda>now. in_runs (start_launch now executionID owner engines vu)) else ret ())"

definition record_finish :: "lifecycle_env \<Rightarrow> int \<Rightarrow> int \<Rightarrow> unit app" where
  "record_finish env executionID vu =
     (if le_usage_wired env then timed (\<lambda>now. in_runs (finish_launch now executionID vu)) else ret ())"

section \<open>Stopping\<close>

definition touch :: "int \<Rightarrow> unit app" where
  "touch executionID = timed (\<lambda>now. in_catalog (touch_activity now executionID))"

definition end_run :: "int \<Rightarrow> unit app" where
  "end_run executionID = timed (\<lambda>now. in_runs (stop_run now executionID))"

definition teardown :: "lifecycle_env \<Rightarrow> int \<Rightarrow> unit app" where
  "teardown env executionID =
     besteffort (touch executionID)
     (call (readst (\<lambda>w. load_profile_for (w_catalog w) executionID)) (\<lambda>es.
      call (foreach es (\<lambda>ep. in_runs (clear_scenario_running executionID (en_scenario_id ep)))) (\<lambda>_.
      besteffort (record_finish env executionID (virtual_users es))
      (besteffort (release executionID)
      (call (readst (\<lambda>w. current_run (w_runs w) executionID)) (\<lambda>cur.
       besteffort (case cur of Some runID \<Rightarrow> hook_finalize env executionID runID | None \<Rightarrow> ret ())
       (end_run executionID)))))))"

definition lifecycle_stop :: "lifecycle_env \<Rightarrow> int \<Rightarrow> unit app" where
  "lifecycle_stop env executionID =
     call (readst (\<lambda>w. current_run (w_runs w) executionID)) (\<lambda>cur.
     call (check (map_option ARun (can_stop (derive_phase 0 (cur \<noteq> None))))) (\<lambda>_.
     teardown env executionID))"

section \<open>Starting\<close>

definition ensure_test_files :: "entry list \<Rightarrow> unit app" where
  "ensure_test_files es = foreach es (\<lambda>ep.
     call (fetch (\<lambda>w. get_scenario (w_catalog w) (en_scenario_id ep))) (\<lambda>sc.
     if sc_kind sc \<noteq> KindNative then ret ()
     else call (readst (\<lambda>w. scenario_files_for (w_catalog w) (en_scenario_id ep))) (\<lambda>pf.
       if sf_test_file pf = '''' then fail (ANoTestFile (en_scenario_id ep)) else ret ())))"

text \<open>Every pod of a profile: scenario and shard index, in the order the loops visit them.\<close>

definition profile_shards :: "entry list \<Rightarrow> (int \<times> int) list" where
  "profile_shards es = concat (map (\<lambda>ep. map (Pair (en_scenario_id ep)) [0..en_engines ep - 1]) es)"

text \<open>The copies go to different keys, so the order of the goroutines does not matter.\<close>

definition snapshot_configs :: "int \<Rightarrow> entry list \<Rightarrow> unit app" where
  "snapshot_configs runID es = foreach (profile_shards es) (\<lambda>(scenarioID, shd).
     attempt (fetch (\<lambda>w. download (w_objects w) (deployed_config_key scenarioID shd))) (\<lambda>r. case r of
       Inl _ \<Rightarrow> ret ()
     | Inr raw \<Rightarrow> besteffort (in_objects (upload (run_config_key runID scenarioID shd) raw)) (ret ())))"

fun mark_running :: "int \<Rightarrow> entry list \<Rightarrow> app_err list \<Rightarrow> app_err list app" where
  "mark_running executionID [] errs = ret errs"
| "mark_running executionID (ep # es) errs =
     attempt (timed (\<lambda>now. in_runs (mark_scenario_running now executionID (en_scenario_id ep)))) (\<lambda>r.
     mark_running executionID es (case r of Inl e \<Rightarrow> errs @ [e] | Inr _ \<Rightarrow> errs))"

definition reserve_clusters :: "lifecycle_env \<Rightarrow> int \<Rightarrow> int \<Rightarrow> time \<Rightarrow> time \<Rightarrow> int \<Rightarrow> string list \<Rightarrow> unit app" where
  "reserve_clusters env tenantID engineUnits t_start t_end executionID cls = foreach cls (\<lambda>cluster.
     attempt (reserve (lifecycle_stop env) tenantID cluster engineUnits t_start t_end executionID) (\<lambda>r. case r of
       Inl e \<Rightarrow> besteffort (release executionID) (fail e)
     | Inr _ \<Rightarrow> ret ()))"

definition reserve_run :: "lifecycle_env \<Rightarrow> execution \<Rightarrow> int \<Rightarrow> entry list \<Rightarrow> unit app" where
  "reserve_run env exe executionID es =
     (case ex_tenant_id exe of None \<Rightarrow> ret ()
      | Some tenantID \<Rightarrow> (case engine_equivalents env (ex_cpu exe) (ex_memory exe) (total_engines es) of
          Inl e \<Rightarrow> fail e
        | Inr engineUnits \<Rightarrow> timed (\<lambda>t_start. reserve_clusters env tenantID engineUnits t_start
            (t_start + i64 (seconds (longest_duration_seconds es))) executionID (clusters exe))))"

definition after_marks :: "lifecycle_env \<Rightarrow> execution \<Rightarrow> int \<Rightarrow> entry list \<Rightarrow> app_err list \<Rightarrow> unit app" where
  "after_marks env exe executionID es errs =
     call (if length errs = length es then besteffort (end_run executionID) (ret ()) else ret ()) (\<lambda>_.
     if errs \<noteq> [] then fail (ATrigger errs)
     else call (readst (\<lambda>w. get_project (w_catalog w) (ex_project_id exe))) (\<lambda>proj. case proj of
            Inl _ \<Rightarrow> ret ()
          | Inr p \<Rightarrow> besteffort (record_start env executionID (pr_owner p) (fan_out_engines (total_engines es) exe) (virtual_users es)) (ret ())))"

definition start_reserved :: "lifecycle_env \<Rightarrow> execution \<Rightarrow> int \<Rightarrow> entry list \<Rightarrow> unit app" where
  "start_reserved env exe executionID es =
     call (fetch (\<lambda>w. pending_correlation_id (w_catalog w) executionID)) (\<lambda>correlationID.
     call (timed (\<lambda>now. in_runs (start_run now executionID correlationID))) (\<lambda>runID.
     besteffort (touch executionID)
     (besteffort (snapshot_configs runID es)
     (call (mark_running executionID es []) (after_marks env exe executionID es)))))"

text \<open>Everything \<open>Trigger\<close> checks before it reserves capacity.\<close>

definition trigger_checks :: "int \<Rightarrow> (execution \<times> entry list) app" where
  "trigger_checks executionID =
     call (fetch (\<lambda>w. get_execution (w_catalog w) executionID)) (\<lambda>exe.
     call (readst (\<lambda>w. is_frozen w (ex_project_id exe) executionID)) (\<lambda>frozen.
     case frozen of Some campaignName \<Rightarrow> fail (ACampaignFrozen campaignName)
     | None \<Rightarrow>
        call (readst (\<lambda>w. load_profile_for (w_catalog w) executionID)) (\<lambda>es.
        call (ensure_test_files es) (\<lambda>_.
        call (readst (\<lambda>w. current_run (w_runs w) executionID)) (\<lambda>cur.
        call (execution_status_across exe executionID (plan_refs es)) (\<lambda>st.
        call (if is_fan_out exe then require_every_cluster_ready exe executionID (plan_refs es) else ret ()) (\<lambda>_.
        call (check (map_option ARun (can_trigger (derive_phase (xs_pool_size st) (cur \<noteq> None)) es (xs_pool_size st)))) (\<lambda>_.
        call (readst (\<lambda>w. orphan_completions (w_runs w) executionID)) (\<lambda>orphans.
        if orphans \<noteq> [] then fail (AEnginesFinished (int (length orphans))) else ret (exe, es))))))))))"

definition trigger :: "lifecycle_env \<Rightarrow> int \<Rightarrow> unit app" where
  "trigger env executionID =
     call (trigger_checks executionID) (\<lambda>(exe, es).
     call (reserve_run env exe executionID es) (\<lambda>_. start_reserved env exe executionID es))"

section \<open>Purging\<close>

definition log_key :: "execution \<Rightarrow> int \<Rightarrow> int \<Rightarrow> int \<Rightarrow> string \<Rightarrow> string" where
  "log_key exe runID scenarioID shd cluster =
     (if is_fan_out exe then run_shard_cluster_key runID scenarioID shd cluster ''log'' else run_log_key runID scenarioID shd)"

definition capture_logs :: "int \<Rightarrow> int \<Rightarrow> unit app" where
  "capture_logs executionID runID =
     call (readst (\<lambda>w. get_execution (w_catalog w) executionID)) (\<lambda>r. case r of
       Inl _ \<Rightarrow> ret ()
     | Inr exe \<Rightarrow> call (readst (\<lambda>w. load_profile_for (w_catalog w) executionID)) (\<lambda>es.
         foreach (concat (map (\<lambda>cluster. map (Pair cluster) (profile_shards es)) (clusters exe))) (\<lambda>(cluster, scenarioID, shd).
           attempt (fetch (\<lambda>w. pod_log (w_sched w) cluster executionID scenarioID shd)) (\<lambda>r. case r of
             Inl _ \<Rightarrow> ret ()
           | Inr txt \<Rightarrow> besteffort (in_objects (upload (log_key exe runID scenarioID shd cluster) txt)) (ret ())))))"

definition teardown_and_capture :: "lifecycle_env \<Rightarrow> int \<Rightarrow> unit app" where
  "teardown_and_capture env executionID =
     call (readst (\<lambda>w. current_run (w_runs w) executionID)) (\<lambda>cur. case cur of
       Some runID \<Rightarrow> call (teardown env executionID) (\<lambda>_. capture_logs executionID runID)
     | None \<Rightarrow> call (readst (\<lambda>w. last_run (w_runs w) executionID)) (\<lambda>r. case r of
         Inl _ \<Rightarrow> ret ()
       | Inr rec \<Rightarrow> call (teardown env executionID) (\<lambda>_. capture_logs executionID (rr_run_id rec))))"

definition lifecycle_purge :: "lifecycle_env \<Rightarrow> int \<Rightarrow> unit app" where
  "lifecycle_purge env executionID =
     call (fetch (\<lambda>w. get_execution (w_catalog w) executionID)) (\<lambda>exe.
     call (teardown_and_capture env executionID) (\<lambda>_.
     call (foreach (clusters exe) (\<lambda>cluster. wrap_err (AFanOut cluster) (in_sched (purge_deployment cluster executionID)))) (\<lambda>_.
     hook_purge env executionID)))"

section \<open>Reaping idle engines\<close>

definition calibrating :: "world \<Rightarrow> int \<Rightarrow> bool" where
  "calibrating w executionID = list_ex (\<lambda>j. cj_phase j \<noteq> CalDone \<and> cj_phase j \<noteq> CalFailed)
     (list_calibration_jobs_by_execution (w_calibs w) executionID)"

definition reap_if_idle :: "lifecycle_env \<Rightarrow> int \<Rightarrow> string \<Rightarrow> time \<Rightarrow> time \<Rightarrow> int \<Rightarrow> bool app" where
  "reap_if_idle env executionID cluster deployedAt now ttl =
     call (readst (\<lambda>w. case last_activity (w_catalog w) executionID of None \<Rightarrow> deployedAt | Some t \<Rightarrow> t)) (\<lambda>last.
     if now - last < ttl then ret False
     else call (readst (\<lambda>w. current_run (w_runs w) executionID)) (\<lambda>cur.
          if cur \<noteq> None then ret False
          else call (readst (\<lambda>w. calibrating w executionID)) (\<lambda>cal.
               if cal then ret False
               else call (teardown_and_capture env executionID) (\<lambda>_.
                    call (in_sched (purge_deployment cluster executionID)) (\<lambda>_.
                    call (in_runs (clear_orphan_completions executionID)) (\<lambda>_. ret True))))))"

fun reap_deployed :: "lifecycle_env \<Rightarrow> string \<Rightarrow> time \<Rightarrow> int \<Rightarrow> (int \<times> time) list \<Rightarrow> int list \<times> int list \<times> app_err option
    \<Rightarrow> (int list \<times> int list \<times> app_err option) app" where
  "reap_deployed env cluster now ttl [] acc = ret acc"
| "reap_deployed env cluster now ttl ((executionID, deployedAt) # ds) (seen, reaped, err) =
     (if executionID \<in> set seen then reap_deployed env cluster now ttl ds (seen, reaped, err)
      else attempt (reap_if_idle env executionID cluster deployedAt now ttl) (\<lambda>r.
        reap_deployed env cluster now ttl ds (executionID # seen, (if r = Inr True then reaped @ [executionID] else reaped),
          (case r of Inl e \<Rightarrow> (if err = None then Some e else err) | Inr _ \<Rightarrow> err))))"

fun reap_clusters :: "lifecycle_env \<Rightarrow> time \<Rightarrow> int \<Rightarrow> string list \<Rightarrow> int list \<times> int list \<times> app_err option
    \<Rightarrow> (int list \<times> int list \<times> app_err option) app" where
  "reap_clusters env now ttl [] acc = ret acc"
| "reap_clusters env now ttl (cluster # cls) acc =
     call (readst (\<lambda>w. deployed_executions (w_sched w) cluster)) (\<lambda>deployed.
     call (reap_deployed env cluster now ttl deployed acc) (\<lambda>acc. reap_clusters env now ttl cls acc))"

definition reap_idle :: "lifecycle_env \<Rightarrow> int \<Rightarrow> string list \<Rightarrow> (int list \<times> app_err option) app" where
  "reap_idle env ttl cls =
     (if ttl \<le> 0 then ret ([], None)
      else timed (\<lambda>now. call (reap_clusters env now ttl cls ([], [], None)) (\<lambda>(seen, reaped, err). ret (sort reaped, err))))"

section \<open>Closing stranded and abandoned runs\<close>

definition orphans_cover_profile :: "orphan_completion list \<Rightarrow> entry list \<Rightarrow> bool" where
  "orphans_cover_profile orphans profile \<longleftrightarrow>
     list_all (\<lambda>k. k \<in> set (map (\<lambda>oc. (oc_scenario_id oc, oc_shard_index oc)) orphans)) (profile_shards profile) \<and> profile \<noteq> []"

definition reconcile_run :: "lifecycle_env \<Rightarrow> open_run \<Rightarrow> unit app" where
  "reconcile_run env orun =
     call (readst (\<lambda>w. orphan_completions (w_runs w) (or_execution_id orun))) (\<lambda>orphans.
     if orphans = [] then ret ()
     else call (readst (\<lambda>w. load_profile_for (w_catalog w) (or_execution_id orun))) (\<lambda>profile.
          if \<not> orphans_cover_profile orphans profile then ret ()
          else call (hook_finalize_orphaned env (or_execution_id orun) (or_run_id orun) orphans) (\<lambda>_.
               end_run (or_execution_id orun))))"

definition reconcile :: "lifecycle_env \<Rightarrow> unit app" where
  "reconcile env = call (readst (\<lambda>w. open_runs (w_runs w))) (\<lambda>opn. foreach opn (reconcile_run env))"

fun abandon_each :: "lifecycle_env \<Rightarrow> int \<Rightarrow> open_run list \<Rightarrow> open_run list \<Rightarrow> open_run list app" where
  "abandon_each env after [] ended = ret ended"
| "abandon_each env after (orun # opn) ended =
     call (readst (\<lambda>w. w_now w - or_started_time orun)) (\<lambda>age.
     if age < after then abandon_each env after opn ended
     else attempt (fetch (\<lambda>w. get_report (w_reports w) (or_run_id orun))) (\<lambda>rep. case rep of
       Inr _ \<Rightarrow> call (end_run (or_execution_id orun)) (\<lambda>_. abandon_each env after opn (ended @ [orun]))
     | Inl e \<Rightarrow>
        if e \<noteq> APort PortErrNotFound then fail e
        else attempt (fetch (\<lambda>w. get_execution (w_catalog w) (or_execution_id orun))) (\<lambda>r. case r of
          Inl e \<Rightarrow> if e = APort PortErrNotFound then abandon_each env after opn ended else fail e
        | Inr exe \<Rightarrow>
           call (readst (\<lambda>w. load_profile_for (w_catalog w) (or_execution_id orun))) (\<lambda>es.
           call (execution_status_across exe (or_execution_id orun) (plan_refs es)) (\<lambda>st.
           if 0 < xs_pool_size st then abandon_each env after opn ended
           else call (hook_finalize env (or_execution_id orun) (or_run_id orun)) (\<lambda>_.
                call (end_run (or_execution_id orun)) (\<lambda>_. abandon_each env after opn (ended @ [orun]))))))))"

definition reconcile_abandoned :: "lifecycle_env \<Rightarrow> int \<Rightarrow> open_run list app" where
  "reconcile_abandoned env after =
     (if after \<le> 0 then ret [] else call (readst (\<lambda>w. open_runs (w_runs w))) (\<lambda>opn. abandon_each env after opn []))"

section \<open>Draining for campaigns\<close>

definition drain_execution :: "lifecycle_env \<Rightarrow> int \<Rightarrow> unit app" where
  "drain_execution env executionID =
     call (readst (\<lambda>w. current_run (w_runs w) executionID)) (\<lambda>cur.
     if cur = None then ret () else besteffort (lifecycle_stop env executionID) (ret ()))"

definition drain_campaign :: "lifecycle_env \<Rightarrow> campaign \<Rightarrow> unit app" where
  "drain_campaign env c =
     call (readst (\<lambda>w. in_scope_executions w (cp_id c))) (\<lambda>r. case r of Inl _ \<Rightarrow> ret ()
     | Inr inScope \<Rightarrow> foreach inScope (drain_execution env))"

definition drain_once :: "lifecycle_env \<Rightarrow> unit app" where
  "drain_once env = call (readst active_campaigns) (\<lambda>active. foreach active (drain_campaign env))"

definition resume :: "world \<Rightarrow> running_scenario list" where
  "resume w = running_scenarios (w_runs w)"

definition run_execution_id :: "world \<Rightarrow> int \<Rightarrow> port_err + int" where
  "run_execution_id w runID = map_sum id rr_execution_id (run_history (w_runs w) runID)"

end
