(* ===== verification/Lifecycle_Frame.thy ===== *)
theory Lifecycle_Frame
  imports Lifecycle
begin

text \<open>
  What the operations of the lifecycle service leave alone. An invariant that survives the store
  operations a teardown makes survives the teardown, and with it everything that ends runs:
  stopping, reclaiming, draining. The interpretations are the invariants the properties rest on;
  the stop operation is shown to be what the quota service expects of it.
\<close>

section \<open>Invariants that survive the end of a run\<close>

text \<open>Every element of a loop succeeds, so the loop does.\<close>

lemma foreach_total: "(\<And>x s. x \<in> set xs \<Longrightarrow> fst (f x s) = Inr ()) \<Longrightarrow> fst (foreach xs f s) = Inr ()"
proof (induction xs arbitrary: s)
  case (Cons x xs)
  obtain s' where "f x s = (Inr (), s')" using Cons.prems[of x s] by (cases "f x s") auto
  then show ?case using Cons by (simp add: call_def)
qed (simp add: ret_def)

text \<open>An invariant that survives finalising the runs of the executions in \<open>P\<close>.\<close>

locale finalize_invariant =
  fixes I :: "world \<Rightarrow> bool" and P :: "int \<Rightarrow> bool"
  assumes saved: "I w \<Longrightarrow> run_history (w_runs w) (rp_run_id rep) = Inr h \<Longrightarrow> I (w\<lparr>w_reports := snd (save_report rep (w_reports w))\<rparr>)"
    and announced: "I w \<Longrightarrow> I (w\<lparr>w_notified := n\<rparr>)"
    and graded: "I w \<Longrightarrow> I (w\<lparr>w_thresholds := snd (save_threshold_results t rs (w_thresholds w))\<rparr>)"
    and discarded: "I w \<Longrightarrow> I (w\<lparr>w_progress := snd (discard r (w_progress w))\<rparr>)"
    and touched: "P e \<Longrightarrow> I w \<Longrightarrow> I (w\<lparr>w_catalog := snd (touch_activity t e (w_catalog w))\<rparr>)"
    and stopped: "P e \<Longrightarrow> I w \<Longrightarrow> I (w\<lparr>w_runs := snd (stop_run t e (w_runs w))\<rparr>)"
begin

lemma keeps_touch: "P e \<Longrightarrow> keeps I (touch e)"
  by (simp add: keeps_def touch_def timed_def touched)

lemma keeps_end_run: "P e \<Longrightarrow> keeps I (end_run e)"
  by (simp add: keeps_def end_run_def timed_def stopped)

lemma keeps_close_run: "P e \<Longrightarrow> keeps I (close_run e r)"
  by (simp add: close_run_def keeps_def ret_def timed_def stopped)

lemma keeps_evaluate_run: "keeps I (evaluate_run rep)"
  unfolding evaluate_run_def by (intro keeps_rules) (simp add: keeps_def graded)

text \<open>What follows the saving of the report; the report itself is one of a run that is on record.\<close>

lemma keeps_finalize: "P e \<Longrightarrow> keeps I (finalize e r outc)"
proof (rule keepsI)
  fix w assume P: "P e" and I: "I w"
  show "I (snd (finalize e r outc w))"
  proof (cases "\<exists>h exe. run_history (w_runs w) r = Inr h \<and> get_execution (w_catalog w) e = Inr exe")
    case True
    then obtain h exe where h: "run_history (w_runs w) r = Inr h" "get_execution (w_catalog w) e = Inr exe" by blast
    define rep where "rep = run_report w e r outc (load_profile_for (w_catalog w) e) h exe"
    define rest where "rest = (\<lambda>_ :: unit. call (if case get_report (w_reports w) r of Inr _ \<Rightarrow> True | Inl _ \<Rightarrow> False then ret ()
           else call (modify (\<lambda>w. w\<lparr>w_notified := w_notified w @ [(ex_project_id exe, rep)]\<rparr>)) (\<lambda>_. evaluate_run rep)) (\<lambda>_.
       call (in_progress (discard r)) (\<lambda>_.
       besteffort (timed (\<lambda>now. in_catalog (touch_activity now e)) :: unit app) (close_run e r))))"
    have "keeps I (rest x)" for x unfolding rest_def using P
      by (intro keeps_rules keeps_evaluate_run keeps_close_run)
         (auto intro!: keepsI simp: announced discarded touched modify_def timed_def)
    moreover have "I (snd (store_report rep w))" using saved[OF I, of rep h] h(1) by (simp add: store_report_eq rep_def)
    moreover have "finalize e r outc w = call (store_report rep) rest w"
      unfolding rest_def rep_def by (simp add: finalize_def call_fetch h)
    ultimately show ?thesis by (cases "store_report rep w") (auto simp: call_def keeps_def split: sum.split)
  next
    case False
    then have "snd (finalize e r outc w) = w" by (auto simp: finalize_def call_fetch split: sum.split)
    then show ?thesis using I by simp
  qed
qed

lemma keeps_finalize_hooks:
  "P e \<Longrightarrow> keeps I (hook_finalize env e r)" "P e \<Longrightarrow> keeps I (hook_finalize_orphaned env e r os)"
  unfolding hook_finalize_def hook_finalize_orphaned_def finalize_run_def finalize_orphaned_def
  by (intro keeps_rules keeps_finalize; assumption)+

end

text \<open>One that survives ending them.\<close>

locale run_end_invariant = finalize_invariant +
  assumes cleared: "P e \<Longrightarrow> I w \<Longrightarrow> I (w\<lparr>w_runs := snd (clear_scenario_running e sid (w_runs w))\<rparr>)"
    and finished: "P e \<Longrightarrow> I w \<Longrightarrow> I (w\<lparr>w_runs := snd (finish_launch t e vu (w_runs w))\<rparr>)"
    and released: "P e \<Longrightarrow> I w \<Longrightarrow> I (w\<lparr>w_ledger := snd (release_reservations_for_execution e (w_ledger w))\<rparr>)"
begin

lemma keeps_teardown: "P e \<Longrightarrow> keeps I (teardown env e)"
  unfolding teardown_def record_finish_def release_def
  by (intro keeps_rules keeps_touch keeps_end_run keeps_finalize_hooks; (assumption | simp add: keeps_def cleared finished released))

lemma keeps_stop: "P e \<Longrightarrow> keeps I (lifecycle_stop env e)"
  unfolding lifecycle_stop_def by (intro keeps_rules keeps_teardown)

lemma keeps_reclaim: "(\<And>r. r \<in> set rs \<Longrightarrow> P (rv_execution_id r)) \<Longrightarrow> keeps I (reclaim_loop (lifecycle_stop env) rs needed freed)"
  by (induction rs arbitrary: freed) (auto intro!: keeps_rules keeps_stop)

text \<open>A reservation stops executions that overran, and only then books.\<close>

lemma reserve_reaches:
  assumes "I w" "\<And>r. r \<in> set (overrun_reservations w tid cl) \<Longrightarrow> P (rv_execution_id r)"
    "reserve (lifecycle_stop env) tid cl n ts te e w = (res, w')"
  defines "r0 \<equiv> \<lparr>rv_id = 0, rv_tenant_id = tid, rv_cluster = cl, rv_engine_count = n, rv_start = ts, rv_end = te, rv_execution_id = e\<rparr>"
  shows "\<exists>w1. I w1 \<and> (case res of Inl _ \<Rightarrow> w' = w1
     | Inr r \<Rightarrow> r = r0\<lparr>rv_id := lg_seq (w_ledger w1) + 1\<rparr> \<and> w' = w1\<lparr>w_ledger := snd (create_reservation r0 (w_ledger w1))\<rparr> \<and>
         reservation_validate r0 = None)"
proof (cases "reservation_validate r0")
  case (Some v)
  then show ?thesis using assms(1,3) unfolding reserve_def Let_def r0_def
    by (intro exI[of _ w]) (auto simp: check_def call_def fail_def)
next
  case None
  obtain used over where used: "used_capacity w tid cl ts te = (used, over)" by (cases "used_capacity w tid cl ts te")
  then have over: "over = overrun_reservations w tid cl" by (auto simp: used_capacity_def Let_def)
  let ?ceil = "quota_ceiling (w_ledger w) tid cl"
  obtain fr w1 where fr: "(if ?ceil < i64 (used + n) \<and> \<not> w_now w < ts
      then reclaim_overrun (lifecycle_stop env) over (i64 (i64 (used + n) - ?ceil)) else ret 0) w = (fr, w1)" by fastforce
  have "keeps I (if ?ceil < i64 (used + n) \<and> \<not> w_now w < ts
      then reclaim_overrun (lifecycle_stop env) over (i64 (i64 (used + n) - ?ceil)) else ret 0)"
    unfolding reclaim_overrun_def using assms(2) by (intro keeps_rules keeps_reclaim) (simp add: over)
  from keepsD[OF this assms(1) fr] have I1: "I w1" .
  note run = reserve_eval[OF None[unfolded r0_def] used refl fr, folded r0_def]
  show ?thesis
  proof (cases fr)
    case (Inl err)
    then show ?thesis using run I1 assms(3) by (intro exI[of _ w1]) simp
  next
    case (Inr f)
    then show ?thesis using run I1 assms(3) None by (intro exI[of _ w1]) (auto split: if_splits)
  qed
qed

end

text \<open>One that survives removing their engines as well.\<close>

locale engine_invariant = run_end_invariant +
  assumes uploaded: "I w \<Longrightarrow> I (w\<lparr>w_objects := snd (upload k d (w_objects w))\<rparr>)"
    and purged: "P e \<Longrightarrow> I w \<Longrightarrow> I (w\<lparr>w_sched := snd (purge_deployment cl e (w_sched w))\<rparr>)"
    and forgotten: "P e \<Longrightarrow> I w \<Longrightarrow> I (w\<lparr>w_runs := snd (clear_orphan_completions e (w_runs w))\<rparr>)"
begin

lemma keeps_capture: "keeps I (capture_logs e r)"
  unfolding capture_logs_def case_prod_unfold by (intro keeps_rules) (simp add: keeps_def uploaded)

lemma keeps_teardown_and_capture: "P e \<Longrightarrow> keeps I (teardown_and_capture env e)"
  unfolding teardown_and_capture_def by (intro keeps_rules keeps_teardown keeps_capture)

lemma keeps_reap: "P e \<Longrightarrow> keeps I (reap_if_idle env e cl t now ttl)"
  unfolding reap_if_idle_def
  by (intro keeps_rules keeps_teardown_and_capture) (simp_all add: keeps_def purged forgotten)

end

section \<open>What a teardown does\<close>

text \<open>
  The stations of a teardown: the state when the finalisation starts, and the state when the marker
  is removed. It never fails.
\<close>

definition teardown_clear :: "lifecycle_env \<Rightarrow> int \<Rightarrow> world \<Rightarrow> world" where
  "teardown_clear env e w =
     (let es = load_profile_for (w_catalog w) e
      in snd (release e (snd (record_finish env e (virtual_users es)
           (snd (foreach es (\<lambda>ep. in_runs (clear_scenario_running e (en_scenario_id ep))) (snd (touch e w))))))))"

definition teardown_final :: "lifecycle_env \<Rightarrow> int \<Rightarrow> world \<Rightarrow> world" where
  "teardown_final env e w =
     (let w1 = teardown_clear env e w
      in snd ((case current_run (w_runs w1) e of Some r \<Rightarrow> hook_finalize env e r | None \<Rightarrow> ret ()) w1))"

lemma clear_all_total: "fst (foreach es (\<lambda>ep. in_runs (clear_scenario_running e (en_scenario_id ep))) w) = Inr ()"
  by (rule foreach_total) (simp add: store_op_eq clear_scenario_running_def Let_def)

lemma end_run_eq: "end_run e w = (Inr (), w\<lparr>w_runs := snd (stop_run (w_now w) e (w_runs w))\<rparr>)"
  by (simp add: end_run_def timed_def store_op_eq stop_run_def split: option.split)

lemma touch_profile [simp]: "load_profile_for (snd (touch_activity t e c)) e' = load_profile_for c e'"
  by (simp add: touch_activity_def load_profile_for_def)

lemma teardown_eq: "teardown env e w = end_run e (teardown_final env e w)"
proof -
  let ?es = "load_profile_for (w_catalog w) e" and ?w1 = "snd (touch e w)"
  let ?all = "foreach ?es (\<lambda>ep. in_runs (clear_scenario_running e (en_scenario_id ep)))"
  have es: "load_profile_for (w_catalog ?w1) e = ?es" by (simp add: touch_def timed_def)
  have "?all ?w1 = (Inr (), snd (?all ?w1))" using clear_all_total[of ?es e ?w1] by (metis prod.collapse)
  then show ?thesis
    by (simp add: teardown_def teardown_final_def teardown_clear_def besteffort_def es Let_def
        call_Inr[where m = ?all and s = ?w1 and x = "()" and s' = "snd (?all ?w1)"])
qed

lemma teardown_total: "fst (teardown env e w) = Inr ()"
  by (simp add: teardown_eq end_run_eq)

lemma stop_eq:
  "lifecycle_stop env e w = (if current_run (w_runs w) e = None then (Inl (ARun RunErrNotRunning), w) else teardown env e w)"
  by (simp add: lifecycle_stop_def can_stop_def derive_phase_def fail_def)

section \<open>The stop operation as the quota service uses it\<close>

interpretation sl: run_end_invariant "\<lambda>w. sub_ledger L (w_ledger w)" "\<lambda>_. True" for L
  by unfold_locales (auto intro: sub_ledger_trans release_sub_ledger)

interpretation om: run_end_invariant "\<lambda>w. current_run (w_runs w) e' = cur" "\<lambda>e. e \<noteq> e'" for e' cur
  by unfold_locales (simp_all add: stop_run_def clear_scenario_running_def finish_launch_def current_run_def Let_def split: option.split)

interpretation ls: effective_stopper "lifecycle_stop env" "\<lambda>e w. current_run (w_runs w) e \<noteq> None" "ARun RunErrNotRunning" for env
proof
  show "sub_ledger (w_ledger w) (w_ledger (snd (lifecycle_stop env e w)))" for w e
    using sl.keeps_stop[of "w_ledger w" env e] by (simp add: keeps_def)
  show "fst (lifecycle_stop env e w) = Inr ()" if "current_run (w_runs w) e \<noteq> None" for e w
    using that by (simp add: stop_eq teardown_total)
  show "current_run (w_runs (snd (lifecycle_stop env e w))) e' \<noteq> None" if "e' \<noteq> e" "current_run (w_runs w) e' \<noteq> None" for e e' w
    using om.keeps_stop[of e e' "current_run (w_runs w) e'" env] that by (auto simp: keeps_def)
  show "err = ARun RunErrNotRunning" if "fst (lifecycle_stop env e w) = Inl err" for e w err
    using that teardown_total[of env e w] by (auto simp: stop_eq split: if_splits)
qed simp

end
