(* ===== verification/Lifecycle_Safety.thy ===== *)
theory Lifecycle_Safety
  imports Lifecycle_Frame
begin

text \<open>
  The properties of the lifecycle service: what starting, stopping, purging, reaping, reconciling
  and draining guarantee, and the tenants' ceilings across them.
\<close>

section \<open>Starting a run\<close>

text \<open>The checks read only; the scheduler's status call may advance the scheduler.\<close>

definition only_sched :: "world \<Rightarrow> world \<Rightarrow> bool" where
  "only_sched w v \<longleftrightarrow> (\<exists>s. v = w\<lparr>w_sched := s\<rparr>)"

lemma only_sched_refl [simp]: "only_sched w w"
  by (auto simp: only_sched_def intro: exI[of _ "w_sched w"])

lemma keeps_in_sched [keeps_rules]: "keeps (only_sched w) (in_sched m)"
  by (auto simp: keeps_def only_sched_def)

lemma keeps_ensure_test_files: "keeps I (ensure_test_files es)"
  unfolding ensure_test_files_def by (intro keeps_rules)

lemma keeps_sum_status: "keeps (only_sched w) (sum_status cls e refs p d r)"
  by (induction cls arbitrary: p d r) (auto intro!: keeps_rules)

lemma keeps_status_across: "keeps (only_sched w) (execution_status_across exe e refs)"
  unfolding execution_status_across_def
  by (cases "clusters exe" rule: remdups_adj.cases) (auto intro!: keeps_rules keeps_sum_status)

lemma keeps_every_cluster: "keeps (only_sched w) (require_every_cluster_ready exe e refs)"
  unfolding require_every_cluster_ready_def by (intro keeps_rules)

lemma keeps_trigger_checks: "keeps (only_sched w) (trigger_checks e)"
  unfolding trigger_checks_def
  by (intro keeps_rules keeps_ensure_test_files keeps_status_across keeps_every_cluster)

lemma can_trigger_None: "can_trigger (derive_phase p r) es n = None \<longleftrightarrow> es \<noteq> [] \<and> \<not> r \<and> 0 < p \<and> total_engines es \<le> n"
  by (auto simp: can_trigger_def derive_phase_def split: phase.splits if_splits)

lemma only_sched_fields:
  assumes "only_sched w v"
  shows "w_now v = w_now w" "w_catalog v = w_catalog w" "w_runs v = w_runs w" "w_ledger v = w_ledger w" "w_campaigns v = w_campaigns w"
    "w_objects v = w_objects w" "w_reports v = w_reports w" "w_progress v = w_progress w" "w_calibs v = w_calibs w"
    "w_thresholds v = w_thresholds w"
  using assms by (auto simp: only_sched_def)

lemma trigger_checks_InrD:
  assumes "trigger_checks e w = (Inr (exe, es), v)"
  obtains st w1 w2 where "get_execution (w_catalog w) e = Inr exe" "is_frozen w (ex_project_id exe) e = None"
    "es = load_profile_for (w_catalog w) e" "current_run (w_runs w) e = None" "orphan_completions (w_runs w) e = []"
    "only_sched w v" "es \<noteq> []" "execution_status_across exe e (plan_refs es) w = (Inr st, w1)" "0 < xs_pool_size st"
    "total_engines es \<le> xs_pool_size st"
    "(if is_fan_out exe then require_every_cluster_ready exe e (plan_refs es) else ret ()) w1 = (Inr (), w2)"
proof -
  have sched: "only_sched w v" using keepsD[OF keeps_trigger_checks _ assms] by simp
  obtain exe' where exe: "get_execution (w_catalog w) e = Inr exe'" using assms
    by (auto simp: trigger_checks_def call_fetch split: sum.splits)
  have frozen: "is_frozen w (ex_project_id exe') e = None" using assms exe
    by (auto simp: trigger_checks_def call_fetch fail_def split: option.splits)
  let ?es = "load_profile_for (w_catalog w) e"
  have "call (ensure_test_files ?es) (\<lambda>_. call (readst (\<lambda>w. current_run (w_runs w) e)) (\<lambda>cur.
        call (execution_status_across exe' e (plan_refs ?es)) (\<lambda>st.
        call (if is_fan_out exe' then require_every_cluster_ready exe' e (plan_refs ?es) else ret ()) (\<lambda>_.
        call (check (map_option ARun (can_trigger (derive_phase (xs_pool_size st) (cur \<noteq> None)) ?es (xs_pool_size st)))) (\<lambda>_.
        call (readst (\<lambda>w. orphan_completions (w_runs w) e)) (\<lambda>orphans.
        if orphans \<noteq> [] then fail (AEnginesFinished (int (length orphans))) else ret (exe', ?es))))))) w = (Inr (exe, es), v)"
    using assms exe frozen by (simp add: trigger_checks_def call_fetch)
  then obtain w0 where "ensure_test_files ?es w = (Inr (), w0)" and step:
     "call (readst (\<lambda>w. current_run (w_runs w) e)) (\<lambda>cur.
        call (execution_status_across exe' e (plan_refs ?es)) (\<lambda>st.
        call (if is_fan_out exe' then require_every_cluster_ready exe' e (plan_refs ?es) else ret ()) (\<lambda>_.
        call (check (map_option ARun (can_trigger (derive_phase (xs_pool_size st) (cur \<noteq> None)) ?es (xs_pool_size st)))) (\<lambda>_.
        call (readst (\<lambda>w. orphan_completions (w_runs w) e)) (\<lambda>orphans.
        if orphans \<noteq> [] then fail (AEnginesFinished (int (length orphans))) else ret (exe', ?es)))))) w0 = (Inr (exe, es), v)"
    by (rule call_unitE)
  then have w0: "w0 = w" using keepsD[OF keeps_ensure_test_files[of "\<lambda>v. v = w"]] by blast
  from step obtain st w1 where st: "execution_status_across exe' e (plan_refs ?es) w = (Inr st, w1)" and step:
     "call (if is_fan_out exe' then require_every_cluster_ready exe' e (plan_refs ?es) else ret ()) (\<lambda>_.
        call (check (map_option ARun (can_trigger (derive_phase (xs_pool_size st) (current_run (w_runs w) e \<noteq> None)) ?es (xs_pool_size st)))) (\<lambda>_.
        call (readst (\<lambda>w. orphan_completions (w_runs w) e)) (\<lambda>orphans.
        if orphans \<noteq> [] then fail (AEnginesFinished (int (length orphans))) else ret (exe', ?es)))) w1 = (Inr (exe, es), v)"
    unfolding w0 call_readst by (rule call_InrE)
  from step obtain w2 where w2: "(if is_fan_out exe' then require_every_cluster_ready exe' e (plan_refs ?es) else ret ()) w1 = (Inr (), w2)" and step:
     "call (check (map_option ARun (can_trigger (derive_phase (xs_pool_size st) (current_run (w_runs w) e \<noteq> None)) ?es (xs_pool_size st)))) (\<lambda>_.
        call (readst (\<lambda>w. orphan_completions (w_runs w) e)) (\<lambda>orphans.
        if orphans \<noteq> [] then fail (AEnginesFinished (int (length orphans))) else ret (exe', ?es))) w2 = (Inr (exe, es), v)"
    by (rule call_unitE)
  have can: "can_trigger (derive_phase (xs_pool_size st) (current_run (w_runs w) e \<noteq> None)) ?es (xs_pool_size st) = None"
    using step by (cases "can_trigger (derive_phase (xs_pool_size st) (current_run (w_runs w) e \<noteq> None)) ?es (xs_pool_size st)") (auto simp: fail_def)
  with step have eqs: "w2 = v" "exe' = exe" "?es = es" and "orphan_completions (w_runs v) e = []" by (auto simp: fail_def ret_def split: if_splits)
  then show ?thesis using exe frozen st w2 can sched unfolding can_trigger_None eqs
    by (intro that[of st w1 v]) (simp_all add: only_sched_fields eqs(3))
qed

section \<open>The ceilings across a trigger\<close>

definition ledger_within :: "ledger \<Rightarrow> bool" where
  "ledger_within s \<longleftrightarrow> ledger_ok s \<and> (\<forall>tid cl. within_ceiling s tid cl)"

lemma ledger_within_sub: "sub_ledger s s' \<Longrightarrow> ledger_within s \<Longrightarrow> ledger_within s'"
  unfolding ledger_within_def using sub_ledger_ok sub_ledger_within by blast

lemma create_engines:
  assumes "ledger_ok s"
  shows "engines_of (mvals (lg_reservations (snd (create_reservation r s)))) = engines_of (mvals (lg_reservations s)) + rv_engine_count r"
  unfolding create_reservation_eq[OF assms] by (simp add: mvals_def engines_of_def)

lemma reserve_small:
  assumes "ledger_ok (w_ledger w)" "ledger_small (w_ledger w) n" "reserve (lifecycle_stop env) tid cl n ts te e w = (Inr r, w')"
  shows "engines_of (mvals (lg_reservations (w_ledger w'))) \<le> engines_of (mvals (lg_reservations (w_ledger w))) + n \<and> 0 < n"
  using ls.reserve_effect[OF assms]
proof (elim disjE exE conjE)
  fix w1
  let ?r = "\<lparr>rv_id = 0, rv_tenant_id = tid, rv_cluster = cl, rv_engine_count = n, rv_start = ts, rv_end = te, rv_execution_id = e\<rparr>"
  assume sub: "sub_ledger (w_ledger w) (w_ledger w1)" and v: "reservation_validate ?r = None"
    and w': "w' = w1\<lparr>w_ledger := snd (create_reservation ?r (w_ledger w1))\<rparr>"
  show ?thesis using sub_ledger_engines[OF sub assms(1), of "\<lambda>_. True"] create_engines[OF sub_ledger_ok[OF sub assms(1)], of ?r] v
    by (simp add: w' validate_None)
qed simp

lemma reserve_clusters_within:
  assumes "ledger_within (w_ledger w)" "ledger_small (w_ledger w) ((2 * int (length cls) + 1) * n)"
  shows "ledger_within (w_ledger (snd (reserve_clusters env tid n ts te e cls w)))"
  using assms
proof (induction cls arbitrary: w)
  case Nil
  then show ?case by (simp add: reserve_clusters_def ret_def)
next
  case (Cons cl cls)
  let ?rsv = "reserve (lifecycle_stop env) tid cl n ts te e"
  have abs: "\<bar>(2 * int (length (cl # cls)) + 1) * n\<bar> = (2 * int (length cls) + 3) * \<bar>n\<bar>" by (simp add: abs_mult)
  have small: "ledger_small (w_ledger w) n"
  proof -
    have "\<bar>n\<bar> \<le> (2 * int (length cls) + 3) * \<bar>n\<bar>" by (simp add: mult_le_cancel_right1)
    then show ?thesis using Cons.prems(2) abs unfolding ledger_small_def by linarith
  qed
  obtain r w1 where r: "?rsv w = (r, w1)" by (cases "?rsv w")
  have within: "ledger_within (w_ledger w1)" using ls.reserve_within[OF _ small _ r] Cons.prems(1) by (simp add: ledger_within_def)
  show ?case
  proof (cases r)
    case (Inl err)
    then have "snd (reserve_clusters env tid n ts te e (cl # cls) w) = snd (release e w1)"
      using r by (simp add: reserve_clusters_def call_def attempt_def besteffort_def fail_def)
    then show ?thesis using ledger_within_sub[OF release_sub_ledger within] by (simp add: release_def)
  next
    case (Inr rv)
    then have "reserve_clusters env tid n ts te e (cl # cls) w = reserve_clusters env tid n ts te e cls w1"
      using r by (simp add: reserve_clusters_def call_def attempt_def ret_def)
    moreover have "ledger_small (w_ledger w1) ((2 * int (length cls) + 1) * n)"
    proof -
      have ok: "ledger_ok (w_ledger w)" using Cons.prems(1) by (simp add: ledger_within_def)
      have "0 < n" "engines_of (mvals (lg_reservations (w_ledger w1))) \<le> engines_of (mvals (lg_reservations (w_ledger w))) + n"
        using reserve_small[OF ok small r[unfolded Inr]] by auto
      then show ?thesis using Cons.prems(2) abs unfolding ledger_small_def by (simp add: abs_mult algebra_simps)
    qed
    ultimately show ?thesis using Cons.IH within by simp
  qed
qed

lemma keeps_mark_running: "keeps (\<lambda>v. w_ledger v = L) (mark_running e es errs)"
  by (induction es arbitrary: errs) (auto intro!: keeps_rules simp: keeps_def[of _ "in_runs _"])

lemma start_reserved_ledger: "keeps (\<lambda>v. w_ledger v = L) (start_reserved env exe e es)"
  unfolding start_reserved_def after_marks_def snapshot_configs_def touch_def end_run_def record_start_def case_prod_unfold
  by (intro keeps_rules keeps_mark_running) (auto simp: keeps_def intro!: keeps_rules)

text \<open>
  C7. No trigger takes a tenant over its ceiling: if at no instant any tenant's reservations on any
  cluster exceeded their ceiling before, they do not after, whether the trigger succeeds or not and
  whatever executions it stopped to make room.
\<close>

theorem trigger_within_ceiling:
  assumes "ledger_within (w_ledger w)"
    "\<forall>exe n. get_execution (w_catalog w) e = Inr exe \<and>
       engine_equivalents env (ex_cpu exe) (ex_memory exe) (total_engines (load_profile_for (w_catalog w) e)) = Inr n
       \<longrightarrow> ledger_small (w_ledger w) ((2 * int (length (clusters exe)) + 1) * n)"
  shows "ledger_within (w_ledger (snd (trigger env e w)))"
proof (cases "trigger_checks e w")
  case (Pair r v)
  have sched: "only_sched w v" using keepsD[OF keeps_trigger_checks _ Pair] by simp
  show ?thesis
  proof (cases r)
    case (Inl err)
    then show ?thesis using Pair sched assms(1) by (simp add: trigger_def call_def only_sched_fields)
  next
    case (Inr p)
    obtain exe es where p: "p = (exe, es)" by (cases p)
    have checked: "get_execution (w_catalog w) e = Inr exe" "es = load_profile_for (w_catalog w) e"
      using Pair[unfolded Inr p] by (auto elim: trigger_checks_InrD)
    have run: "trigger env e w = call (reserve_run env exe e es) (\<lambda>_. start_reserved env exe e es) v"
      using Pair Inr p by (simp add: trigger_def call_def)
    have "ledger_within (w_ledger (snd (reserve_run env exe e es v)))"
    proof (cases "ex_tenant_id exe")
      case None
      then show ?thesis using sched assms(1) by (simp add: reserve_run_def ret_def only_sched_fields)
    next
      case (Some tid)
      then show ?thesis using sched assms checked
        by (auto simp: reserve_run_def fail_def timed_def only_sched_fields split: sum.split intro!: reserve_clusters_within)
    qed
    then show ?thesis unfolding run call_def using start_reserved_ledger[of _ env exe e es]
      by (auto simp: keeps_def split: prod.split sum.split)
  qed
qed

end
