(* ===== verification/Lifecycle_Stop.thy ===== *)
theory Lifecycle_Stop
  imports Lifecycle_Safety
begin

text \<open>What stopping a run does, and the capacity it gives back.\<close>

section \<open>The clearing half of a teardown\<close>

definition scenario_running :: "world \<Rightarrow> int \<Rightarrow> int \<Rightarrow> bool" where
  "scenario_running w e sid \<longleftrightarrow> mget (mget_or [] (rs_running (w_runs w)) e) sid \<noteq> None"

lemma clear_running:
  "mget_or [] (rs_running (snd (clear_scenario_running e sid s))) e' =
     (if e' = e then mdel sid (mget_or [] (rs_running s) e) else mget_or [] (rs_running s) e')"
  by (simp add: clear_scenario_running_def Let_def mget_or_def)

lemma clear_all_running:
  "scenario_running (snd (foreach es (\<lambda>ep. in_runs (clear_scenario_running e (en_scenario_id ep))) w)) e' sid
     \<longleftrightarrow> scenario_running w e' sid \<and> \<not> (e' = e \<and> sid \<in> en_scenario_id ` set es)"
proof (induction es arbitrary: w)
  case (Cons ep es)
  let ?w1 = "w\<lparr>w_runs := snd (clear_scenario_running e (en_scenario_id ep) (w_runs w))\<rparr>"
  have "in_runs (clear_scenario_running e (en_scenario_id ep)) w = (Inr (), ?w1)"
    by (simp add: store_op_eq clear_scenario_running_def Let_def)
  then show ?case using Cons.IH[of ?w1] by (auto simp: call_def scenario_running_def clear_running)
qed (simp add: ret_def)

text \<open>What the clearing leaves alone of the run store, and what of the world.\<close>

lemma clear_all_only:
  "keeps (\<lambda>v. \<exists>r. v = w\<lparr>w_runs := (w_runs w)\<lparr>rs_running := r\<rparr>\<rparr>) (foreach es (\<lambda>ep. in_runs (clear_scenario_running e (en_scenario_id ep))))"
  by (intro keeps_rules) (auto simp: keeps_def clear_scenario_running_def Let_def)

lemma teardown_clear_eq:
  "\<exists>r. teardown_clear env e w = w\<lparr>w_catalog := snd (touch_activity (w_now w) e (w_catalog w)),
     w_runs := (let s = (w_runs w)\<lparr>rs_running := r\<rparr> in
       if le_usage_wired env then snd (finish_launch (w_now w) e (virtual_users (load_profile_for (w_catalog w) e)) s) else s),
     w_ledger := snd (release_reservations_for_execution e (w_ledger w))\<rparr> \<and>
     (\<forall>e' sid. mget (mget_or [] r e') sid \<noteq> None \<longleftrightarrow>
        scenario_running w e' sid \<and> \<not> (e' = e \<and> sid \<in> en_scenario_id ` set (load_profile_for (w_catalog w) e)))"
proof -
  let ?es = "load_profile_for (w_catalog w) e"
  let ?w1 = "w\<lparr>w_catalog := snd (touch_activity (w_now w) e (w_catalog w))\<rparr>"
  let ?w2 = "snd (foreach ?es (\<lambda>ep. in_runs (clear_scenario_running e (en_scenario_id ep))) ?w1)"
  have t: "snd (touch e w) = ?w1" by (simp add: touch_def timed_def)
  have "\<exists>r. ?w2 = ?w1\<lparr>w_runs := (w_runs ?w1)\<lparr>rs_running := r\<rparr>\<rparr>"
    using clear_all_only[of ?w1 ?es e] unfolding keeps_def by (rule allE[of _ ?w1]) (auto intro: exI[of _ "rs_running (w_runs w)"])
  then obtain r where r: "?w2 = ?w1\<lparr>w_runs := (w_runs w)\<lparr>rs_running := r\<rparr>\<rparr>" by auto
  have "mget (mget_or [] r e') sid \<noteq> None \<longleftrightarrow> scenario_running w e' sid \<and> \<not> (e' = e \<and> sid \<in> en_scenario_id ` set ?es)" for e' sid
    using clear_all_running[of ?es e ?w1 e' sid] unfolding r by (simp add: scenario_running_def)
  then show ?thesis
    by (intro exI[of _ r]) (simp add: teardown_clear_def Let_def t r record_finish_def release_def timed_def ret_def)
qed

text \<open>What the finalisation leaves alone.\<close>

interpretation fi: finalize_invariant
    "\<lambda>v. w_ledger v = L \<and> w_sched v = S \<and> rs_open_launch (w_runs v) = Q \<and> rs_running (w_runs v) = R" "\<lambda>_. True" for L S Q R
  by unfold_locales (simp_all add: stop_run_def split: option.split)

lemma teardown_final_fields:
  fixes env e w
  defines "w1 \<equiv> teardown_clear env e w" and "w2 \<equiv> teardown_final env e w"
  shows "w_ledger w2 = w_ledger w1" "w_sched w2 = w_sched w1" "rs_open_launch (w_runs w2) = rs_open_launch (w_runs w1)"
    "rs_running (w_runs w2) = rs_running (w_runs w1)"
proof -
  let ?m = "case current_run (w_runs w1) e of Some r \<Rightarrow> hook_finalize env e r | None \<Rightarrow> ret ()"
  have "keeps (\<lambda>v. w_ledger v = w_ledger w1 \<and> w_sched v = w_sched w1 \<and> rs_open_launch (w_runs v) = rs_open_launch (w_runs w1) \<and>
      rs_running (w_runs v) = rs_running (w_runs w1)) ?m"
    by (intro keeps_rules fi.keeps_finalize_hooks) simp
  then show "w_ledger w2 = w_ledger w1" "w_sched w2 = w_sched w1" "rs_open_launch (w_runs w2) = rs_open_launch (w_runs w1)"
    "rs_running (w_runs w2) = rs_running (w_runs w1)"
    unfolding keeps_def w2_def teardown_final_def Let_def w1_def[symmetric] by auto
qed

lemma teardown_clear_current: "current_run (w_runs (teardown_clear env e w)) e' = current_run (w_runs w) e'"
proof -
  obtain r where "teardown_clear env e w = w\<lparr>w_catalog := snd (touch_activity (w_now w) e (w_catalog w)),
     w_runs := (let s = (w_runs w)\<lparr>rs_running := r\<rparr> in
       if le_usage_wired env then snd (finish_launch (w_now w) e (virtual_users (load_profile_for (w_catalog w) e)) s) else s),
     w_ledger := snd (release_reservations_for_execution e (w_ledger w))\<rparr>" using teardown_clear_eq by blast
  then show ?thesis by (simp add: current_run_def Let_def finish_launch_def split: option.split)
qed

lemma teardown_current: "current_run (w_runs (snd (teardown env e w))) e' = (if e' = e then None else current_run (w_runs w) e')"
proof (cases "e' = e")
  case True
  then show ?thesis by (simp add: teardown_eq end_run_eq stop_run_current)
next
  case False
  then show ?thesis using om.keeps_teardown[of e e' "current_run (w_runs w) e'" env] by (auto simp: keeps_def)
qed

section \<open>Stopping a run\<close>

text \<open>
  C14. Stopping a running execution succeeds and ends exactly its run: its marker and all its
  reservations go, the running marks of the scenarios of its current profile go, and its open launch
  goes exactly when usage accounting is wired. Marks of scenarios no longer in the profile stay, every
  other execution keeps its own, and the engines stay deployed.
\<close>

theorem stop_ends_run:
  assumes "current_run (w_runs w) e \<noteq> None"
  shows "\<exists>w'. lifecycle_stop env e w = (Inr (), w') \<and>
    (\<forall>e'. current_run (w_runs w') e' = (if e' = e then None else current_run (w_runs w) e')) \<and>
    (\<forall>e' sid. scenario_running w' e' sid \<longleftrightarrow>
       scenario_running w e' sid \<and> \<not> (e' = e \<and> sid \<in> en_scenario_id ` set (load_profile_for (w_catalog w) e))) \<and>
    w_ledger w' = snd (release_reservations_for_execution e (w_ledger w)) \<and>
    (\<forall>e'. mget (rs_open_launch (w_runs w')) e' = (if e' = e \<and> le_usage_wired env then None else mget (rs_open_launch (w_runs w)) e')) \<and>
    w_sched w' = w_sched w"
proof -
  obtain r where clr: "teardown_clear env e w = w\<lparr>w_catalog := snd (touch_activity (w_now w) e (w_catalog w)),
     w_runs := (let s = (w_runs w)\<lparr>rs_running := r\<rparr> in
       if le_usage_wired env then snd (finish_launch (w_now w) e (virtual_users (load_profile_for (w_catalog w) e)) s) else s),
     w_ledger := snd (release_reservations_for_execution e (w_ledger w))\<rparr>"
    and r: "\<forall>e' sid. mget (mget_or [] r e') sid \<noteq> None \<longleftrightarrow>
        scenario_running w e' sid \<and> \<not> (e' = e \<and> sid \<in> en_scenario_id ` set (load_profile_for (w_catalog w) e))"
    using teardown_clear_eq by blast
  let ?w' = "snd (teardown env e w)"
  have st: "lifecycle_stop env e w = (Inr (), ?w')" using assms teardown_total[of env e w] by (simp add: stop_eq prod_eq_iff)
  have end': "w_ledger ?w' = w_ledger (teardown_final env e w)" "w_sched ?w' = w_sched (teardown_final env e w)"
    "rs_running (w_runs ?w') = rs_running (w_runs (teardown_final env e w))"
    "rs_open_launch (w_runs ?w') = rs_open_launch (w_runs (teardown_final env e w))"
    by (simp_all add: teardown_eq end_run_eq stop_run_def split: option.split)
  have fields: "w_ledger ?w' = snd (release_reservations_for_execution e (w_ledger w))" "w_sched ?w' = w_sched w"
    "rs_running (w_runs ?w') = r"
    "mget (rs_open_launch (w_runs ?w')) e' = (if e' = e \<and> le_usage_wired env then None else mget (rs_open_launch (w_runs w)) e')" for e'
    unfolding end' teardown_final_fields clr by (simp_all add: Let_def finish_launch_def split: option.split)
  have "scenario_running ?w' e' sid \<longleftrightarrow> scenario_running w e' sid \<and> \<not> (e' = e \<and> sid \<in> en_scenario_id ` set (load_profile_for (w_catalog w) e))" for e' sid
    unfolding r[rule_format, symmetric] by (simp add: scenario_running_def fields)
  then show ?thesis by (intro exI[of _ ?w'] conjI allI st teardown_current fields)
qed

theorem stop_ends_run_witness:
  "\<exists>w'. lifecycle_stop demo_env 5 overrun_world = (Inr (), w') \<and> current_run (w_runs w') 5 = None \<and> lg_reservations (w_ledger w') = []"
proof -
  have "current_run (w_runs overrun_world) 5 \<noteq> None"
    by (simp add: overrun_world_def start_run_def new_run_store_def current_run_def Let_def)
  from stop_ends_run[OF this, of demo_env] show ?thesis
    by (auto simp: overrun_world_def release_reservations_for_execution_def)
qed

lemma teardown_clear_same:
  "stores_healthy (teardown_clear env e w) = stores_healthy w" "w_reports (teardown_clear env e w) = w_reports w"
  "run_history (w_runs (teardown_clear env e w)) r = run_history (w_runs w) r"
  "get_execution (w_catalog (teardown_clear env e w)) e' = get_execution (w_catalog w) e'"
proof -
  obtain q where q: "teardown_clear env e w = w\<lparr>w_catalog := snd (touch_activity (w_now w) e (w_catalog w)),
     w_runs := (let s = (w_runs w)\<lparr>rs_running := q\<rparr> in
       if le_usage_wired env then snd (finish_launch (w_now w) e (virtual_users (load_profile_for (w_catalog w) e)) s) else s),
     w_ledger := snd (release_reservations_for_execution e (w_ledger w))\<rparr>" using teardown_clear_eq by blast
  show "stores_healthy (teardown_clear env e w) = stores_healthy w" "w_reports (teardown_clear env e w) = w_reports w"
    "run_history (w_runs (teardown_clear env e w)) r = run_history (w_runs w) r"
    "get_execution (w_catalog (teardown_clear env e w)) e' = get_execution (w_catalog w) e'"
    unfolding q by (simp_all add: stores_healthy_def Let_def run_history_def get_execution_def touch_activity_def finish_launch_def
        split: option.split)
qed

text \<open>
  C37. A stopped run has a report exactly when the binary that stops it attached the metric service:
  with it the stop finalises the run with the outcome of a stop; without it the marker goes and
  nothing is written, although the stores are healthy and every part of the report is at hand.
\<close>

theorem stop_reports_iff_wired:
  assumes "current_run (w_runs w) e = Some r" "stores_healthy w" "run_history (w_runs w) r = Inr h"
    "get_execution (w_catalog w) e = Inr exe" "0 < e" "0 < r" "report_of w r = None"
  shows "report_of (snd (lifecycle_stop env e w)) r \<noteq> None \<longleftrightarrow> le_metrics_wired env"
proof -
  let ?w1 = "teardown_clear env e w"
  have rep: "report_of (snd (lifecycle_stop env e w)) r = report_of (teardown_final env e w) r"
    using assms(1) by (simp add: stop_eq teardown_eq end_run_eq report_of_def)
  have fin: "teardown_final env e w = snd (hook_finalize env e r ?w1)"
    using assms(1) by (simp add: teardown_final_def Let_def teardown_clear_current)
  have none: "report_of ?w1 r = None" using assms(7) by (simp add: report_of_def teardown_clear_same)
  show ?thesis
  proof (cases "le_metrics_wired env")
    case True
    obtain w2 where "finalize e r (stop_outcome ?w1 r) ?w1 = (Inr (), w2)"
      using finalize_works[of ?w1 r h e exe "stop_outcome ?w1 r"] assms by (auto simp: teardown_clear_same)
    then show ?thesis using finalize_report[OF _ none] True by (fastforce simp: rep fin hook_finalize_def finalize_run_def)
  next
    case False
    then show ?thesis using none by (simp add: rep fin hook_finalize_def ret_def)
  qed
qed

theorem stop_reports_iff_wired_witness:
  "report_of (snd (lifecycle_stop demo_env 5 pushed_world)) 7 \<noteq> None \<and>
   report_of (snd (lifecycle_stop (demo_env\<lparr>le_metrics_wired := False\<rparr>) 5 pushed_world)) 7 = None"
proof -
  have "report_of (snd (lifecycle_stop env 5 pushed_world)) 7 = None \<longleftrightarrow> \<not> le_metrics_wired env" for env
    using stop_reports_iff_wired[OF pushed_world_simps(1,5,6,7) _ _ pushed_world_simps(4), of env] by linarith
  then show ?thesis by (simp add: demo_env_def)
qed

section \<open>Capacity of executions past their window\<close>


text \<open>An execution that was triggered again after a reservation of its own had lapsed without a release.\<close>

lemma second_lapsed_reservation_blocks:
  "let w = overrun_world\<lparr>w_ledger := \<lparr>lg_seq = 2, lg_reservations = map (\<lambda>i. (i, \<lparr>rv_id = i, rv_tenant_id = 1, rv_cluster = '''',
        rv_engine_count = 4, rv_start = 0, rv_end = 8, rv_execution_id = 5\<rparr>)) [1, 2], lg_ceilings = []\<rparr>\<rparr>
   in fst (reserve (lifecycle_stop demo_env) 1 '''' 8 10 20 6 w) = Inl (ARun RunErrNotRunning) \<and>
      engines_of (reservations_in_window (w_ledger w) 1 '''' 10 20) + 8 \<le> quota_ceiling (w_ledger w) 1 ''''"
  by code_simp


end
