(* ===== verification/Lifecycle_Start.thy ===== *)
theory Lifecycle_Start
  imports Lifecycle_Stop
begin

text \<open>What triggering an execution does when it succeeds, when it is refused and when it fails late.\<close>

section \<open>Reservations of a trigger\<close>

definition holds_reservation :: "int \<Rightarrow> (reservation \<Rightarrow> bool) \<Rightarrow> world \<Rightarrow> bool" where
  "holds_reservation e Q w \<longleftrightarrow> (\<exists>r \<in> set (mvals (lg_reservations (w_ledger w))). rv_execution_id r = e \<and> Q r)"

definition booked :: "int \<Rightarrow> int \<Rightarrow> time \<Rightarrow> time \<Rightarrow> string \<Rightarrow> reservation \<Rightarrow> bool" where
  "booked tid n ts te cl r \<longleftrightarrow> rv_tenant_id r = tid \<and> rv_cluster r = cl \<and> rv_engine_count r = n \<and> rv_start r = ts \<and> rv_end r = te"

text \<open>
  Execution \<open>e\<close> has no open run and, apart from reservations of the kinds \<open>Qs\<close> it holds, is as it was
  in \<open>w0\<close> in all a start reads.
\<close>

definition start_ready :: "int \<Rightarrow> world \<Rightarrow> (reservation \<Rightarrow> bool) set \<Rightarrow> world \<Rightarrow> bool" where
  "start_ready e w0 Qs w \<longleftrightarrow> ledger_ok (w_ledger w) \<and> current_run (w_runs w) e = None \<and>
    mget (ct_executions (w_catalog w)) e = mget (ct_executions (w_catalog w0)) e \<and>
    mget (ct_pending_correlation (w_catalog w)) e = mget (ct_pending_correlation (w_catalog w0)) e \<and> w_now w = w_now w0 \<and>
    ct_projects (w_catalog w) = ct_projects (w_catalog w0) \<and> rs_mark_running_err (w_runs w) = rs_mark_running_err (w_runs w0) \<and>
    rs_run_seq (w_runs w) = rs_run_seq (w_runs w0) \<and> (\<forall>Q \<in> Qs. holds_reservation e Q w)"

text \<open>Ending other executions' runs takes nothing from it.\<close>

interpretation sr: run_end_invariant "start_ready e w0 Qs" "\<lambda>e'. e' \<noteq> e" for e w0 Qs
proof (unfold_locales, goal_cases)
  case 9
  then show ?case using sub_ledger_ok[OF release_sub_ledger]
    by (fastforce simp: start_ready_def holds_reservation_def release_reservations_for_execution_def mvals_def)
qed (auto simp: start_ready_def holds_reservation_def touch_activity_def stop_run_def clear_scenario_running_def finish_launch_def
    current_run_def Let_def split: option.split)

lemma start_ready_book:
  assumes "start_ready e w0 Qs w" "reservation_validate r = None" "rv_execution_id r = e" "\<And>i. Q (r\<lparr>rv_id := i\<rparr>)"
  shows "start_ready e w0 (insert Q Qs) (w\<lparr>w_ledger := snd (create_reservation r (w_ledger w))\<rparr>)"
proof -
  have ok: "ledger_ok (w_ledger w)" using assms(1) by (simp add: start_ready_def)
  have holds: "holds_reservation e R (w\<lparr>w_ledger := snd (create_reservation r (w_ledger w))\<rparr>) \<longleftrightarrow>
      holds_reservation e R w \<or> R (r\<lparr>rv_id := lg_seq (w_ledger w) + 1\<rparr>)" for R
    using assms(3) by (auto simp: holds_reservation_def create_reservation_eq[OF ok] mvals_def)
  show ?thesis using assms(1,4) create_reservation_ok[OF ok assms(2)] unfolding start_ready_def by (simp add: holds)
qed

lemma start_ready_reserve:
  assumes "start_ready e w0 Qs w" "reserve (lifecycle_stop env) tid cl n ts te e w = (res, w')"
  shows "case res of Inl _ \<Rightarrow> start_ready e w0 Qs w' | Inr _ \<Rightarrow> start_ready e w0 (insert (booked tid n ts te cl) Qs) w'"
proof -
  let ?r0 = "\<lparr>rv_id = 0, rv_tenant_id = tid, rv_cluster = cl, rv_engine_count = n, rv_start = ts, rv_end = te, rv_execution_id = e\<rparr>"
  have "rv_execution_id r \<noteq> e" if "r \<in> set (overrun_reservations w tid cl)" for r
    using that assms(1) by (auto simp: overrun_reservations_def start_ready_def)
  from sr.reserve_reaches[OF assms(1) this assms(2)] obtain w1 where w1: "start_ready e w0 Qs w1"
    and res: "case res of Inl _ \<Rightarrow> w' = w1
     | Inr r \<Rightarrow> r = ?r0\<lparr>rv_id := lg_seq (w_ledger w1) + 1\<rparr> \<and>
         w' = w1\<lparr>w_ledger := snd (create_reservation ?r0 (w_ledger w1))\<rparr> \<and> reservation_validate ?r0 = None"
    by blast
  show ?thesis
  proof (cases res)
    case (Inr r)
    then show ?thesis using res start_ready_book[OF w1, of _ "booked tid n ts te cl"] by (simp add: booked_def)
  qed (use res w1 in simp)
qed

lemma reserve_clusters_outcome:
  assumes "start_ready e w0 Qs w" "reserve_clusters env tid n ts te e cls w = (res, w')"
  shows "case res of Inl _ \<Rightarrow> start_ready e w0 {} w' \<and> \<not> holds_reservation e (\<lambda>_. True) w'
    | Inr _ \<Rightarrow> start_ready e w0 (booked tid n ts te ` set cls \<union> Qs) w'"
  using assms
proof (induction cls arbitrary: w Qs)
  case Nil
  then show ?case by (auto simp: reserve_clusters_def ret_def)
next
  case (Cons cl cls)
  let ?rsv = "reserve (lifecycle_stop env) tid cl n ts te e"
  obtain r w1 where r: "?rsv w = (r, w1)" by (cases "?rsv w")
  note ready = start_ready_reserve[OF Cons.prems(1) r]
  show ?case
  proof (cases r)
    case (Inl err)
    then have "res = Inl err" "w' = w1\<lparr>w_ledger := snd (release_reservations_for_execution e (w_ledger w1))\<rparr>"
      using r Cons.prems(2) by (auto simp: reserve_clusters_def call_def attempt_def besteffort_def fail_def release_def)
    then show ?thesis using ready Inl sub_ledger_ok[OF release_sub_ledger]
      by (auto simp: start_ready_def holds_reservation_def release_reservations_for_execution_def mvals_def)
  next
    case (Inr rv)
    then have "reserve_clusters env tid n ts te e cls w1 = (res, w')"
      using r Cons.prems(2) by (simp add: reserve_clusters_def call_def attempt_def ret_def)
    from Cons.IH[OF _ this, of "insert (booked tid n ts te cl) Qs"] ready Inr show ?thesis by (simp split: sum.splits)
  qed
qed

lemma reserve_run_outcome:
  assumes "start_ready e w0 {} w" "reserve_run env exe e es w = (res, w')"
  shows "case res of Inl _ \<Rightarrow> start_ready e w0 {} w' \<and> (w' = w \<or> \<not> holds_reservation e (\<lambda>_. True) w')
    | Inr _ \<Rightarrow> (case ex_tenant_id exe of None \<Rightarrow> start_ready e w0 {} w' | Some tid \<Rightarrow>
        \<exists>n. engine_equivalents env (ex_cpu exe) (ex_memory exe) (total_engines es) = Inr n \<and>
          start_ready e w0 (booked tid n (w_now w) (w_now w + i64 (seconds (longest_duration_seconds es))) ` set (clusters exe)) w')"
proof (cases "ex_tenant_id exe")
  case None
  then show ?thesis using assms by (simp add: reserve_run_def ret_def split: sum.split)
next
  case (Some tid)
  show ?thesis
  proof (cases "engine_equivalents env (ex_cpu exe) (ex_memory exe) (total_engines es)")
    case (Inl err)
    then show ?thesis using Some assms by (auto simp: reserve_run_def fail_def)
  next
    case (Inr n)
    then have "reserve_clusters env tid n (w_now w) (w_now w + i64 (seconds (longest_duration_seconds es))) e (clusters exe) w = (res, w')"
      using Some assms(2) by (simp add: reserve_run_def timed_def)
    from reserve_clusters_outcome[OF assms(1) this] Some Inr show ?thesis by (auto split: sum.splits)
  qed
qed

section \<open>The start proper\<close>

lemma snapshot_only: "\<exists>s. snd (snapshot_configs r es w) = w\<lparr>w_objects := s\<rparr>"
proof -
  have "keeps (\<lambda>v. \<exists>s. v = w\<lparr>w_objects := s\<rparr>) (snapshot_configs r es)"
    unfolding snapshot_configs_def case_prod_unfold by (intro keeps_rules) (auto simp: keeps_def)
  then show ?thesis unfolding keeps_def by (rule allE[of _ w]) (auto intro: exI[of _ "w_objects w"])
qed

lemma mark_running_fails:
  "rs_mark_running_err (w_runs w) = Some x \<Longrightarrow> mark_running e es errs w = (Inr (errs @ replicate (length es) (APort x)), w)"
  by (induction es arbitrary: errs) (simp_all add: ret_def attempt_def timed_def store_op_eq mark_scenario_running_def)

lemma mark_running_marks:
  assumes "rs_mark_running_err (w_runs w) = None"
  shows "\<exists>r. mark_running e es errs w = (Inr errs, w\<lparr>w_runs := (w_runs w)\<lparr>rs_running := r\<rparr>\<rparr>) \<and>
    (\<forall>sid. mget (mget_or [] r e) sid \<noteq> None \<longleftrightarrow> scenario_running w e sid \<or> sid \<in> en_scenario_id ` set es)"
  using assms
proof (induction es arbitrary: w)
  case Nil
  then show ?case by (intro exI[of _ "rs_running (w_runs w)"]) (simp add: ret_def scenario_running_def)
next
  case (Cons ep es)
  let ?m = "mark_scenario_running (w_now w) e (en_scenario_id ep)"
  define q where "q = rs_running (snd (?m (w_runs w)))"
  let ?w1 = "w\<lparr>w_runs := (w_runs w)\<lparr>rs_running := q\<rparr>\<rparr>"
  have m: "?m (w_runs w) = (Inr (), (w_runs w)\<lparr>rs_running := q\<rparr>)" using Cons.prems
    by (simp add: mark_scenario_running_def Let_def q_def)
  have q: "mget (mget_or [] q e) sid \<noteq> None \<longleftrightarrow> scenario_running w e sid \<or> sid = en_scenario_id ep" for sid
    using Cons.prems by (auto simp: q_def mark_scenario_running_def Let_def mget_or_def scenario_running_def split: option.splits)
  from Cons.IH[of ?w1] Cons.prems obtain r where r: "mark_running e es errs ?w1 = (Inr errs, ?w1\<lparr>w_runs := (w_runs ?w1)\<lparr>rs_running := r\<rparr>\<rparr>)"
    "\<forall>sid. mget (mget_or [] r e) sid \<noteq> None \<longleftrightarrow> scenario_running ?w1 e sid \<or> sid \<in> en_scenario_id ` set es" by auto
  have "mark_running e (ep # es) errs w = mark_running e es errs ?w1"
    by (simp add: attempt_def timed_def store_op_eq m)
  then show ?case using r q by (intro exI[of _ r]) (auto simp: scenario_running_def)
qed

lemma start_reserved_eq:
  assumes "start_ready e w0 Qs v" "mget (ct_executions (w_catalog w0)) e \<noteq> None" "es \<noteq> []"
  defines "corr \<equiv> mget_or '''' (ct_pending_correlation (w_catalog w0)) e"
  shows "\<exists>cat s. start_reserved env exe e es v = call (mark_running e es []) (after_marks env exe e es)
     (v\<lparr>w_runs := snd (start_run (w_now w0) e corr (w_runs v)), w_catalog := cat, w_objects := s\<rparr>)"
proof -
  have p: "pending_correlation_id (w_catalog v) e = Inr corr" using assms(1,2)
    by (auto simp: start_ready_def pending_correlation_id_def corr_def mget_or_def)
  have st: "fst (start_run (w_now v) e corr (w_runs v)) = Inr (rs_run_seq (w_runs v) + 1)" using assms(1)
    by (simp add: start_ready_def start_run_def current_run_def Let_def)
  have now: "w_now v = w_now w0" using assms(1) by (simp add: start_ready_def)
  let ?v1 = "v\<lparr>w_runs := snd (start_run (w_now w0) e corr (w_runs v))\<rparr>"
  let ?v2 = "?v1\<lparr>w_catalog := snd (touch_activity (w_now w0) e (w_catalog v))\<rparr>"
  obtain s where s: "snd (snapshot_configs (rs_run_seq (w_runs v) + 1) es ?v2) = ?v2\<lparr>w_objects := s\<rparr>" using snapshot_only by blast
  have "timed (\<lambda>now. in_runs (start_run now e corr)) v = (Inr (rs_run_seq (w_runs v) + 1), ?v1)"
    using st by (simp add: timed_def store_op_eq now)
  then show ?thesis
    by (intro exI[of _ "snd (touch_activity (w_now w0) e (w_catalog v))"] exI[of _ s])
       (simp add: start_reserved_def call_fetch p call_Inr[where m = "timed (\<lambda>now. in_runs (start_run now e corr))" and s = v]
         besteffort_def touch_def timed_def[of "\<lambda>now. in_catalog (touch_activity now e)"] now s)
qed

lemma start_reserved_fails:
  assumes "start_ready e w0 Qs v" "mget (ct_executions (w_catalog w0)) e \<noteq> None" "es \<noteq> []" "rs_mark_running_err (w_runs v) = Some x"
  shows "\<exists>w'. start_reserved env exe e es v = (Inl (ATrigger (replicate (length es) (APort x))), w') \<and>
    w_ledger w' = w_ledger v \<and> current_run (w_runs w') e = None"
proof -
  define corr where "corr = mget_or '''' (ct_pending_correlation (w_catalog w0)) e"
  have me: "rs_mark_running_err (snd (start_run t e corr (w_runs v))) = Some x" for t
    using assms(4) by (simp add: start_run_def Let_def)
  from start_reserved_eq[OF assms(1-3), folded corr_def, of env exe] obtain cat s where
    eq: "start_reserved env exe e es v = call (mark_running e es []) (after_marks env exe e es)
     (v\<lparr>w_runs := snd (start_run (w_now w0) e corr (w_runs v)), w_catalog := cat, w_objects := s\<rparr>)" by blast
  let ?v = "v\<lparr>w_runs := snd (start_run (w_now w0) e corr (w_runs v)), w_catalog := cat, w_objects := s\<rparr>"
  have "mark_running e es [] ?v = (Inr (replicate (length es) (APort x)), ?v)"
    using mark_running_fails[of ?v x e es "[]"] me by simp
  then show ?thesis using assms(3)
    by (simp add: eq call_Inr[where m = "mark_running e es []" and s = ?v] after_marks_def besteffort_def call_def end_run_eq fail_def ret_def stop_run_current)
qed

lemma start_reserved_starts:
  assumes "start_ready e w0 Qs v" "mget (ct_executions (w_catalog w0)) e \<noteq> None" "es \<noteq> []" "rs_mark_running_err (w_runs v) = None"
  shows "\<exists>w'. start_reserved env exe e es v = (Inr (), w') \<and> w_ledger w' = w_ledger v \<and>
    current_run (w_runs w') e = Some (rs_run_seq (w_runs v) + 1) \<and>
    run_history (w_runs w') (rs_run_seq (w_runs v) + 1) = Inr \<lparr>rr_run_id = rs_run_seq (w_runs v) + 1, rr_execution_id = e,
      rr_started_time = w_now w0, rr_end_time = None, rr_correlation_id = mget_or '''' (ct_pending_correlation (w_catalog w0)) e\<rparr> \<and>
    (\<forall>ep \<in> set es. scenario_running w' e (en_scenario_id ep))"
proof -
  define corr where "corr = mget_or '''' (ct_pending_correlation (w_catalog w0)) e"
  have cur: "mget (rs_current_run (w_runs v)) e = None" using assms(1) by (simp add: start_ready_def current_run_def)
  from start_reserved_eq[OF assms(1-3), folded corr_def, of env exe] obtain cat s where
    eq: "start_reserved env exe e es v = call (mark_running e es []) (after_marks env exe e es)
     (v\<lparr>w_runs := snd (start_run (w_now w0) e corr (w_runs v)), w_catalog := cat, w_objects := s\<rparr>)" by blast
  let ?v = "v\<lparr>w_runs := snd (start_run (w_now w0) e corr (w_runs v)), w_catalog := cat, w_objects := s\<rparr>"
  have "rs_mark_running_err (w_runs ?v) = None" using assms(4) by (simp add: start_run_def Let_def)
  from mark_running_marks[OF this, of e es "[]"] obtain r where r: "mark_running e es [] ?v = (Inr [], ?v\<lparr>w_runs := (w_runs ?v)\<lparr>rs_running := r\<rparr>\<rparr>)"
    "\<forall>sid. mget (mget_or [] r e) sid \<noteq> None \<longleftrightarrow> scenario_running ?v e sid \<or> sid \<in> en_scenario_id ` set es" by blast
  let ?u = "?v\<lparr>w_runs := (w_runs ?v)\<lparr>rs_running := r\<rparr>\<rparr>"
  define w' where "w' = (case get_project cat (ex_project_id exe) of Inl _ \<Rightarrow> ?u
    | Inr p \<Rightarrow> snd (record_start env e (pr_owner p) (fan_out_engines (total_engines es) exe) (virtual_users es) ?u))"
  have "start_reserved env exe e es v = (Inr (), w')" using assms(3)
    by (simp add: eq call_Inr[where m = "mark_running e es []" and s = ?v, OF r(1)] w'_def after_marks_def ret_def besteffort_def split: sum.split)
  moreover have "w_ledger w' = w_ledger v \<and> rs_running (w_runs w') = r \<and> rs_current_run (w_runs w') = rs_current_run (w_runs ?v) \<and>
      rs_run_history (w_runs w') = rs_run_history (w_runs ?v)"
    by (simp add: w'_def record_start_def timed_def ret_def start_launch_def split: sum.split)
  ultimately show ?thesis using r(2) cur
    by (intro exI[of _ w']) (simp add: corr_def start_run_def Let_def current_run_def run_history_def scenario_running_def)
qed

section \<open>Triggering\<close>

lemma trigger_ready:
  assumes "trigger_checks e w = (Inr (exe, es), v)" "ledger_ok (w_ledger w)"
  shows "start_ready e w {} v" "es \<noteq> []" "mget (ct_executions (w_catalog w)) e = Some exe" "es = load_profile_for (w_catalog w) e"
    "w_now v = w_now w"
    "trigger env e w = call (reserve_run env exe e es) (\<lambda>_. start_reserved env exe e es) v"
proof -
  obtain st w1 w2 where c: "get_execution (w_catalog w) e = Inr exe" "current_run (w_runs w) e = None" "only_sched w v" "es \<noteq> []"
    "es = load_profile_for (w_catalog w) e"
    using assms(1) by (rule trigger_checks_InrD) blast
  show "start_ready e w {} v" "w_now v = w_now w" using c assms(2) by (simp_all add: start_ready_def only_sched_fields)
  show "es \<noteq> []" "es = load_profile_for (w_catalog w) e" by fact+
  show "mget (ct_executions (w_catalog w)) e = Some exe" using c(1) by (simp add: get_execution_def found_def split: option.splits)
  show "trigger env e w = call (reserve_run env exe e es) (\<lambda>_. start_reserved env exe e es) v"
    using assms(1) by (simp add: trigger_def call_def)
qed

text \<open>
  C11. A trigger that succeeds started a run that was allowed to start: no campaign froze the
  execution, it had no open run and its engines had not already finished. It opened a run under the
  next run id, which no run on record has, stamped with the correlation id of the deploy, and all
  scenarios of the profile are marked running. An execution with a tenant holds a reservation on
  every cluster it runs on, over the whole length of its profile; for one without a tenant nothing is
  reserved and the ledger is as before.
\<close>

theorem trigger_opens_run:
  assumes "trigger env e w = (Inr (), w')" "ledger_ok (w_ledger w)" "runs_ok (w_runs w)"
  defines "es \<equiv> load_profile_for (w_catalog w) e" and "r \<equiv> rs_run_seq (w_runs w) + 1"
  shows "\<exists>exe. get_execution (w_catalog w) e = Inr exe \<and> is_frozen w (ex_project_id exe) e = None \<and>
    current_run (w_runs w) e = None \<and> orphan_completions (w_runs w) e = [] \<and> current_run (w_runs w') e = Some r \<and>
    mget (rs_run_history (w_runs w)) r = None \<and>
    run_history (w_runs w') r = Inr \<lparr>rr_run_id = r, rr_execution_id = e, rr_started_time = w_now w, rr_end_time = None,
      rr_correlation_id = mget_or '''' (ct_pending_correlation (w_catalog w)) e\<rparr> \<and>
    list_all (\<lambda>ep. scenario_running w' e (en_scenario_id ep)) es \<and>
    (case ex_tenant_id exe of None \<Rightarrow> w_ledger w' = w_ledger w | Some tid \<Rightarrow>
       \<exists>n. engine_equivalents env (ex_cpu exe) (ex_memory exe) (total_engines es) = Inr n \<and>
         list_all (\<lambda>cl. holds_reservation e (booked tid n (w_now w) (w_now w + i64 (seconds (longest_duration_seconds es))) cl) w') (clusters exe))"
proof -
  have fresh: "mget (rs_run_history (w_runs w)) r = None"
    using assms(3) unfolding runs_ok_def r_def by (cases "mget (rs_run_history (w_runs w)) (rs_run_seq (w_runs w) + 1)") fastforce+
  from assms(1) obtain p v where p: "trigger_checks e w = (Inr p, v)" unfolding trigger_def by (rule call_InrE)
  obtain exe es' where chk: "trigger_checks e w = (Inr (exe, es'), v)" using p by (cases p) auto
  note ready = trigger_ready[OF chk assms(2)]
  from assms(1) obtain v1 where res: "reserve_run env exe e es' v = (Inr (), v1)" and go: "start_reserved env exe e es' v1 = (Inr (), w')"
    unfolding ready(6) by (rule call_unitE)
  have same: "w_ledger v1 = w_ledger w" if "ex_tenant_id exe = None"
    using res that keepsD[OF keeps_trigger_checks _ chk, of w] by (auto simp: reserve_run_def ret_def only_sched_fields)
  have ready1: "start_ready e w {} v1" and rsv: "case ex_tenant_id exe of None \<Rightarrow> w_ledger v1 = w_ledger w | Some tid \<Rightarrow>
       \<exists>n. engine_equivalents env (ex_cpu exe) (ex_memory exe) (total_engines es') = Inr n \<and>
         list_all (\<lambda>cl. holds_reservation e (booked tid n (w_now w) (w_now w + i64 (seconds (longest_duration_seconds es'))) cl) v1) (clusters exe)"
    using reserve_run_outcome[OF ready(1) res] same by (auto simp: start_ready_def list_all_iff ready(5) split: option.splits)
  have seq: "rs_run_seq (w_runs v1) + 1 = r" using ready1 by (simp add: start_ready_def r_def)
  have ex: "mget (ct_executions (w_catalog w)) e \<noteq> None" using ready(3) by simp
  have none: "rs_mark_running_err (w_runs v1) = None"
    using start_reserved_fails[OF ready1 ex ready(2), of _ env exe] go by (cases "rs_mark_running_err (w_runs v1)") auto
  from start_reserved_starts[OF ready1 ex ready(2) none, of env exe, unfolded seq] go obtain
    "w_ledger w' = w_ledger v1" "current_run (w_runs w') e = Some r"
    "run_history (w_runs w') r = Inr \<lparr>rr_run_id = r, rr_execution_id = e,
      rr_started_time = w_now w, rr_end_time = None, rr_correlation_id = mget_or '''' (ct_pending_correlation (w_catalog w)) e\<rparr>"
    "\<forall>ep \<in> set es'. scenario_running w' e (en_scenario_id ep)" by auto
  then show ?thesis using chk rsv fresh ready(3,4) unfolding es_def[symmetric]
    by (intro exI[of _ exe]) (auto simp: list_all_iff holds_reservation_def elim: trigger_checks_InrD split: option.splits)
qed

text \<open>
  C13. A refused trigger leaves nothing behind: no run was opened, and the execution holds no
  reservation it did not hold before, also when a fan-out was admitted on some clusters and refused
  on a later one. Refusals by a failing store when the scenarios are marked running are excluded: they
  come after the reservations and leave them behind (\<open>failed_start_leaks\<close>).
\<close>

theorem trigger_refused:
  assumes "trigger env e w = (Inl err, w')" "ledger_ok (w_ledger w)" "rs_mark_running_err (w_runs w) = None"
  shows "current_run (w_runs w') e = current_run (w_runs w) e \<and> (holds_reservation e Q w' \<longrightarrow> holds_reservation e Q w)"
proof (cases "trigger_checks e w")
  case (Pair r v)
  have sched: "only_sched w v" using keepsD[OF keeps_trigger_checks _ Pair] by simp
  show ?thesis
  proof (cases r)
    case (Inl x)
    then have "w' = v" using assms(1) Pair by (simp add: trigger_def call_def)
    then show ?thesis using sched by (simp add: only_sched_fields holds_reservation_def)
  next
    case (Inr p)
    obtain exe es where chk: "trigger_checks e w = (Inr (exe, es), v)" using Pair Inr by (cases p) auto
    note ready = trigger_ready[OF chk assms(2)]
    have cur: "current_run (w_runs w) e = None" using chk by (auto elim: trigger_checks_InrD)
    obtain res v1 where res: "reserve_run env exe e es v = (res, v1)" by (cases "reserve_run env exe e es v")
    note out = reserve_run_outcome[OF ready(1) res]
    show ?thesis
    proof (cases res)
      case (Inl x)
      then have "w' = v1" using assms(1) res unfolding ready(6) by (simp add: call_def)
      then show ?thesis using out Inl cur sched by (auto simp: start_ready_def holds_reservation_def only_sched_fields)
    next
      case (Inr u)
      then have go: "start_reserved env exe e es v1 = (Inl err, w')" using assms(1) res unfolding ready(6) by (simp add: call_def)
      have r1: "start_ready e w {} v1" using out Inr by (auto simp: start_ready_def split: option.splits)
      then have "rs_mark_running_err (w_runs v1) = None" using assms(3) by (simp add: start_ready_def)
      from start_reserved_starts[OF r1 _ ready(2) this, of env exe] go ready(3) show ?thesis by auto
    qed
  qed
qed

text \<open>
  If no scenario can be marked running, the run is rolled back but its reservations stay: the
  capacity is held with no run to use it.
\<close>

lemma failed_start_keeps_reservations:
  assumes "trigger_checks e w = (Inr (exe, es), v)" "ledger_ok (w_ledger w)" "reserve_run env exe e es v = (Inr (), v1)"
    "rs_mark_running_err (w_runs w) = Some x" "ex_tenant_id exe = Some tid" "cl \<in> set (clusters exe)"
  shows "\<exists>w'. trigger env e w = (Inl (ATrigger (replicate (length es) (APort x))), w') \<and> current_run (w_runs w') e = None \<and>
    holds_reservation e (\<lambda>r. rv_cluster r = cl) w'"
proof -
  note ready = trigger_ready[OF assms(1,2)]
  obtain n where n: "start_ready e w (booked tid n (w_now v) (w_now v + i64 (seconds (longest_duration_seconds es))) ` set (clusters exe)) v1"
    using reserve_run_outcome[OF ready(1) assms(3)] assms(5) by auto
  then have held: "holds_reservation e (\<lambda>r. rv_cluster r = cl) v1"
    using assms(6) by (fastforce simp: start_ready_def holds_reservation_def booked_def)
  have "rs_mark_running_err (w_runs v1) = Some x" using n assms(4) by (simp add: start_ready_def)
  from start_reserved_fails[OF n _ ready(2) this, of env exe] ready(3)
  show ?thesis using held assms(3) unfolding ready(6) by (auto simp: call_def holds_reservation_def)
qed

section \<open>A fan-out over two clusters\<close>

definition ready_execution :: execution where
  "ready_execution = \<lparr>ex_id = 5, ex_name = ''e'', ex_project_id = 3, ex_engine = '''', ex_kind = '''', ex_cpu = '''', ex_memory = '''',
     ex_cluster = '''', ex_fan_out_targets = [''a'', ''b''], ex_csv_split = False, ex_tenant_id = Some 1, ex_created_by = '''', ex_updated_by = '''',
     ex_created_time = 0\<rparr>"

definition ready_entry :: entry where
  "ready_entry = \<lparr>en_name = ''checkout'', en_scenario_id = 2, en_concurrency = 10, en_rampup = 0,
     en_engines = 2, en_throughput = 90, en_duration = 60, en_csv_split = False, en_mode = '''', en_steps = 0\<rparr>"

text \<open>An execution of tenant 1 on the clusters a and b, with its engines up, under given ceilings.\<close>

definition ready_world :: "(int \<times> string, int) gomap \<Rightarrow> world" where
  "ready_world ceilings = (new_world 100)\<lparr>
     w_catalog := new_catalog\<lparr>ct_executions := [(5, ready_execution)], ct_scenarios := [(2, zero_scenario\<lparr>sc_id := 2\<rparr>)],
       ct_coll_seq := 5, ct_plan_seq := 2, ct_exec := [(5, [ready_entry])], ct_pending_correlation := [(5, ''trace'')]\<rparr>,
     w_ledger := \<lparr>lg_seq = 0, lg_reservations = [], lg_ceilings = ceilings\<rparr>,
     w_sched := new_scheduler\<lparr>sd_deployments := [(5, [(2, (\<lparr>dp_cluster = ''b'', dp_project_id = 3, dp_execution_id = 5, dp_scenario_id = 2,
       dp_image = ''engine'', dp_cpu = '''', dp_memory = '''', dp_shards = [\<lparr>ss_index = 0, ss_config = '''', ss_concurrency = 5\<rparr>,
         \<lparr>ss_index = 1, ss_config = '''', ss_concurrency = 5\<rparr>], dp_scenario_files = []\<rparr>, 0))])]\<rparr>\<rparr>"

lemma ready_world_ledger: "ledger_ok (w_ledger (ready_world c))"
  by (simp add: ready_world_def ledger_ok_def)

lemma ready_world_runs: "runs_ok (w_runs (ready_world c))"
  by (simp add: ready_world_def new_world_def new_run_store_ok)

lemma ready_engines:
  "engine_equivalents demo_env (ex_cpu ready_execution) (ex_memory ready_execution)
      (total_engines (load_profile_for (w_catalog (ready_world c)) 5)) = Inr 2"
  "get_execution (w_catalog (ready_world c)) 5 = Inr ready_execution"
proof -
  have "load_profile_for (w_catalog (ready_world c)) 5 = [ready_entry]" "total_engines [ready_entry] = 2"
    by (simp_all add: ready_world_def load_profile_for_def mget_or_def mget_Cons total_engines_def ready_entry_def i64_id in_i64_def)
  then show "engine_equivalents demo_env (ex_cpu ready_execution) (ex_memory ready_execution)
      (total_engines (load_profile_for (w_catalog (ready_world c)) 5)) = Inr 2"
    by (simp add: ready_execution_def engine_equivalents_def size_ratio_def raise_ratio_def math_ceil_def int_of_f64_def i64_id in_i64_def)
  show "get_execution (w_catalog (ready_world c)) 5 = Inr ready_execution"
    by (simp add: ready_world_def get_execution_def mget_Cons found_def)
qed

theorem trigger_within_ceiling_witness:
  "ledger_within (w_ledger (snd (trigger demo_env 5 (ready_world [])))) \<and> quota_ceiling (w_ledger (ready_world [])) 1 ''b'' = 10"
proof -
  have ceil: "quota_ceiling (w_ledger (ready_world [])) tid cl = 10" for tid cl
    by (simp add: ready_world_def quota_ceiling_def get_quota_def DefaultCeiling_def)
  have "ledger_within (w_ledger (ready_world []))"
    using ready_world_ledger ceil by (simp add: ledger_within_def within_ceiling_def) (simp add: ready_world_def load_at_def mvals_def engines_of_def)
  moreover have "ledger_small (w_ledger (ready_world [])) n" if "\<bar>n\<bar> \<le> 10" for n
    using that by (simp add: ready_world_def ledger_small_def mvals_def engines_of_def)
  ultimately show ?thesis using trigger_within_ceiling[of "ready_world []" 5 demo_env] ready_engines ceil
    by (auto simp: ready_execution_def clusters_def is_fan_out_def)
qed

theorem trigger_opens_run_witness:
  "\<exists>w'. trigger demo_env 5 (ready_world []) = (Inr (), w') \<and> current_run (w_runs w') 5 = Some 1 \<and>
     holds_reservation 5 (booked 1 2 100 60000000100 ''b'') w'"
proof -
  have "fst (trigger demo_env 5 (ready_world [])) = Inr ()" by code_simp
  then obtain w' where w': "trigger demo_env 5 (ready_world []) = (Inr (), w')" by (metis prod.collapse)
  from trigger_opens_run[OF w' ready_world_ledger ready_world_runs] obtain exe where
    exe: "get_execution (w_catalog (ready_world [])) 5 = Inr exe" and r: "current_run (w_runs w') 5 = Some (rs_run_seq (w_runs (ready_world [])) + 1)"
    and case_t: "case ex_tenant_id exe of None \<Rightarrow> w_ledger w' = w_ledger (ready_world []) | Some tid \<Rightarrow>
       \<exists>n. engine_equivalents demo_env (ex_cpu exe) (ex_memory exe) (total_engines (load_profile_for (w_catalog (ready_world [])) 5)) = Inr n \<and>
         list_all (\<lambda>cl. holds_reservation 5 (booked tid n (w_now (ready_world [])) (w_now (ready_world []) +
           i64 (seconds (longest_duration_seconds (load_profile_for (w_catalog (ready_world [])) 5)))) cl) w') (clusters exe)"
    by blast
  have x: "exe = ready_execution" using exe ready_engines(2) by simp
  moreover have "rs_run_seq (w_runs (ready_world [])) = 0" "w_now (ready_world []) = 100" "i64 (seconds (longest_duration_seconds (load_profile_for (w_catalog (ready_world [])) 5))) = 60000000000"
    by code_simp+
  ultimately show ?thesis using case_t w' r ready_engines(1)[of "[]"] unfolding x
    by (simp add: ready_execution_def clusters_def is_fan_out_def)
qed

theorem trigger_refused_witness:
  "\<exists>err w'. trigger demo_env 5 (ready_world [((1, ''b''), 1)]) = (Inl err, w') \<and> current_run (w_runs w') 5 = None \<and>
     \<not> holds_reservation 5 (\<lambda>_. True) w'"
proof -
  let ?w = "ready_world [((1, ''b''), 1)]"
  have "isl (fst (trigger demo_env 5 ?w))" by code_simp
  then obtain err w' where w': "trigger demo_env 5 ?w = (Inl err, w')" by (cases "trigger demo_env 5 ?w") (auto simp: isl_def)
  have "rs_mark_running_err (w_runs ?w) = None" "current_run (w_runs ?w) 5 = None" "\<not> holds_reservation 5 (\<lambda>_. True) ?w"
    by (simp_all add: ready_world_def new_world_def new_run_store_def current_run_def holds_reservation_def mvals_def)
  with trigger_refused[OF w' ready_world_ledger] w' show ?thesis by auto
qed

text \<open>The reservation a failed start leaves on cluster b.\<close>

lemma failed_start_leaks:
  "let w = (ready_world [])\<lparr>w_runs := new_run_store\<lparr>rs_mark_running_err := Some PortErrNotFound\<rparr>\<rparr>; r = trigger demo_env 5 w
   in isl (fst r) \<and> current_run (w_runs (snd r)) 5 = None \<and>
      map rv_cluster (mvals (lg_reservations (w_ledger (snd r)))) = [''a'', ''b'']"
  by code_simp

end
