(* ===== verification/Lifecycle_Sweeps.thy ===== *)
theory Lifecycle_Sweeps
  imports Lifecycle_Start
begin

text \<open>
  The sweeps that run in the background: draining executions for a campaign, reaping idle engines,
  closing stranded runs. Each property says which executions a pass acts on and that it leaves all
  others alone.
\<close>

section \<open>Draining\<close>

definition in_scope :: "world \<Rightarrow> campaign \<Rightarrow> int \<Rightarrow> bool" where
  "in_scope w c e \<longleftrightarrow> (case in_scope_executions w (cp_id c) of Inl _ \<Rightarrow> False | Inr es \<Rightarrow> e \<in> set es)"

interpretation dr: run_end_invariant
    "\<lambda>v. w_campaigns v = C \<and> ct_executions (w_catalog v) = X \<and> w_sched v = S" "\<lambda>_. True" for C X S
  by unfold_locales (simp_all add: touch_activity_def)

lemma stop_current:
  "current_run (w_runs (snd (lifecycle_stop env e w))) e' = (if e' = e then None else current_run (w_runs w) e')"
  by (auto simp: stop_eq teardown_current)

lemma drain_executions:
  "\<exists>w'. foreach es (drain_execution env) w = (Inr (), w') \<and> w_campaigns w' = w_campaigns w \<and>
    ct_executions (w_catalog w') = ct_executions (w_catalog w) \<and> w_sched w' = w_sched w \<and>
    (\<forall>e. current_run (w_runs w') e = (if e \<in> set es then None else current_run (w_runs w) e))"
proof (induction es arbitrary: w)
  case Nil
  then show ?case by (simp add: ret_def)
next
  case (Cons x es)
  let ?w1 = "if current_run (w_runs w) x = None then w else snd (lifecycle_stop env x w)"
  have f: "drain_execution env x w = (Inr (), ?w1)" by (simp add: drain_execution_def ret_def besteffort_def)
  have same: "w_campaigns ?w1 = w_campaigns w \<and> ct_executions (w_catalog ?w1) = ct_executions (w_catalog w) \<and> w_sched ?w1 = w_sched w"
    using dr.keeps_stop[of "w_campaigns w" "ct_executions (w_catalog w)" "w_sched w" env x] by (simp add: keeps_def)
  have "current_run (w_runs ?w1) e = (if e = x then None else current_run (w_runs w) e)" for e by (simp add: stop_current)
  then show ?case using Cons.IH[of ?w1] same f by (auto simp: call_def)
qed

lemma in_scope_cong:
  "w_campaigns v = w_campaigns w \<Longrightarrow> ct_executions (w_catalog v) = ct_executions (w_catalog w) \<Longrightarrow> w_sched v = w_sched w \<Longrightarrow>
    in_scope_executions v i = in_scope_executions w i"
  by (cases "get_campaign (w_campaigns w) i") (simp_all add: in_scope_executions_def get_execution_def)

text \<open>
  C26. One drain pass ends the open run of every execution in the scope of an active campaign, and of
  no other execution.
\<close>

theorem drain_exact:
  "\<exists>w'. drain_once env w = (Inr (), w') \<and>
    (\<forall>e. current_run (w_runs w') e = (if list_ex (\<lambda>c. in_scope w c e) (active_campaigns w) then None else current_run (w_runs w) e))"
proof -
  have "\<exists>w'. foreach cs (drain_campaign env) v = (Inr (), w') \<and>
      (\<forall>e. current_run (w_runs w') e = (if list_ex (\<lambda>c. in_scope w c e) cs then None else current_run (w_runs v) e))"
    if "w_campaigns v = w_campaigns w" "ct_executions (w_catalog v) = ct_executions (w_catalog w)" "w_sched v = w_sched w" for cs v
    using that
  proof (induction cs arbitrary: v)
    case Nil
    then show ?case by (simp add: ret_def)
  next
    case (Cons c cs)
    define ids where "ids = (case in_scope_executions w (cp_id c) of Inl _ \<Rightarrow> [] | Inr es \<Rightarrow> es)"
    have ids: "in_scope w c e \<longleftrightarrow> e \<in> set ids" for e by (simp add: ids_def in_scope_def split: sum.split)
    obtain v1 where v1: "foreach ids (drain_execution env) v = (Inr (), v1)"
      "w_campaigns v1 = w_campaigns v" "ct_executions (w_catalog v1) = ct_executions (w_catalog v)" "w_sched v1 = w_sched v"
      "\<forall>e. current_run (w_runs v1) e = (if e \<in> set ids then None else current_run (w_runs v) e)"
      using drain_executions by blast
    have "drain_campaign env c v = (Inr (), v1)" using v1(1) in_scope_cong[OF Cons.prems, of "cp_id c"]
      by (auto simp: drain_campaign_def ids_def ret_def split: sum.splits)
    moreover from Cons.IH[of v1] Cons.prems v1 obtain w' where "foreach cs (drain_campaign env) v1 = (Inr (), w')"
      "\<forall>e. current_run (w_runs w') e = (if list_ex (\<lambda>c. in_scope w c e) cs then None else current_run (w_runs v1) e)" by auto
    ultimately show ?case using v1(5) ids by (auto simp: call_def)
  qed
  from this[of w "active_campaigns w"] show ?thesis by (simp add: drain_once_def)
qed

section \<open>Reaping idle engines\<close>

definition idle_since :: "world \<Rightarrow> int \<Rightarrow> time \<Rightarrow> time" where
  "idle_since w e deployedAt = (case last_activity (w_catalog w) e of None \<Rightarrow> deployedAt | Some t \<Rightarrow> t)"

fun reapable :: "world \<Rightarrow> int \<Rightarrow> int \<times> time \<Rightarrow> bool" where
  "reapable w ttl (e, t) \<longleftrightarrow> ttl \<le> w_now w - idle_since w e t \<and> current_run (w_runs w) e = None \<and> \<not> calibrating w e"

text \<open>Nothing of execution \<open>e\<close> changed: its engines, its run, its reservations, its activity, its orphans.\<close>

definition same_for :: "int \<Rightarrow> world \<Rightarrow> world \<Rightarrow> bool" where
  "same_for e w v \<longleftrightarrow> mget (sd_deployments (w_sched v)) e = mget (sd_deployments (w_sched w)) e \<and>
     current_run (w_runs v) e = current_run (w_runs w) e \<and> w_calibs v = w_calibs w \<and>
     last_activity (w_catalog v) e = last_activity (w_catalog w) e \<and> w_now v = w_now w \<and>
     filter (\<lambda>(i, r). rv_execution_id r = e) (lg_reservations (w_ledger v)) = filter (\<lambda>(i, r). rv_execution_id r = e) (lg_reservations (w_ledger w)) \<and>
     mget (rs_orphans (w_runs v)) e = mget (rs_orphans (w_runs w)) e"

lemma same_for_refl [simp]: "same_for e w w"
  by (simp add: same_for_def)

lemma same_for_trans: "same_for e u v \<Longrightarrow> same_for e v w \<Longrightarrow> same_for e u w"
  by (simp add: same_for_def)

lemma filter_other: "e' \<noteq> e \<Longrightarrow> filter (\<lambda>(i, r). rv_execution_id r = e) (filter (\<lambda>(i, r). rv_execution_id r \<noteq> e') xs)
    = filter (\<lambda>(i, r). rv_execution_id r = e) xs"
  by (auto simp: filter_filter intro!: filter_cong)

interpretation sf: engine_invariant "same_for e w" "\<lambda>x. x \<noteq> e" for e w
proof (unfold_locales, goal_cases)
  case 9
  then show ?case by (simp add: same_for_def release_reservations_for_execution_def filter_other del: filter_filter)
qed (auto simp: same_for_def touch_activity_def last_activity_def stop_run_def clear_scenario_running_def finish_launch_def current_run_def
    purge_deployment_def clear_orphan_completions_def Let_def split: option.split)

interpretation sh: engine_invariant "\<lambda>v. set (sd_deployments (w_sched v)) \<subseteq> D" "\<lambda>_. True" for D
  by unfold_locales (auto simp: purge_deployment_def mdel_filter)

lemma same_for_reapable: "same_for e w v \<Longrightarrow> reapable v ttl (e, t) = reapable w ttl (e, t)"
  by (simp add: same_for_def idle_since_def calibrating_def)

lemma capture_total: "fst (capture_logs e r w) = Inr ()"
proof -
  have "fst (foreach xs (\<lambda>(cluster, scenarioID, shd).
      attempt (fetch (\<lambda>w. pod_log (w_sched w) cluster e scenarioID shd)) (\<lambda>r'. case r' of
        Inl _ \<Rightarrow> ret ()
      | Inr txt \<Rightarrow> besteffort (in_objects (upload (log_key exe r scenarioID shd cluster) txt)) (ret ())) :: unit app) w) = Inr ()" for xs exe
    by (rule foreach_total) (auto simp: attempt_def ret_def besteffort_def split: prod.split sum.split)
  then show ?thesis by (simp add: capture_logs_def ret_def split: sum.split)
qed

lemma teardown_and_capture_total: "fst (teardown_and_capture env e w) = Inr ()"
proof -
  have "fst (call (teardown env e) (\<lambda>_. capture_logs e r) w) = Inr ()" for r
    using teardown_total[of env e w] capture_total by (cases "teardown env e w") (simp add: call_def)
  then show ?thesis by (simp add: teardown_and_capture_def ret_def split: option.split sum.split)
qed

lemma reap_if_idle_eq:
  "\<exists>w'. reap_if_idle env e cl t (w_now w) ttl w = (Inr (reapable w ttl (e, t)), w') \<and> (\<not> reapable w ttl (e, t) \<longrightarrow> w' = w) \<and>
    (reapable w ttl (e, t) \<longrightarrow> mget (sd_deployments (w_sched w')) e = None)"
proof (cases "reapable w ttl (e, t)")
  case True
  obtain w1 where w1: "teardown_and_capture env e w = (Inr (), w1)"
    using teardown_and_capture_total[of env e w] by (cases "teardown_and_capture env e w") auto
  let ?w2 = "w1\<lparr>w_sched := snd (purge_deployment cl e (w_sched w1))\<rparr>"
  let ?w3 = "?w2\<lparr>w_runs := snd (clear_orphan_completions e (w_runs w1))\<rparr>"
  have "in_sched (purge_deployment cl e) w1 = (Inr (), ?w2)" "in_runs (clear_orphan_completions e) ?w2 = (Inr (), ?w3)"
    by (simp_all add: store_op_eq purge_deployment_def clear_orphan_completions_def)
  then have "reap_if_idle env e cl t (w_now w) ttl w = (Inr True, ?w3)" using True w1
    by (simp add: reap_if_idle_def idle_since_def[symmetric] call_Inr[where m = "teardown_and_capture env e" and s = w]
        call_Inr[where m = "in_sched (purge_deployment cl e)" and s = w1] call_Inr[where m = "in_runs (clear_orphan_completions e)" and s = ?w2] ret_def)
  then show ?thesis using True by (simp add: purge_deployment_def)
next
  case False
  then show ?thesis by (auto simp: reap_if_idle_def idle_since_def[symmetric] ret_def)
qed

lemma reap_deployed_eq:
  assumes "distinct (map fst ds)" "fst ` set ds \<inter> set seen = {}"
  shows "\<exists>w'. reap_deployed env cl (w_now w) ttl ds (seen, reaped, None) w =
      (Inr (rev (map fst ds) @ seen, reaped @ map fst (filter (reapable w ttl) ds), None), w') \<and>
    (\<forall>e. \<not> list_ex (\<lambda>(x, t). x = e \<and> reapable w ttl (x, t)) ds \<longrightarrow> same_for e w w') \<and>
    (\<forall>e. list_ex (\<lambda>(x, t). x = e \<and> reapable w ttl (x, t)) ds \<longrightarrow> mget (sd_deployments (w_sched w')) e = None) \<and>
    set (sd_deployments (w_sched w')) \<subseteq> set (sd_deployments (w_sched w))"
  using assms
proof (induction ds arbitrary: w seen reaped)
  case Nil
  then show ?case by (simp add: ret_def)
next
  case (Cons d ds)
  obtain x t where d: "d = (x, t)" by (cases d)
  obtain w1 where w1: "reap_if_idle env x cl t (w_now w) ttl w = (Inr (reapable w ttl (x, t)), w1)"
    "\<not> reapable w ttl (x, t) \<longrightarrow> w1 = w" "reapable w ttl (x, t) \<longrightarrow> mget (sd_deployments (w_sched w1)) x = None"
    using reap_if_idle_eq by blast
  have same: "same_for e w w1" if "e \<noteq> x" for e
    by (rule keepsD[OF sf.keeps_reap same_for_refl w1(1)]) (use that in simp)
  have sub: "set (sd_deployments (w_sched w1)) \<subseteq> set (sd_deployments (w_sched w))"
    by (rule keepsD[OF sh.keeps_reap _ w1(1)]) simp_all
  have now: "w_now w1 = w_now w" using same[of "x + 1"] by (simp add: same_for_def)
  have reap: "reapable w1 ttl y = reapable w ttl y" if "y \<in> set ds" for y
    using that Cons.prems(1) same_for_reapable[OF same, of "fst y" ttl "snd y"] d by force
  then have flt: "filter (reapable w1 ttl) ds = filter (reapable w ttl) ds" by (intro filter_cong) auto
  have ex: "list_ex (\<lambda>(x, t). x = e \<and> reapable w1 ttl (x, t)) ds = list_ex (\<lambda>(x, t). x = e \<and> reapable w ttl (x, t)) ds" for e
    by (rule list_ex_cong) (use reap in \<open>auto simp del: reapable.simps\<close>)
  let ?acc = "(x # seen, if reapable w ttl (x, t) then reaped @ [x] else reaped, None)"
  have "reap_deployed env cl (w_now w) ttl (d # ds) (seen, reaped, None) w = reap_deployed env cl (w_now w1) ttl ds ?acc w1"
    using w1(1) Cons.prems(2) d now by (auto simp: attempt_def)
  moreover obtain w' where w': "reap_deployed env cl (w_now w1) ttl ds ?acc w1 =
      (Inr (rev (map fst ds) @ x # seen, (if reapable w ttl (x, t) then reaped @ [x] else reaped) @ map fst (filter (reapable w ttl) ds), None), w')"
    "\<forall>e. \<not> list_ex (\<lambda>(x, t). x = e \<and> reapable w ttl (x, t)) ds \<longrightarrow> same_for e w1 w'"
    "\<forall>e. list_ex (\<lambda>(x, t). x = e \<and> reapable w ttl (x, t)) ds \<longrightarrow> mget (sd_deployments (w_sched w')) e = None"
    "set (sd_deployments (w_sched w')) \<subseteq> set (sd_deployments (w_sched w1))"
    using Cons.IH[of "x # seen" w1 "if reapable w ttl (x, t) then reaped @ [x] else reaped"] Cons.prems d unfolding flt ex by auto
  moreover have notin: "\<not> list_ex (\<lambda>(y, t). y = x \<and> reapable w ttl (y, t)) ds" using Cons.prems(1) d by (force simp: list_ex_iff)
  moreover have "same_for e w w'" if "\<not> list_ex (\<lambda>(x, t). x = e \<and> reapable w ttl (x, t)) (d # ds)" for e
    using that w'(2) same[of e] w1(2) d by (cases "e = x") (auto intro: same_for_trans)
  moreover have "mget (sd_deployments (w_sched w')) x = None" if "reapable w ttl (x, t)"
    using w'(2) notin w1(3) that by (auto simp: same_for_def)
  ultimately show ?case using sub d by auto
qed

lemma deployed_executions_fst:
  "fst ` set (deployed_executions s cl) \<subseteq> fst ` set (sd_deployments s)"
  "(e, t) \<in> set (deployed_executions s cl) \<longleftrightarrow> (\<exists>m. (e, m) \<in> set (sd_deployments s) \<and> earliest (map snd (mvals m)) = Some t)"
  by (force simp: deployed_executions_def split: option.splits)+

lemma deployed_executions_distinct:
  assumes "wf_map (sd_deployments s)"
  shows "distinct (map fst (deployed_executions s cl))"
proof -
  let ?f = "\<lambda>(executionID :: int, scenarios :: (int, deploy_spec \<times> time) gomap). case earliest (map snd (mvals scenarios)) of None \<Rightarrow> [] | Some t \<Rightarrow> [(executionID, t)]"
  have fst: "fst ` set (concat (map ?f xs)) \<subseteq> fst ` set xs" for xs by (force split: option.splits)
  have "distinct (map fst xs) \<Longrightarrow> distinct (map fst (concat (map ?f xs)))" for xs
  proof (induction xs)
    case (Cons x xs)
    obtain a m where x: "x = (a, m)" by (cases x)
    have "a \<notin> fst ` set xs" using Cons.prems x by simp
    with fst[of xs] have "a \<notin> fst ` set (concat (map ?f xs))" by blast
    then show ?case using Cons x by (auto split: option.split)
  qed simp
  then show ?thesis using assms unfolding wf_map_def deployed_executions_def by blast
qed

lemma reap_seen: "fst ` set ds \<subseteq> set seen \<Longrightarrow> reap_deployed env cl now ttl ds (seen, r, err) = ret (seen, r, err)"
proof (induction ds)
  case (Cons d ds)
  then show ?case by (cases d) simp
qed simp

lemma reap_clusters_seen:
  "(\<And>cl. fst ` set (deployed_executions (w_sched w) cl) \<subseteq> set seen) \<Longrightarrow> reap_clusters env now ttl cls (seen, r, err) w = (Inr (seen, r, err), w)"
  by (induction cls) (simp_all add: reap_seen ret_def)

text \<open>
  C27. One reap pass removes exactly the engines that are idle: those of executions without an open
  run, without an active calibration and without activity for the given time (or, never stamped,
  deployed for that long). Of every other execution nothing changes, and the pass reports what it
  reaped and no error.
\<close>

theorem reap_idle_exact:
  assumes "0 < ttl" "wf_map (sd_deployments (w_sched w))" "cls \<noteq> []"
  defines "idle \<equiv> filter (reapable w ttl) (deployed_executions (w_sched w) (hd cls))"
  shows "\<exists>w'. reap_idle env ttl cls w = (Inr (sort (map fst idle), None), w') \<and>
    (\<forall>e. if e \<in> fst ` set idle then mget (sd_deployments (w_sched w')) e = None else same_for e w w')"
proof -
  obtain cl cls' where cls: "cls = cl # cls'" using assms(3) by (cases cls) auto
  let ?ds = "deployed_executions (w_sched w) cl"
  have ex: "list_ex (\<lambda>(x, t). x = e \<and> reapable w ttl (x, t)) ?ds \<longleftrightarrow> e \<in> fst ` set idle" for e
    unfolding idle_def cls by (auto simp: list_ex_iff image_iff simp del: reapable.simps)
  obtain w' where w': "reap_deployed env cl (w_now w) ttl ?ds ([], [], None) w = (Inr (rev (map fst ?ds), map fst idle, None), w')"
    "\<forall>e. e \<notin> fst ` set idle \<longrightarrow> same_for e w w'" "\<forall>e. e \<in> fst ` set idle \<longrightarrow> mget (sd_deployments (w_sched w')) e = None"
    "set (sd_deployments (w_sched w')) \<subseteq> set (sd_deployments (w_sched w))"
    using reap_deployed_eq[OF deployed_executions_distinct[OF assms(2)], of cl "[]" env cl w ttl "[]"] unfolding ex by (auto simp: idle_def cls)
  have "fst ` set (deployed_executions (w_sched w') cl') \<subseteq> set (rev (map fst ?ds))" for cl'
  proof
    fix e assume "e \<in> fst ` set (deployed_executions (w_sched w') cl')"
    then obtain t m where "(e, m) \<in> set (sd_deployments (w_sched w'))" "earliest (map snd (mvals m)) = Some t"
      by (auto simp: deployed_executions_fst(2))
    then have "(e, t) \<in> set ?ds" using w'(4) by (auto simp: deployed_executions_fst(2))
    then show "e \<in> set (rev (map fst ?ds))" by force
  qed
  from reap_clusters_seen[OF this] have "reap_clusters env (w_now w) ttl cls ([], [], None) w = (Inr (rev (map fst ?ds), map fst idle, None), w')"
    by (simp add: cls call_Inr[where m = "reap_deployed env cl (w_now w) ttl ?ds ([], [], None)" and s = w, OF w'(1)])
  then show ?thesis using assms(1) w'(2,3) by (simp add: reap_idle_def timed_def call_def ret_def)
qed

theorem reap_idle_exact_witness:
  "\<exists>w'. reap_idle demo_env 50 [''''] (ready_world []) = (Inr ([5], None), w') \<and> mget (sd_deployments (w_sched w')) 5 = None"
proof -
  have wf: "wf_map (sd_deployments (w_sched (ready_world [])))" by (simp add: ready_world_def wf_map_def)
  have "filter (reapable (ready_world []) 50) (deployed_executions (w_sched (ready_world [])) '''') = [(5, 0)]"
    by (simp add: ready_world_def deployed_executions_def mvals_def earliest_def new_world_def idle_since_def last_activity_def
        new_catalog_def calibrating_def list_calibration_jobs_by_execution_def new_cal_store_def current_run_def new_run_store_def mget_Cons)
  with reap_idle_exact[OF _ wf, of 50 "['''']" demo_env] show ?thesis by (auto simp: split: if_splits)
qed

section \<open>Closing stranded runs\<close>

text \<open>The engines of the run have all finished while it stood open: none of them will report again.\<close>

definition stranded :: "world \<Rightarrow> int \<Rightarrow> bool" where
  "stranded w e \<longleftrightarrow> orphan_completions (w_runs w) e \<noteq> [] \<and> orphans_cover_profile (orphan_completions (w_runs w) e) (load_profile_for (w_catalog w) e)"

interpretation rc: finalize_invariant
    "\<lambda>v. rs_orphans (w_runs v) = O' \<and> ct_exec (w_catalog v) = X \<and> ct_executions (w_catalog v) = Y \<and> stores_healthy v \<and>
       (\<forall>r. mget (rs_run_history (w_runs v)) r \<noteq> None \<longleftrightarrow> r \<in> R)" "\<lambda>_. True" for O' X Y R
  by unfold_locales (auto simp: stores_healthy_def save_report_def discard_def save_threshold_results_def Let_def touch_activity_def
      stop_run_def split: option.splits)

lemma finalize_reports_other:
  assumes "finalize e r outc w = (Inr (), w')" "r' \<noteq> r"
  shows "report_of w' r' = report_of w r'"
  using assms(1)
proof (cases rule: finalize_InrD)
  case (1 h exe rep cat ths)
  have "rp_run_id rep = r" unfolding 1(3) by simp
  moreover have "w_reports w' = snd (save_report rep (w_reports w))" unfolding 1(5) by (simp add: close_run_reports)
  ultimately show ?thesis using assms(2) by (auto simp: report_of_def save_report_def split: option.split)
qed

text \<open>One open run is closed with a report exactly when it is stranded.\<close>

lemma reconcile_run_eq:
  assumes "current_run (w_runs w) (or_execution_id o') = Some (or_run_id o')" "0 < or_execution_id o'" "0 < or_run_id o'"
    "mget (rs_run_history (w_runs w)) (or_run_id o') \<noteq> None" "get_execution (w_catalog w) (or_execution_id o') = Inr exe"
    "stores_healthy w" "le_metrics_wired env"
  shows "\<exists>w'. reconcile_run env o' w = (Inr (), w') \<and>
    rs_orphans (w_runs w') = rs_orphans (w_runs w) \<and> ct_exec (w_catalog w') = ct_exec (w_catalog w) \<and>
    ct_executions (w_catalog w') = ct_executions (w_catalog w) \<and> stores_healthy w' \<and>
    (\<forall>r. mget (rs_run_history (w_runs w')) r \<noteq> None \<longleftrightarrow> mget (rs_run_history (w_runs w)) r \<noteq> None) \<and>
    (\<forall>e. current_run (w_runs w') e = (if e = or_execution_id o' \<and> stranded w e then None else current_run (w_runs w) e)) \<and>
    (\<forall>r. r \<noteq> or_run_id o' \<longrightarrow> report_of w' r = report_of w r) \<and>
    (if stranded w (or_execution_id o') then report_of w' (or_run_id o') \<noteq> None else report_of w' (or_run_id o') = report_of w (or_run_id o'))"
proof (cases "stranded w (or_execution_id o')")
  case False
  then have "reconcile_run env o' w = (Inr (), w)" by (auto simp: reconcile_run_def stranded_def ret_def)
  then show ?thesis using False assms(6) by auto
next
  case True
  let ?e = "or_execution_id o'" and ?r = "or_run_id o'"
  let ?m = "hook_finalize_orphaned env ?e ?r (orphan_completions (w_runs w) ?e)"
  let ?outc = "worst_outcome (OutcomeAborted # map (\<lambda>oc. case oc_exit_code oc of
       None \<Rightarrow> outcome_from_exit_code (-1) | Some c \<Rightarrow> outcome_from_exit_code c) (orphan_completions (w_runs w) ?e))"
  obtain h where h: "run_history (w_runs w) ?r = Inr h" using assms(4) by (auto simp: run_history_def split: option.split)
  obtain w1 where fin: "finalize ?e ?r ?outc w = (Inr (), w1)" using finalize_works[OF assms(6) h assms(5,2,3)] by blast
  then have m: "?m w = (Inr (), w1)" using assms(7) by (simp add: hook_finalize_orphaned_def finalize_orphaned_def)
  let ?w' = "w1\<lparr>w_runs := snd (stop_run (w_now w1) ?e (w_runs w1))\<rparr>"
  have run: "reconcile_run env o' w = (Inr (), ?w')" using True
    by (simp add: reconcile_run_def stranded_def call_Inr[where m = ?m and s = w, OF m] end_run_eq)
  let ?I = "\<lambda>v. rs_orphans (w_runs v) = rs_orphans (w_runs w) \<and> ct_exec (w_catalog v) = ct_exec (w_catalog w) \<and>
     ct_executions (w_catalog v) = ct_executions (w_catalog w) \<and> stores_healthy v \<and>
     (\<forall>r. mget (rs_run_history (w_runs v)) r \<noteq> None \<longleftrightarrow> r \<in> {r. mget (rs_run_history (w_runs w)) r \<noteq> None})"
  have "?I w1" by (rule keepsD[OF rc.keeps_finalize _ fin]) (use assms(6) in simp_all)
  then have same: "?I ?w'" by (rule rc.stopped[OF TrueI])
  have cur: "current_run (w_runs ?w') e = (if e = ?e then None else current_run (w_runs w) e)" for e
  proof (cases "e = ?e")
    case False
    have "current_run (w_runs w1) e = current_run (w_runs w) e" by (rule keepsD[OF om.keeps_finalize _ fin]) (use False in simp_all)
    then show ?thesis using False by (simp add: stop_run_current)
  qed (simp add: stop_run_current)
  have rep: "report_of ?w' r = report_of w1 r" for r by (simp add: report_of_def)
  have "report_of w1 ?r \<noteq> None"
  proof (cases "report_of w ?r")
    case None
    then show ?thesis using finalize_report[OF fin] by auto
  next
    case (Some x)
    from fin show ?thesis
    proof (cases rule: finalize_InrD)
      case (1 h' exe' rep cat ths)
      have "w_reports w1 = snd (save_report rep (w_reports w))" unfolding 1(5) by (simp add: close_run_reports)
      then show ?thesis using save_report_first_wins[of "w_reports w" ?r x rep] Some by (simp add: report_of_def)
    qed
  qed
  then show ?thesis using run same cur finalize_reports_other[OF fin] True
    by (intro exI[of _ ?w']) (simp add: rep)
qed

text \<open>What a reconciliation needs to be able to write a report for an open run.\<close>

definition reportable :: "world \<Rightarrow> open_run \<Rightarrow> bool" where
  "reportable w o' \<longleftrightarrow> current_run (w_runs w) (or_execution_id o') = Some (or_run_id o') \<and> 0 < or_execution_id o' \<and> 0 < or_run_id o' \<and>
     mget (rs_run_history (w_runs w)) (or_run_id o') \<noteq> None \<and> mget (ct_executions (w_catalog w)) (or_execution_id o') \<noteq> None"

lemma reconcile_runs_eq:
  assumes "distinct (map or_execution_id os)" "distinct (map or_run_id os)" "list_all (reportable w) os" "stores_healthy w" "le_metrics_wired env"
  shows "\<exists>w'. foreach os (reconcile_run env) w = (Inr (), w') \<and>
    (\<forall>e. current_run (w_runs w') e = (if e \<in> or_execution_id ` set os \<and> stranded w e then None else current_run (w_runs w) e)) \<and>
    (\<forall>r. r \<notin> or_run_id ` set os \<longrightarrow> report_of w' r = report_of w r) \<and>
    (\<forall>o' \<in> set os. if stranded w (or_execution_id o') then report_of w' (or_run_id o') \<noteq> None
       else report_of w' (or_run_id o') = report_of w (or_run_id o'))"
  using assms
proof (induction os arbitrary: w)
  case Nil
  then show ?case by (simp add: ret_def)
next
  case (Cons o' os)
  obtain exe where exe: "get_execution (w_catalog w) (or_execution_id o') = Inr exe"
    using Cons.prems(3) by (auto simp: reportable_def get_execution_def found_def)
  obtain w1 where w1: "reconcile_run env o' w = (Inr (), w1)"
    "rs_orphans (w_runs w1) = rs_orphans (w_runs w)" "ct_exec (w_catalog w1) = ct_exec (w_catalog w)"
    "ct_executions (w_catalog w1) = ct_executions (w_catalog w)" "stores_healthy w1"
    "\<forall>r. mget (rs_run_history (w_runs w1)) r \<noteq> None \<longleftrightarrow> mget (rs_run_history (w_runs w)) r \<noteq> None"
    "\<forall>e. current_run (w_runs w1) e = (if e = or_execution_id o' \<and> stranded w e then None else current_run (w_runs w) e)"
    "\<forall>r. r \<noteq> or_run_id o' \<longrightarrow> report_of w1 r = report_of w r"
    "if stranded w (or_execution_id o') then report_of w1 (or_run_id o') \<noteq> None else report_of w1 (or_run_id o') = report_of w (or_run_id o')"
    using reconcile_run_eq[OF _ _ _ _ exe Cons.prems(4,5)] Cons.prems(3) unfolding list.pred_inject(2) reportable_def by blast
  have str: "stranded w1 e = stranded w e" for e
    using w1(2,3) by (simp add: stranded_def orphan_completions_def load_profile_for_def)
  have "reportable w1 x" if "x \<in> set os" for x
  proof -
    have "or_execution_id x \<noteq> or_execution_id o'" "reportable w x" using that Cons.prems(1,3) by (auto simp: list_all_iff image_iff)
    then show ?thesis using w1(4,6,7) by (simp add: reportable_def)
  qed
  then have "list_all (reportable w1) os" by (simp add: list_all_iff)
  from Cons.IH[OF _ _ this w1(5) Cons.prems(5)] Cons.prems(1,2) obtain w' where w': "foreach os (reconcile_run env) w1 = (Inr (), w')"
    "\<forall>e. current_run (w_runs w') e = (if e \<in> or_execution_id ` set os \<and> stranded w e then None else current_run (w_runs w1) e)"
    "\<forall>r. r \<notin> or_run_id ` set os \<longrightarrow> report_of w' r = report_of w1 r"
    "\<forall>o' \<in> set os. if stranded w (or_execution_id o') then report_of w' (or_run_id o') \<noteq> None
       else report_of w' (or_run_id o') = report_of w1 (or_run_id o')" unfolding str by auto
  have new: "or_run_id o' \<notin> or_run_id ` set os" using Cons.prems(2) by simp
  have rep: "if stranded w (or_execution_id x) then report_of w' (or_run_id x) \<noteq> None else report_of w' (or_run_id x) = report_of w (or_run_id x)"
    if "x \<in> set (o' # os)" for x
  proof (cases "x = o'")
    case True
    then show ?thesis using w1(9) w'(3) new by simp
  next
    case False
    then have x: "x \<in> set os" using that by simp
    then have "or_run_id x \<noteq> or_run_id o'" using new by (metis image_eqI)
    with x show ?thesis using w'(4) w1(8) by simp
  qed
  have "foreach (o' # os) (reconcile_run env) w = (Inr (), w')" using w1(1) w'(1) by (simp add: call_def)
  then show ?case using rep w'(2,3) w1(7,8) by (intro exI[of _ w'] conjI) auto
qed

lemma open_runs_of:
  assumes "runs_ok s"
  shows "distinct (map or_execution_id (open_runs s))" "distinct (map or_run_id (open_runs s))"
    "\<And>e r. current_run s e = Some r \<longleftrightarrow> (\<exists>o' \<in> set (open_runs s). or_execution_id o' = e \<and> or_run_id o' = r)"
    "\<And>o'. o' \<in> set (open_runs s) \<Longrightarrow> mget (rs_run_history s) (or_run_id o') \<noteq> None"
proof -
  have wf: "wf_map (rs_current_run s)" and rec: "\<And>e r. mget (rs_current_run s) e = Some r \<longleftrightarrow> open_rec (rs_run_history s) e r"
    using assms by (auto simp: runs_ok_def)
  have ms: "mset (map f (open_runs s)) = mset (map (\<lambda>(e, r). f \<lparr>or_execution_id = e, or_run_id = r,
      or_started_time = (case mget (rs_run_history s) r of Some rec \<Rightarrow> rr_started_time rec | None \<Rightarrow> 0)\<rparr>) (rs_current_run s))" for f
    by (simp add: open_runs_def mset_map[symmetric] o_def case_prod_unfold del: mset_map) (simp add: case_prod_unfold multiset.map_comp o_def)
  have fst: "map (\<lambda>(e, r). e) (rs_current_run s) = map fst (rs_current_run s)" and snd: "map (\<lambda>(e, r). r) (rs_current_run s) = map snd (rs_current_run s)"
    by auto
  show "distinct (map or_execution_id (open_runs s))"
    using wf mset_eq_imp_distinct_iff[OF ms[of or_execution_id]] by (simp add: wf_map_def fst)
  have "distinct (map snd (rs_current_run s))"
    unfolding distinct_map
  proof (intro conjI inj_onI)
    show "distinct (rs_current_run s)" using wf by (simp add: wf_map_def distinct_map)
    fix x y assume xy: "x \<in> set (rs_current_run s)" "y \<in> set (rs_current_run s)" "snd x = snd y"
    from xy(1,2) have "open_rec (rs_run_history s) (fst x) (snd x)" "open_rec (rs_run_history s) (fst y) (snd y)"
      using wf unfolding rec[symmetric] by (simp_all add: mget_in_set)
    then show "x = y" using xy(3) open_rec_fun[of "rs_run_history s" "fst x" "snd x" "fst y"] by (auto simp: prod_eq_iff)
  qed
  then show "distinct (map or_run_id (open_runs s))"
    using mset_eq_imp_distinct_iff[OF ms[of or_run_id]] by (simp add: snd)
  show cur: "current_run s e = Some r \<longleftrightarrow> (\<exists>o' \<in> set (open_runs s). or_execution_id o' = e \<and> or_run_id o' = r)" for e r
    using wf by (force simp: current_run_def mget_in_set open_runs_def)
  show "mget (rs_run_history s) (or_run_id o') \<noteq> None" if "o' \<in> set (open_runs s)" for o'
  proof -
    have "current_run s (or_execution_id o') = Some (or_run_id o')" using that cur by blast
    then show ?thesis unfolding current_run_def rec by (auto simp: open_rec_def split: option.splits)
  qed
qed

text \<open>
  C16. One reconciliation pass closes every stranded run, with a report, and touches no other: a run
  whose engines all finished while it stood open loses its marker and gets its report in this pass;
  a run with a shard still unaccounted for keeps its marker and whatever report it had.
\<close>

theorem reconcile_closes_stranded:
  assumes "runs_ok (w_runs w)" "stores_healthy w" "le_metrics_wired env"
    "\<forall>e r. current_run (w_runs w) e = Some r \<longrightarrow> 0 < e \<and> 0 < r \<and> mget (ct_executions (w_catalog w)) e \<noteq> None"
  shows "\<exists>w'. reconcile env w = (Inr (), w') \<and>
    (\<forall>e. case current_run (w_runs w) e of None \<Rightarrow> current_run (w_runs w') e = None
       | Some r \<Rightarrow> if stranded w e then current_run (w_runs w') e = None \<and> report_of w' r \<noteq> None
                   else current_run (w_runs w') e = Some r \<and> report_of w' r = report_of w r)"
proof -
  let ?os = "open_runs (w_runs w)"
  note os = open_runs_of[OF assms(1)]
  have "reportable w o'" if "o' \<in> set ?os" for o'
  proof -
    have "current_run (w_runs w) (or_execution_id o') = Some (or_run_id o')" using that os(3) by blast
    with assms(4) os(4)[OF that] show ?thesis by (simp add: reportable_def)
  qed
  then have "list_all (reportable w) ?os" by (simp add: list_all_iff)
  from reconcile_runs_eq[OF os(1,2) this assms(2,3)] obtain w' where w': "foreach ?os (reconcile_run env) w = (Inr (), w')"
    "\<forall>e. current_run (w_runs w') e = (if e \<in> or_execution_id ` set ?os \<and> stranded w e then None else current_run (w_runs w) e)"
    "\<forall>o' \<in> set ?os. if stranded w (or_execution_id o') then report_of w' (or_run_id o') \<noteq> None
       else report_of w' (or_run_id o') = report_of w (or_run_id o')" by blast
  have "case current_run (w_runs w) e of None \<Rightarrow> current_run (w_runs w') e = None
       | Some r \<Rightarrow> if stranded w e then current_run (w_runs w') e = None \<and> report_of w' r \<noteq> None
                   else current_run (w_runs w') e = Some r \<and> report_of w' r = report_of w r" for e
  proof (cases "current_run (w_runs w) e")
    case None
    then show ?thesis using w'(2) by simp
  next
    case (Some r)
    then obtain o' where "o' \<in> set ?os" "or_execution_id o' = e" "or_run_id o' = r" using os(3) by blast
    then show ?thesis using Some w'(2,3) by auto
  qed
  then show ?thesis using w'(1) by (intro exI[of _ w']) (simp add: reconcile_def)
qed

text \<open>Run 7 of execution 5, whose only engine reported its end before the run was opened.\<close>

definition stranded_world :: world where
  "stranded_world = pushed_world\<lparr>
     w_catalog := (w_catalog pushed_world)\<lparr>ct_exec := [(5, [ready_entry\<lparr>en_engines := 1\<rparr>])]\<rparr>,
     w_runs := (w_runs pushed_world)\<lparr>rs_orphans := [(5, [((2, 0), \<lparr>oc_execution_id = 5, oc_scenario_id = 2, oc_shard_index = 0,
       oc_exit_code = Some 0, oc_finished_at = 0\<rparr>)])]\<rparr>\<rparr>"

theorem reconcile_closes_stranded_witness:
  "\<exists>w'. reconcile demo_env stranded_world = (Inr (), w') \<and> current_run (w_runs w') 5 = None \<and> report_of w' 7 \<noteq> None"
proof -
  have ok: "runs_ok (w_runs stranded_world)"
    by (auto simp: stranded_world_def pushed_world_def pushed_history_def runs_ok_def wf_map_def open_rec_def mget_Cons new_run_store_def)
  have healthy: "stores_healthy stranded_world" using pushed_world_simps(5) by (simp add: stranded_world_def stores_healthy_def)
  have cur: "current_run (w_runs stranded_world) e = (if e = 5 then Some 7 else None)" for e
    by (simp add: stranded_world_def pushed_world_def current_run_def mget_Cons)
  have "mget (ct_executions (w_catalog stranded_world)) 5 \<noteq> None"
    by (simp add: stranded_world_def pushed_world_def mget_Cons)
  then have opn: "\<forall>e r. current_run (w_runs stranded_world) e = Some r \<longrightarrow> 0 < e \<and> 0 < r \<and> mget (ct_executions (w_catalog stranded_world)) e \<noteq> None"
    unfolding cur by (auto split: if_splits)
  have str: "stranded stranded_world 5"
    by (simp add: stranded_def stranded_world_def orphan_completions_def mget_or_def mget_Cons mvals_def orphans_cover_profile_def
        load_profile_for_def profile_shards_def ready_entry_def)
  have "le_metrics_wired demo_env" by (simp add: demo_env_def)
  from reconcile_closes_stranded[OF ok healthy this opn] show ?thesis
  proof (elim exE conjE)
    fix w'
    assume run: "reconcile demo_env stranded_world = (Inr (), w')" and all: "\<forall>e. case current_run (w_runs stranded_world) e of
        None \<Rightarrow> current_run (w_runs w') e = None
      | Some r \<Rightarrow> if stranded stranded_world e then current_run (w_runs w') e = None \<and> report_of w' r \<noteq> None
                  else current_run (w_runs w') e = Some r \<and> report_of w' r = report_of stranded_world r"
    from spec[OF all, of 5] show ?thesis using run cur[of 5] str by simp
  qed
qed

end
