(* ===== verification/Control_Plane.thy ===== *)
theory Control_Plane
  imports Deploy_Load Lifecycle_Sweeps
begin

text \<open>
  The control plane as a step relation: deploys, triggers, stops, purges, pushed measurements and
  the background sweeps, in any order and with any results, with time passing in between. Every
  reachable state is well formed, and seen from one execution every step is a step of a small phase
  machine.
\<close>

section \<open>Steps\<close>

inductive cp_step :: "lifecycle_env \<Rightarrow> world \<Rightarrow> world \<Rightarrow> bool" for env where
  step_deploy: "cp_step env w (snd (deploy env minted e w))"
| step_trigger: "cp_step env w (snd (trigger env e w))"
| step_stop: "cp_step env w (snd (lifecycle_stop env e w))"
| step_purge: "cp_step env w (snd (lifecycle_purge env e w))"
| step_ingest: "cp_step env w (snd (ingest b w))"
| step_reap: "cp_step env w (snd (reap_idle env ttl cls w))"
| step_reconcile: "cp_step env w (snd (reconcile env w))"
| step_abandon: "cp_step env w (snd (reconcile_abandoned env after w))"
| step_drain: "cp_step env w (snd (drain_once env w))"
| step_project: "cp_step env w (snd (in_catalog (create_project t p) w))"
| step_scenario: "cp_step env w (snd (in_catalog (create_scenario t sc) w))"
| step_execution: "cp_step env w (snd (in_catalog (create_execution t exe) w))"
| step_configure: "cp_step env w (snd (in_catalog (store_execution_config e split es criteria) w))"
| step_ceiling: "cp_step env w (snd (in_ledger (set_ceiling tid cl n) w))"
| step_tick: "w_now w \<le> t \<Longrightarrow> cp_step env w (w\<lparr>w_now := t\<rparr>)"

definition reachable :: "lifecycle_env \<Rightarrow> world \<Rightarrow> world \<Rightarrow> bool" where
  "reachable env = (cp_step env)\<^sup>*\<^sup>*"

section \<open>Invariants of all steps\<close>

lemma metrics_purge_live: "same_but_live w (metrics_purge e w)"
  unfolding same_but_live_def metrics_purge_def seen_forget_def
  by (rule exI[of _ "mdel e (w_seen w)"], rule exI[of _ "w_tally w"],
      rule exI[of _ "(w_sink w)\<lparr>mk_deleted := mk_deleted (w_sink w) @ [e]\<rparr>"], rule exI[of _ "w_published w"]) simp

lemma forget_live: "same_but_live w (tally_forget r (seen_forget e w))"
  unfolding same_but_live_def tally_forget_def seen_forget_def
  by (rule exI[of _ "mdel e (w_seen w)"], rule exI[of _ "mdel r (w_tally w)"], rule exI[of _ "w_sink w"],
      rule exI[of _ "w_published w"]) simp

text \<open>An invariant the sweeps and the ingestion keep.\<close>

locale sweep_invariant = engine_invariant I "\<lambda>_. True" for I +
  assumes live: "I w \<Longrightarrow> same_but_live w v \<Longrightarrow> I v"
    and absorbed: "I w \<Longrightarrow> I (w\<lparr>w_progress := snd (absorb b (w_progress w))\<rparr>)"
    and orphaned: "I w \<Longrightarrow> I (w\<lparr>w_runs := snd (record_orphan_completion oc (w_runs w))\<rparr>)"
    and polled: "I w \<Longrightarrow> I (w\<lparr>w_sched := snd (sched_execution_status cl e refs (w_sched w))\<rparr>)"
begin

lemma keeps_purge: "keeps I (lifecycle_purge env e)"
proof -
  have "keeps I (modify (metrics_purge e))"
    by (rule keeps_modify, erule live) (rule metrics_purge_live)
  then show ?thesis unfolding lifecycle_purge_def hook_purge_def
    by (intro keeps_rules keeps_teardown_and_capture) (simp_all add: keeps_def purged)
qed

lemma keeps_poll: "keeps I (in_sched (sched_execution_status cl e refs))"
  by (simp add: keeps_def polled)

lemma keeps_sum_poll: "keeps I (sum_status cls e refs p d r)"
  by (induction cls arbitrary: p d r) (auto intro!: keeps_rules keeps_poll)

lemma keeps_poll_across: "keeps I (execution_status_across exe e refs)"
  unfolding execution_status_across_def
  by (cases "clusters exe" rule: remdups_adj.cases) (auto intro!: keeps_rules keeps_sum_poll keeps_poll)

lemma keeps_poll_every: "keeps I (require_every_cluster_ready exe e refs)"
  unfolding require_every_cluster_ready_def by (intro keeps_rules keeps_poll)

lemma keeps_ingest: "keeps I (ingest b)"
proof -
  have "keeps I (modify (fold (show_interval b r) ivs) :: unit app)" for r ivs
    by (rule keeps_modify, erule live) (rule show_intervals_live)
  moreover have "keeps I (modify (\<lambda>w. tally_forget r (seen_forget e w)) :: unit app)" for r e
    by (rule keeps_modify, erule live) (rule forget_live)
  ultimately show ?thesis unfolding ingest_def all_shards_finished_def finalize_completed_def Let_def
    by (intro keeps_rules keeps_finalize) (auto simp: keeps_def absorbed orphaned)
qed

lemma keeps_reap_deployed: "keeps I (reap_deployed env cl now ttl ds acc)"
proof (induction ds arbitrary: acc)
  case (Cons d ds)
  then show ?case by (cases d; cases acc) (auto intro!: keeps_rules keeps_reap)
qed (auto intro: keeps_rules)

lemma keeps_reap_clusters: "keeps I (reap_clusters env now ttl cls acc)"
  by (induction cls arbitrary: acc) (auto intro!: keeps_rules keeps_reap_deployed)

lemma keeps_reap_idle: "keeps I (reap_idle env ttl cls)"
  unfolding reap_idle_def case_prod_unfold by (intro keeps_rules keeps_reap_clusters)

lemma keeps_reconcile: "keeps I (reconcile env)"
  unfolding reconcile_def reconcile_run_def by (intro keeps_rules keeps_finalize_hooks keeps_end_run TrueI)

lemma keeps_abandon_each: "keeps I (abandon_each env after os acc)"
  by (induction os arbitrary: acc) (auto intro!: keeps_rules keeps_end_run keeps_poll_across keeps_finalize_hooks)

lemma keeps_abandoned: "keeps I (reconcile_abandoned env after)"
  unfolding reconcile_abandoned_def by (intro keeps_rules keeps_abandon_each)

lemma keeps_drain: "keeps I (drain_once env)"
  unfolding drain_once_def drain_campaign_def drain_execution_def by (intro keeps_rules keeps_stop TrueI)

end

text \<open>One that deploys and triggers keep as well.\<close>

locale start_invariant = sweep_invariant +
  assumes pended: "I w \<Longrightarrow> I (w\<lparr>w_catalog := snd (set_pending_correlation_id e c (w_catalog w))\<rparr>)"
    and deployed: "I w \<Longrightarrow> I (w\<lparr>w_sched := snd (deploy_scenario t spec (w_sched w))\<rparr>)"
    and started: "I w \<Longrightarrow> I (w\<lparr>w_runs := snd (start_run t e c (w_runs w))\<rparr>)"
    and marked: "I w \<Longrightarrow> I (w\<lparr>w_runs := snd (mark_scenario_running t e sid (w_runs w))\<rparr>)"
    and launched: "I w \<Longrightarrow> I (w\<lparr>w_runs := snd (start_launch t e ow n vu (w_runs w))\<rparr>)"
    and created: "reservation_validate r = None \<Longrightarrow> I w \<Longrightarrow> I (w\<lparr>w_ledger := snd (create_reservation r (w_ledger w))\<rparr>)"
begin

lemma keeps_upload: "keeps I (in_objects (upload k d))"
  by (simp add: keeps_def uploaded)

lemma keeps_deploy: "keeps I (deploy env minted e)"
proof -
  have "keeps I (in_runs (clear_orphan_completions e))" by (simp add: keeps_def forgotten)
  then show ?thesis unfolding deploy_def deploy_entry_def Let_def case_prod_unfold
    by (intro keeps_rules keeps_compile_shards uploaded) (auto simp: keeps_def pended deployed touched)
qed

lemma keeps_reserve: "keeps I (reserve (lifecycle_stop env) tid cl n ts te e)"
proof (rule keepsI)
  fix w assume I: "I w"
  obtain res w' where rsv: "reserve (lifecycle_stop env) tid cl n ts te e w = (res, w')" by fastforce
  from reserve_reaches[OF I TrueI rsv] show "I (snd (reserve (lifecycle_stop env) tid cl n ts te e w))"
    unfolding rsv by (cases res) (auto intro: created)
qed

lemma keeps_release: "keeps I (release e)"
  by (simp add: keeps_def release_def released)

lemma keeps_marks: "keeps I (mark_running e es errs)"
  by (induction es arbitrary: errs) (auto intro!: keeps_rules simp: keeps_def[of _ "in_runs _"] marked)

lemma keeps_trigger: "keeps I (trigger env e)"
proof -
  have "keeps I (reserve_run env exe e es)" for exe es
    unfolding reserve_run_def reserve_clusters_def by (intro keeps_rules keeps_reserve keeps_release)
  moreover have "keeps I (snapshot_configs r es)" for r es
    unfolding snapshot_configs_def case_prod_unfold by (intro keeps_rules keeps_upload)
  then have "keeps I (start_reserved env exe e es)" for exe es
    unfolding start_reserved_def after_marks_def record_start_def
    by (intro keeps_rules keeps_marks keeps_touch keeps_end_run TrueI) (auto simp: keeps_def started launched)
  moreover have "keeps I (trigger_checks e)"
    unfolding trigger_checks_def by (intro keeps_rules keeps_ensure_test_files keeps_poll_across keeps_poll_every)
  ultimately show ?thesis unfolding trigger_def case_prod_unfold by (intro keeps_rules)
qed

end

text \<open>And one that every step keeps.\<close>

locale control_invariant = start_invariant +
  assumes catalogued: "I w \<Longrightarrow> I (w\<lparr>w_catalog := snd (create_project t p (w_catalog w))\<rparr>)"
      "I w \<Longrightarrow> I (w\<lparr>w_catalog := snd (create_scenario t sc (w_catalog w))\<rparr>)"
      "I w \<Longrightarrow> I (w\<lparr>w_catalog := snd (create_execution t exe (w_catalog w))\<rparr>)"
      "I w \<Longrightarrow> I (w\<lparr>w_catalog := snd (store_execution_config e split es cs (w_catalog w))\<rparr>)"
    and capped: "I w \<Longrightarrow> I (w\<lparr>w_ledger := snd (set_ceiling tid cl n (w_ledger w))\<rparr>)"
    and ticked: "I w \<Longrightarrow> I (w\<lparr>w_now := t\<rparr>)"
begin

lemma keeps_step: "cp_step env w v \<Longrightarrow> I w \<Longrightarrow> I v"
proof (induction rule: cp_step.induct)
  case (step_tick w t)
  then show ?case by (simp add: ticked)
qed (use keeps_deploy keeps_trigger keeps_stop[OF TrueI] keeps_purge keeps_ingest keeps_reap_idle keeps_reconcile keeps_abandoned
    keeps_drain in \<open>simp_all add: keeps_def catalogued capped\<close>)

lemma keeps_reachable: "reachable env w v \<Longrightarrow> I w \<Longrightarrow> I v"
  unfolding reachable_def by (induction rule: rtranclp_induct) (auto intro: keeps_step)

end

section \<open>Well-formed states\<close>

definition progress_wf :: "progress \<Rightarrow> bool" where
  "progress_wf p \<longleftrightarrow> (\<forall>r. acc_wf (pn_acc (run_or_new p r)))"

text \<open>
  Run markers and history agree, open launches are the launches without an end, the catalog's ids
  are in order, every reservation is valid under its own id, the engine pools are one per execution
  and every accumulated report can be saved and restored.
\<close>

definition world_ok :: "world \<Rightarrow> bool" where
  "world_ok w \<longleftrightarrow> runs_ok (w_runs w) \<and> launches_ok (w_runs w) \<and> catalog_ok (w_catalog w) \<and> ledger_ok (w_ledger w) \<and>
     wf_map (sd_deployments (w_sched w)) \<and> progress_wf (w_progress w)"

lemma progress_wf_absorb: "progress_wf p \<Longrightarrow> progress_wf (snd (absorb b p))"
  by (auto simp: progress_wf_def absorb_def absorb_series_def Let_def run_or_new_def mget_or_def acc_wf_adds split: prod.split option.splits)

lemma progress_wf_discard: "progress_wf p \<Longrightarrow> progress_wf (snd (discard r p))"
  by (auto simp: progress_wf_def discard_def run_or_new_def mget_or_def acc_wf_new split: option.splits)

lemma launches_keeps:
  "keeps launches_ok (start_run now eid c)" "keeps launches_ok (stop_run now eid)" "keeps launches_ok (mark_scenario_running now eid sid)"
  "keeps launches_ok (clear_scenario_running eid sid)" "keeps launches_ok (record_orphan_completion oc)" "keeps launches_ok (clear_orphan_completions eid)"
  by (simp_all add: keeps_def launches_ok_def start_run_def stop_run_def mark_scenario_running_def clear_scenario_running_def
      record_orphan_completion_def clear_orphan_completions_def Let_def split: option.split)

text \<open>An operation on one store keeps a well-formed world if it keeps the store's own invariant.\<close>

lemma world_ok_runs: "keeps runs_ok m \<Longrightarrow> keeps launches_ok m \<Longrightarrow> world_ok w \<Longrightarrow> world_ok (w\<lparr>w_runs := snd (m (w_runs w))\<rparr>)"
  by (simp add: world_ok_def keeps_def)

lemma world_ok_catalog: "keeps catalog_ok m \<Longrightarrow> world_ok w \<Longrightarrow> world_ok (w\<lparr>w_catalog := snd (m (w_catalog w))\<rparr>)"
  by (simp add: world_ok_def keeps_def)

lemmas world_ok_run_ops = world_ok_runs[OF start_run_ok launches_keeps(1)] world_ok_runs[OF stop_run_ok launches_keeps(2)]
  world_ok_runs[OF run_store_keeps(1) launches_keeps(3)] world_ok_runs[OF run_store_keeps(2) launches_keeps(4)]
  world_ok_runs[OF run_store_keeps(3) launches_keeps(5)] world_ok_runs[OF run_store_keeps(4) launches_keeps(6)]
  world_ok_runs[OF run_store_keeps(5) start_launch_ok] world_ok_runs[OF run_store_keeps(6) finish_launch_ok]

lemmas world_ok_catalog_ops = catalog_keeps(1,3,11,17,18,19)[THEN world_ok_catalog]

lemma world_ok_other:
  "world_ok (w\<lparr>w_reports := a\<rparr>) = world_ok w" "world_ok (w\<lparr>w_notified := b\<rparr>) = world_ok w" "world_ok (w\<lparr>w_thresholds := c\<rparr>) = world_ok w"
  "world_ok (w\<lparr>w_objects := d\<rparr>) = world_ok w" "world_ok (w\<lparr>w_now := t\<rparr>) = world_ok w"
  by (simp_all add: world_ok_def)

lemma world_ok_sched: "wf_map (sd_deployments s) \<Longrightarrow> world_ok w \<Longrightarrow> world_ok (w\<lparr>w_sched := s\<rparr>)"
  by (simp add: world_ok_def)

lemma world_ok_ledger: "ledger_ok s \<Longrightarrow> world_ok w \<Longrightarrow> world_ok (w\<lparr>w_ledger := s\<rparr>)"
  by (simp add: world_ok_def)

lemma world_ok_progress: "progress_wf p \<Longrightarrow> world_ok w \<Longrightarrow> world_ok (w\<lparr>w_progress := p\<rparr>)"
  by (simp add: world_ok_def)

lemma world_okD: "world_ok w \<Longrightarrow> wf_map (sd_deployments (w_sched w))" "world_ok w \<Longrightarrow> ledger_ok (w_ledger w)" "world_ok w \<Longrightarrow> progress_wf (w_progress w)"
  by (simp_all add: world_ok_def)

lemma world_ok_live: "world_ok w \<Longrightarrow> same_but_live w v \<Longrightarrow> world_ok v"
  by (auto simp: same_but_live_def world_ok_def)

lemmas ledger_ok_ops = release_ok[unfolded keeps_def, rule_format] set_ceiling_ok[unfolded keeps_def, rule_format]

lemma deployments_wf:
  "wf_map (sd_deployments s) \<Longrightarrow> wf_map (sd_deployments (snd (purge_deployment cl e s)))"
  "wf_map (sd_deployments s) \<Longrightarrow> wf_map (sd_deployments (snd (deploy_scenario t spec s)))"
  "wf_map (sd_deployments s) \<Longrightarrow> wf_map (sd_deployments (snd (sched_execution_status cl e refs s)))"
  by (simp_all add: purge_deployment_def deploy_scenario_def sched_execution_status_def Let_def)

interpretation wo: control_invariant world_ok
  by unfold_locales (simp_all add: world_ok_other world_ok_run_ops world_ok_catalog_ops world_ok_sched world_ok_ledger world_ok_progress
      world_okD deployments_wf ledger_ok_ops create_reservation_ok progress_wf_absorb progress_wf_discard, erule world_ok_live)

section \<open>What is filed under a run\<close>

text \<open>Every stored report is valid, stored under its own run id, and of a run that is on record.\<close>

definition reports_ok :: "run_store \<Rightarrow> report_store \<Rightarrow> bool" where
  "reports_ok runs s \<longleftrightarrow> wf_map (rt_reports s) \<and>
     (\<forall>r rep. mget (rt_reports s) r = Some rep \<longrightarrow>
        rp_run_id rep = r \<and> report_validate rep = None \<and> mget (rs_run_history runs) r \<noteq> None)"

text \<open>Every stored grade is filed under its own run id.\<close>

definition results_ok :: "(int, threshold_result list) gomap \<Rightarrow> bool" where
  "results_ok m \<longleftrightarrow> wf_map m \<and> (\<forall>r rows. mget m r = Some rows \<longrightarrow> (\<forall>row \<in> set rows. tr_run_id row = r))"

text \<open>Reports and grades are filed under the runs they are about, and the object store has one object per key.\<close>

definition filed_ok :: "world \<Rightarrow> bool" where
  "filed_ok w \<longleftrightarrow> reports_ok (w_runs w) (w_reports w) \<and> results_ok (tk_results (w_thresholds w)) \<and> wf_map (os_objects (w_objects w))"

lemma reports_ok_save:
  assumes "reports_ok runs s" "run_history runs (rp_run_id rep) = Inr h"
  shows "reports_ok runs (snd (save_report rep s))"
proof -
  have "mget (rs_run_history runs) (rp_run_id rep) \<noteq> None" using assms(2) by (auto simp: run_history_def split: option.splits)
  then show ?thesis using assms(1) by (auto simp: reports_ok_def save_report_def report_validate_def split: option.split if_splits)
qed

lemma results_ok_mput: "results_ok m \<Longrightarrow> \<forall>row \<in> set rows. tr_run_id row = r \<Longrightarrow> results_ok (mput r rows m)"
  by (auto simp: results_ok_def)

lemma results_ok_group:
  assumes "results_ok m"
  shows "results_ok (fold (\<lambda>r m. let r = (if tr_evaluated_at r = 0 then r\<lparr>tr_evaluated_at := now\<rparr> else r)
      in mput (tr_run_id r) (mget_or [] m (tr_run_id r) @ [r]) m) rs m)"
  using assms
proof (induction rs arbitrary: m)
  case (Cons r rs)
  have "results_ok (mput (tr_run_id x) (mget_or [] m (tr_run_id x) @ [x]) m)" for x
  proof (rule results_ok_mput[OF Cons.prems], cases "mget m (tr_run_id x)")
    case (Some rows)
    then have "\<forall>row \<in> set rows. tr_run_id row = tr_run_id x" using Cons.prems unfolding results_ok_def by blast
    then show "\<forall>row \<in> set (mget_or [] m (tr_run_id x) @ [x]). tr_run_id row = tr_run_id x" using Some by (simp add: mget_or_def)
  qed (simp add: mget_or_def)
  then show ?case using Cons.IH by (simp add: Let_def)
qed simp

lemma results_ok_merge: "results_ok m \<Longrightarrow> results_ok g \<Longrightarrow> results_ok (fold (\<lambda>(run, rows). mput run rows) g m)"
proof (induction g arbitrary: m)
  case (Cons x g)
  obtain run rows where x: "x = (run, rows)" by (cases x)
  have one: "\<forall>row \<in> set rows. tr_run_id row = run" using Cons.prems(2) unfolding x results_ok_def by (auto simp: mget_Cons split: if_splits)
  have "mget g r = Some rs \<Longrightarrow> mget (x # g) r = Some rs" for r rs
    using Cons.prems(2) mget_SomeD[of g r rs] by (auto simp: x mget_Cons results_ok_def wf_map_def image_iff)
  then have "results_ok g" using Cons.prems(2) unfolding results_ok_def by (auto simp: wf_map_def)
  then show ?case using Cons.IH[OF results_ok_mput[OF Cons.prems(1) one]] by (simp add: x)
qed simp

lemma results_ok_save: "results_ok (tk_results s) \<Longrightarrow> results_ok (tk_results (snd (save_threshold_results t rs s)))"
proof -
  assume ok: "results_ok (tk_results s)"
  have "results_ok []" by (simp add: results_ok_def)
  from results_ok_merge[OF ok results_ok_group[OF this]] show ?thesis
    using ok by (simp add: save_threshold_results_def Let_def split: option.split)
qed

lemma objects_wf_upload: "wf_map (os_objects s) \<Longrightarrow> wf_map (os_objects (snd (upload k d s)))"
  by (simp add: upload_def split: option.split)

text \<open>No operation of the run store forgets a run.\<close>

lemma history_keeps:
  "keeps (\<lambda>s. mget (rs_run_history s) r \<noteq> None) (start_run now eid c)" "keeps (\<lambda>s. mget (rs_run_history s) r \<noteq> None) (stop_run now eid)"
  "keeps (\<lambda>s. mget (rs_run_history s) r \<noteq> None) (mark_scenario_running now eid sid)"
  "keeps (\<lambda>s. mget (rs_run_history s) r \<noteq> None) (clear_scenario_running eid sid)"
  "keeps (\<lambda>s. mget (rs_run_history s) r \<noteq> None) (record_orphan_completion oc)"
  "keeps (\<lambda>s. mget (rs_run_history s) r \<noteq> None) (clear_orphan_completions eid)"
  "keeps (\<lambda>s. mget (rs_run_history s) r \<noteq> None) (start_launch now eid ow n vu)"
  "keeps (\<lambda>s. mget (rs_run_history s) r \<noteq> None) (finish_launch now eid vu)"
  by (simp_all add: keeps_def start_run_def stop_run_def mark_scenario_running_def clear_scenario_running_def start_launch_def
      finish_launch_def record_orphan_completion_def clear_orphan_completions_def Let_def split: option.split)

lemma filed_ok_runs:
  assumes "\<And>r. keeps (\<lambda>s. mget (rs_run_history s) r \<noteq> None) m" "filed_ok w"
  shows "filed_ok (w\<lparr>w_runs := snd (m (w_runs w))\<rparr>)"
proof -
  have "reports_ok (snd (m (w_runs w))) (w_reports w)"
    using assms unfolding filed_ok_def reports_ok_def keeps_def by blast
  then show ?thesis using assms(2) by (simp add: filed_ok_def)
qed

lemma filed_ok_saved:
  "filed_ok w \<Longrightarrow> run_history (w_runs w) (rp_run_id rep) = Inr h \<Longrightarrow> filed_ok (w\<lparr>w_reports := snd (save_report rep (w_reports w))\<rparr>)"
  "filed_ok w \<Longrightarrow> filed_ok (w\<lparr>w_thresholds := snd (save_threshold_results t rs (w_thresholds w))\<rparr>)"
  "filed_ok w \<Longrightarrow> filed_ok (w\<lparr>w_objects := snd (upload k d (w_objects w))\<rparr>)"
  by (simp_all add: filed_ok_def reports_ok_save results_ok_save objects_wf_upload)

lemma filed_ok_other:
  "filed_ok (w\<lparr>w_notified := a\<rparr>) = filed_ok w" "filed_ok (w\<lparr>w_now := t\<rparr>) = filed_ok w" "filed_ok (w\<lparr>w_catalog := b\<rparr>) = filed_ok w"
  "filed_ok (w\<lparr>w_ledger := c\<rparr>) = filed_ok w" "filed_ok (w\<lparr>w_sched := d\<rparr>) = filed_ok w" "filed_ok (w\<lparr>w_progress := p\<rparr>) = filed_ok w"
  by (simp_all add: filed_ok_def)

lemma filed_ok_live: "filed_ok w \<Longrightarrow> same_but_live w v \<Longrightarrow> filed_ok v"
  by (auto simp: same_but_live_def filed_ok_def)

interpretation fo: control_invariant filed_ok
  by unfold_locales (simp_all add: filed_ok_other filed_ok_saved filed_ok_runs[OF history_keeps(1)] filed_ok_runs[OF history_keeps(2)]
      filed_ok_runs[OF history_keeps(3)] filed_ok_runs[OF history_keeps(4)] filed_ok_runs[OF history_keeps(5)]
      filed_ok_runs[OF history_keeps(6)] filed_ok_runs[OF history_keeps(7)] filed_ok_runs[OF history_keeps(8)], erule filed_ok_live)

text \<open>
  C5. Every state the control plane can reach from its initial one by deploys, triggers, stops, purges,
  pushed batches, the sweeps, creating projects, scenarios and executions, storing an execution's
  configuration, setting ceilings and the passing of time is well formed in every store these steps
  write: at most one run of an execution is open and the markers agree with the history, at most one
  launch of it is open, the catalog's ids are in order, every reservation is valid and stored under its
  own id, each execution has one pool of engines, the accumulated measurements of every run can be
  saved and restored without loss, every stored report is valid and of a run on record, every grade is
  filed under its run, and object keys are unique.
\<close>

theorem reachable_world_ok:
  assumes "reachable env (new_world t) w"
  shows "world_ok w \<and> filed_ok w"
proof (intro conjI wo.keeps_reachable[OF assms] fo.keeps_reachable[OF assms])
  show "world_ok (new_world t)"
    by (simp add: world_ok_def new_world_def new_run_store_ok ledger_ok_new new_scheduler_def catalog_ok_def ids_ok_def new_catalog_def
        progress_wf_def new_progress_def run_or_new_def mget_or_def acc_wf_new)
  show "filed_ok (new_world t)"
    by (simp add: filed_ok_def new_world_def reports_ok_def new_report_store_def results_ok_def new_threshold_store_def new_object_store_def)
qed

theorem reachable_world_ok_witness:
  "\<exists>w. reachable demo_env (new_world 0) w \<and> world_ok w \<and> filed_ok w \<and> ct_executions (w_catalog w) \<noteq> []"
proof -
  let ?w1 = "snd (in_catalog (create_execution 1 ready_execution) (new_world 0))"
  have "reachable demo_env (new_world 0) ?w1" unfolding reachable_def by (rule r_into_rtranclp) (rule step_execution)
  from reachable_world_ok[OF this] this show ?thesis
    by (intro exI[of _ ?w1]) (simp add: create_execution_def new_world_def new_catalog_def mput_fresh Let_def)
qed

section \<open>The phases of an execution\<close>

datatype abs_phase = AIdle | ADeployed | ARunning int

definition engines_up :: "world \<Rightarrow> int \<Rightarrow> bool" where
  "engines_up w e \<longleftrightarrow> mget_or [] (sd_deployments (w_sched w)) e \<noteq> []"

definition abs_phase_of :: "int \<Rightarrow> world \<Rightarrow> abs_phase" where
  "abs_phase_of e w = (case current_run (w_runs w) e of Some r \<Rightarrow> ARunning r | None \<Rightarrow> if engines_up w e then ADeployed else AIdle)"

text \<open>
  The contract: engines come up, a run with a new id starts on engines that are up, a run ends with
  its engines left or gone, engines go. Nothing starts on an idle execution and no run turns into
  another.
\<close>

inductive phase_step :: "int \<Rightarrow> abs_phase \<Rightarrow> abs_phase \<Rightarrow> bool" for n where
  ph_stay: "phase_step n p p"
| ph_up: "phase_step n AIdle ADeployed"
| ph_start: "n < r \<Longrightarrow> phase_step n ADeployed (ARunning r)"
| ph_end: "phase_step n (ARunning r) ADeployed"
| ph_purge: "phase_step n (ARunning r) AIdle"
| ph_down: "phase_step n ADeployed AIdle"

inductive_simps phase_step_simps: "phase_step n p q"

text \<open>What everything but a deploy and a trigger does to an execution: its run may end, its engines may go.\<close>

definition ending :: "int \<Rightarrow> world \<Rightarrow> world \<Rightarrow> bool" where
  "ending e w v \<longleftrightarrow> (current_run (w_runs v) e = current_run (w_runs w) e \<or> current_run (w_runs v) e = None) \<and>
     (engines_up v e \<longrightarrow> engines_up w e)"

interpretation en: sweep_invariant "ending e w" for e w
  by unfold_locales (auto simp: ending_def engines_up_def stop_run_def clear_scenario_running_def finish_launch_def current_run_def
      purge_deployment_def clear_orphan_completions_def record_orphan_completion_def sched_execution_status_def Let_def mget_or_def
      same_but_live_def split: option.splits if_splits)

interpretation nw: start_invariant "\<lambda>w. w_now w = t" for t
  by unfold_locales (auto simp: same_but_live_def)

interpretation sq: sweep_invariant "\<lambda>w. rs_run_seq (w_runs w) = n" for n
  by unfold_locales (auto simp: stop_run_def clear_scenario_running_def finish_launch_def clear_orphan_completions_def
      record_orphan_completion_def Let_def same_but_live_def split: option.splits)

lemma ending_refl [simp]: "ending e w w"
  by (simp add: ending_def)

lemma ending_phase: "ending e w v \<Longrightarrow> phase_step n (abs_phase_of e w) (abs_phase_of e v)"
  by (auto simp: ending_def abs_phase_of_def phase_step_simps split: option.splits)

lemma keeps_ending: "keeps (ending e w) m \<Longrightarrow> ending e w (snd (m w))"
  by (simp add: keeps_def)

lemma deploy_scenario_up:
  "mget_or [] (sd_deployments s) e \<noteq> [] \<Longrightarrow> mget_or [] (sd_deployments (snd (deploy_scenario t spec s))) e \<noteq> []"
proof -
  have "mput k v m \<noteq> []" for k :: int and v :: "deploy_spec \<times> time" and m by (simp add: mput_def update_nonempty)
  then show "mget_or [] (sd_deployments s) e \<noteq> [] \<Longrightarrow> ?thesis" by (simp add: deploy_scenario_def Let_def mget_or_def)
qed

text \<open>A deploy brings engines up and ends nothing.\<close>

lemma deploy_phase: "phase_step n (abs_phase_of e' w) (abs_phase_of e' (snd (deploy env minted e w)))"
proof -
  let ?I = "\<lambda>v. current_run (w_runs v) e' = current_run (w_runs w) e' \<and> (engines_up w e' \<longrightarrow> engines_up v e')"
  have "keeps ?I (in_sched (deploy_scenario t spec))" for t spec
    by (simp add: keeps_def engines_up_def deploy_scenario_up)
  moreover have "keeps ?I (in_runs (clear_orphan_completions e))" "keeps ?I (in_catalog m)" for m
    by (simp_all add: keeps_def engines_up_def clear_orphan_completions_def current_run_def)
  ultimately have "keeps ?I (deploy env minted e)"
    unfolding deploy_def deploy_entry_def Let_def case_prod_unfold
    by (intro keeps_rules keeps_compile_shards) (auto simp: engines_up_def)
  then have "?I (snd (deploy env minted e w))" by (simp add: keeps_def)
  then show ?thesis by (auto simp: abs_phase_of_def phase_step_simps split: option.splits)
qed

text \<open>No engines, no pool: a status over an execution without engines counts none.\<close>

lemma status_needs_engines:
  assumes "mget_or [] (sd_deployments s) e = []"
  shows "\<exists>st s'. sched_execution_status cl e refs s = (Inr st, s') \<and> xs_pool_size st = 0 \<and> sd_deployments s' = sd_deployments s"
proof -
  have "readiness s e ref = \<lparr>rd_scenario_id = sr_scenario_id ref, rd_engines_wanted = sr_shards ref, rd_engines_deployed = 0, rd_reachable = False\<rparr>" for ref
    using assms by (simp add: readiness_def last_deploy_def)
  then have "sum64 (map rd_engines_deployed (map (readiness s e) refs)) 0 = 0"
    by (simp add: sum64_0 o_def sum_list_triv) (simp add: i64_def)
  then show ?thesis by (simp add: sched_execution_status_def Let_def)
qed

lemma sum_status_needs_engines:
  assumes "\<not> engines_up w e" "sum_status cls e refs 0 d r w = (Inr (pool, d', r'), w')"
  shows "pool = 0"
  using assms
proof (induction cls arbitrary: w d r)
  case Nil
  then show ?case by (simp add: ret_def)
next
  case (Cons cl cls)
  obtain st s' where st: "sched_execution_status cl e refs (w_sched w) = (Inr st, s')" "xs_pool_size st = 0" "sd_deployments s' = sd_deployments (w_sched w)"
    using status_needs_engines[of "w_sched w" e cl refs] Cons.prems(1) by (auto simp: engines_up_def)
  have one: "wrap_err (AFanOut cl) (in_sched (sched_execution_status cl e refs)) w = (Inr st, w\<lparr>w_sched := s'\<rparr>)"
    using st(1) by (simp add: wrap_err_def store_op_eq)
  have up: "\<not> engines_up (w\<lparr>w_sched := s'\<rparr>) e" using Cons.prems(1) st(3) by (simp add: engines_up_def)
  have z: "i64 (0 + xs_pool_size st) = 0" using st(2) by (simp add: i64_def)
  from Cons.prems(2) show ?case unfolding sum_status.simps call_Inr[where m = "wrap_err (AFanOut cl) (in_sched (sched_execution_status cl e refs))" and s = w, OF one] z
    by (rule Cons.IH[OF up])
qed

lemma status_across_needs_engines:
  assumes "\<not> engines_up w e" "execution_status_across exe e refs w = (Inr st, w')"
  shows "xs_pool_size st = 0"
proof (cases "\<exists>cl. clusters exe = [cl]")
  case True
  then obtain cl where cl: "clusters exe = [cl]" by blast
  obtain st' s' where "sched_execution_status cl e refs (w_sched w) = (Inr st', s')" "xs_pool_size st' = 0"
    using status_needs_engines[of "w_sched w" e cl refs] assms(1) by (auto simp: engines_up_def)
  then show ?thesis using assms(2) cl by (simp add: execution_status_across_def store_op_eq)
next
  case False
  then have "execution_status_across exe e refs = call (sum_status (clusters exe) e refs 0 [] True) (\<lambda>(pool, deployed, reachable).
          ret \<lparr>xs_scenarios = map (\<lambda>ref. \<lparr>rd_scenario_id = sr_scenario_id ref, rd_engines_wanted = sr_shards ref,
                 rd_engines_deployed = mget_or 0 deployed (sr_scenario_id ref), rd_reachable = reachable\<rparr>) refs, xs_pool_size = pool\<rparr>)"
    by (cases "clusters exe" rule: remdups_adj.cases) (auto simp: execution_status_across_def)
  with assms(2) show ?thesis using sum_status_needs_engines[OF assms(1)]
    by (fastforce elim!: call_InrE simp: ret_def split: prod.splits)
qed

lemma keeps_ending_reserve: "keeps (ending e' w) (reserve (lifecycle_stop env) tid cl n ts te e)"
proof (rule keepsI)
  fix v assume I: "ending e' w v"
  obtain res v' where rsv: "reserve (lifecycle_stop env) tid cl n ts te e v = (res, v')" by fastforce
  from en.reserve_reaches[OF I TrueI rsv] show "ending e' w (snd (reserve (lifecycle_stop env) tid cl n ts te e v))"
    unfolding rsv by (cases res) (auto simp: ending_def engines_up_def)
qed

lemma keeps_seq_reserve: "keeps (\<lambda>w. rs_run_seq (w_runs w) = m) (reserve (lifecycle_stop env) tid cl n ts te e)"
proof (rule keepsI)
  fix v :: world assume I: "rs_run_seq (w_runs v) = m"
  obtain res v' where rsv: "reserve (lifecycle_stop env) tid cl n ts te e v = (res, v')" by fastforce
  from sq.reserve_reaches[OF I TrueI rsv]
  show "rs_run_seq (w_runs (snd (reserve (lifecycle_stop env) tid cl n ts te e v))) = m"
    unfolding rsv by (cases res) auto
qed

lemma keeps_ending_start:
  assumes "e' \<noteq> e"
  shows "keeps (ending e' w) (start_reserved env exe e es)"
proof -
  have "keeps (ending e' w) (in_runs (start_run t e c))" "keeps (ending e' w) (in_runs (start_launch t e ow n vu))"
    "keeps (ending e' w) (in_runs (mark_scenario_running t e sid))" "keeps (ending e' w) (in_objects m)" for t c ow n vu sid m
    using assms by (auto simp: keeps_def ending_def engines_up_def start_run_def start_launch_def mark_scenario_running_def current_run_def Let_def
        split: option.split)
  moreover from this have "keeps (ending e' w) (mark_running e es errs)" for errs
    by (induction es arbitrary: errs) (auto intro!: keeps_rules)
  ultimately show ?thesis
    unfolding start_reserved_def after_marks_def snapshot_configs_def record_start_def case_prod_unfold
    by (intro keeps_rules en.keeps_touch en.keeps_end_run TrueI)
qed

lemma start_phase:
  assumes "trigger_checks e w = (Inr (exe, es), v)" "ledger_ok (w_ledger w)" "reserve_run env exe e es v = (Inr (), v1)"
  shows "phase_step (rs_run_seq (w_runs w)) (abs_phase_of e w) (abs_phase_of e (snd (start_reserved env exe e es v1)))"
proof -
  note ready = trigger_ready[OF assms(1,2)]
  have "engines_up w e" if "0 < xs_pool_size st" "execution_status_across exe e (plan_refs es) w = (Inr st, w1)" for st w1
    using status_across_needs_engines[OF _ that(2)] that(1) by fastforce
  then have "engines_up w e" "current_run (w_runs w) e = None" using assms(1) by (auto elim: trigger_checks_InrD)
  then have abs: "abs_phase_of e w = ADeployed" by (simp add: abs_phase_of_def)
  have "only_sched w v" using keepsD[OF keeps_trigger_checks _ assms(1)] by simp
  then have "rs_run_seq (w_runs v) = rs_run_seq (w_runs w)" by (simp add: only_sched_fields)
  moreover have "keeps (\<lambda>w'. rs_run_seq (w_runs w') = rs_run_seq (w_runs w)) (reserve_run env exe e es)"
    unfolding reserve_run_def reserve_clusters_def release_def
    by (intro keeps_rules keeps_seq_reserve) (simp add: keeps_def)
  ultimately have seq: "rs_run_seq (w_runs v1) = rs_run_seq (w_runs w)" using assms(3) unfolding keeps_def by (metis snd_conv)
  have r1: "start_ready e w {} v1" using reserve_run_outcome[OF ready(1) assms(3)] by (auto simp: start_ready_def split: option.splits)
  show ?thesis
  proof (cases "rs_mark_running_err (w_runs v1)")
    case None
    from start_reserved_starts[OF r1 _ ready(2) None, of env exe] ready(3)
    obtain w' where "start_reserved env exe e es v1 = (Inr (), w')" "current_run (w_runs w') e = Some (rs_run_seq (w_runs v1) + 1)" by auto
    then have "abs_phase_of e (snd (start_reserved env exe e es v1)) = ARunning (rs_run_seq (w_runs w) + 1)"
      using seq by (simp add: abs_phase_of_def)
    then show ?thesis unfolding abs by (simp add: phase_step_simps)
  next
    case (Some x)
    from start_reserved_fails[OF r1 _ ready(2) Some, of env exe] ready(3)
    obtain err w' where "start_reserved env exe e es v1 = (Inl err, w')" "current_run (w_runs w') e = None" by auto
    then show ?thesis unfolding abs by (auto simp: abs_phase_of_def phase_step_simps)
  qed
qed

text \<open>A trigger starts at most the run of its execution, on engines that are up; of others it can only end runs.\<close>

lemma trigger_phase:
  assumes "world_ok w"
  shows "phase_step (rs_run_seq (w_runs w)) (abs_phase_of e' w) (abs_phase_of e' (snd (trigger env e w)))"
proof (cases "trigger_checks e w")
  case (Pair r v)
  have ok: "ledger_ok (w_ledger w)" using assms by (simp add: world_okD)
  have "keeps (ending e' w) (trigger_checks e)"
    unfolding trigger_checks_def by (intro keeps_rules keeps_ensure_test_files en.keeps_poll_across en.keeps_poll_every)
  from keepsD[OF this ending_refl Pair] have v: "ending e' w v" .
  show ?thesis
  proof (cases r)
    case (Inl x)
    then have "snd (trigger env e w) = v" using Pair by (simp add: trigger_def call_def)
    then show ?thesis using ending_phase[OF v] by simp
  next
    case (Inr p)
    obtain exe es where chk: "trigger_checks e w = (Inr (exe, es), v)" using Pair Inr by (cases p) auto
    note ready = trigger_ready[OF chk ok]
    obtain res v1 where res: "reserve_run env exe e es v = (res, v1)" by (cases "reserve_run env exe e es v")
    have "keeps (ending e' w) (reserve_run env exe e es)"
      unfolding reserve_run_def reserve_clusters_def release_def
      by (intro keeps_rules keeps_ending_reserve) (simp add: keeps_def en.released)
    from keepsD[OF this v res] have v1: "ending e' w v1" .
    show ?thesis
    proof (cases res)
      case (Inl x)
      then have "snd (trigger env e w) = v1" using res unfolding ready(6) by (simp add: call_def)
      then show ?thesis using ending_phase[OF v1] by simp
    next
      case (Inr u)
      then have end': "snd (trigger env e w) = snd (start_reserved env exe e es v1)" using res unfolding ready(6) by (simp add: call_def)
      show ?thesis
      proof (cases "e' = e")
        case False
        then show ?thesis using keeps_ending_start[OF False, of w env exe es] v1 unfolding end'
          by (intro ending_phase) (simp add: keeps_def)
      next
        case True
        show ?thesis unfolding end' True using start_phase[OF chk ok] res Inr by simp
      qed
    qed
  qed
qed

lemma step_phase:
  assumes "cp_step env w v" "world_ok w"
  shows "phase_step (rs_run_seq (w_runs w)) (abs_phase_of e w) (abs_phase_of e v)"
  using assms
proof (induction rule: cp_step.induct)
  case (step_deploy w minted e)
  then show ?case by (simp add: deploy_phase)
next
  case (step_trigger w e)
  then show ?case by (rule trigger_phase)
qed (auto intro!: ending_phase keeps_ending en.keeps_stop en.keeps_purge en.keeps_ingest en.keeps_reap_idle en.keeps_reconcile
    en.keeps_abandoned en.keeps_drain simp: keeps_def[of _ "in_catalog _"] keeps_def[of _ "in_ledger _"] ending_def[of _ _ "_\<lparr>w_now := _\<rparr>"] engines_up_def
    ending_def[of _ _ "snd (in_catalog _ _)"] ending_def[of _ _ "_\<lparr>w_catalog := _\<rparr>"] ending_def[of _ _ "_\<lparr>w_ledger := _\<rparr>"])

text \<open>
  C4. Seen from one execution, every step of the control plane is a step of the phase machine: whatever
  is called and in whatever order, no run of it starts unless its engines are up and no run is open,
  a run that starts has an id above every run before it, an open run never turns into another one,
  and an execution with nothing deployed does not start running.
\<close>

theorem control_plane_refines_phases:
  assumes "world_ok w0" "reachable env w0 w" "cp_step env w v"
  shows "phase_step (rs_run_seq (w_runs w)) (abs_phase_of e w) (abs_phase_of e v)"
  using step_phase[OF assms(3)] wo.keeps_reachable[OF assms(2,1)] .

lemma ready_world_ok: "world_ok (ready_world [])"
proof -
  have "ids_ok sc_id 2 [(2, zero_scenario\<lparr>sc_id := 2\<rparr>)]" "ids_ok ex_id 5 [(5, ready_execution)]"
    by (simp_all add: ids_ok_def mget_Cons ready_execution_def wf_map_def)
  then show ?thesis using ready_world_ledger[of "[]"]
    by (simp add: world_ok_def ready_world_def new_world_def new_run_store_ok new_scheduler_def catalog_ok_def new_catalog_def
        progress_wf_def new_progress_def run_or_new_def mget_or_def acc_wf_new) (simp add: ids_ok_def wf_map_def)
qed

theorem control_plane_refines_phases_witness:
  "let v = snd (trigger demo_env 5 (ready_world [])) in abs_phase_of 5 (ready_world []) = ADeployed \<and> abs_phase_of 5 v = ARunning 1 \<and>
     phase_step (rs_run_seq (w_runs (ready_world []))) (abs_phase_of 5 (ready_world [])) (abs_phase_of 5 v)"
proof -
  have "abs_phase_of 5 (ready_world []) = ADeployed" "abs_phase_of 5 (snd (trigger demo_env 5 (ready_world []))) = ARunning 1"
    by code_simp+
  moreover have "reachable demo_env (ready_world []) (ready_world [])" by (simp add: reachable_def)
  ultimately show ?thesis using control_plane_refines_phases[OF ready_world_ok _ step_trigger, of demo_env "ready_world []" 5 5]
    by (simp add: Let_def)
qed

end
