(* ===== verification/Firing.thy ===== *)
theory Firing
  imports Schedule_App Control_Plane
begin

text \<open>
  The loops of \<open>cmd/scheduler\<close> that fire schedules: claiming a due occurrence, deploying its
  execution and triggering it once its engines are ready, and the horizon pass. Waiting is the
  argument \<open>nap\<close>: what the rest of the system did while this process slept for the given time.
  The process's context is the argument \<open>cancelled\<close>: whether \<open>ctx.Err()\<close> is set at an instant.
\<close>

section \<open>Waiting for readiness\<close>

text \<open>\<open>errors.Is\<close> of the run errors, through the wrappers of the lifecycle.\<close>

fun error_is :: "run_err \<Rightarrow> app_err \<Rightarrow> bool" where
  "error_is r (ARun x) = (x = r)"
| "error_is r (AFanOut c e) = error_is r e"
| "error_is r (ATrigger es) = list_ex (error_is r) es"
| "error_is r (ANeverSettled i e) = error_is r e"
| "error_is r (ANeverTriggerable i e) = error_is r e"
| "error_is r _ = False"

definition readiness_race :: "app_err \<Rightarrow> bool" where
  "readiness_race err \<longleftrightarrow> error_is RunErrNotDeployed err \<or> error_is RunErrEnginesNotReady err"

definition triggerReadyPollInterval :: duration where "triggerReadyPollInterval = seconds 2"
definition triggerReadyTimeout :: duration where "triggerReadyTimeout = seconds 120"

type_synonym nap = "duration \<Rightarrow> world \<Rightarrow> world"

partial_function (option) trigger_when_ready ::
  "lifecycle_env \<Rightarrow> nap \<Rightarrow> (time \<Rightarrow> bool) \<Rightarrow> int \<Rightarrow> time \<Rightarrow> duration \<Rightarrow> world \<Rightarrow> ((app_err + unit) \<times> world) option" where
  "trigger_when_ready env nap cancelled executionID deadline poll w =
     (case trigger env executionID w of
        (Inr _, w') \<Rightarrow> Some (Inr (), w')
      | (Inl err, w') \<Rightarrow>
          if \<not> readiness_race err then Some (Inl err, w')
          else if deadline < w_now w' \<or> cancelled (w_now w') then Some (Inl err, w')
          else let poll = (if deadline - w_now w' < poll then deadline - w_now w' else poll)
            in trigger_when_ready env nap cancelled executionID deadline poll (nap poll w'))"

declare trigger_when_ready.simps [code]

definition fire_once :: "lifecycle_env \<Rightarrow> nap \<Rightarrow> (time \<Rightarrow> bool) \<Rightarrow> string + trace_context \<Rightarrow> world \<Rightarrow> world option" where
  "fire_once env nap cancelled minted w =
     (case claim_due (w_now w) w of
        (Inr (Some (occ, sc)), w') \<Rightarrow> (case deploy env minted (sl_execution_id sc) w' of
            (Inl _, w'') \<Rightarrow> Some w''
          | (Inr _, w'') \<Rightarrow> map_option snd (trigger_when_ready env nap cancelled (sl_execution_id sc) (w_now w'' + triggerReadyTimeout)
              triggerReadyPollInterval w''))
      | (_, w') \<Rightarrow> Some w')"

text \<open>What \<open>time.Sleep\<close> promises: it takes at least the given time, and the clock moves on.\<close>

definition nap_advances :: "nap \<Rightarrow> bool" where
  "nap_advances nap \<longleftrightarrow> (\<forall>d w. w_now w + d \<le> w_now (nap d w) \<and> w_now w < w_now (nap d w))"

lemma trigger_now: "w_now (snd (trigger env e w)) = w_now w"
  using nw.keeps_trigger[of "w_now w" env e] by (simp add: keeps_def)

lemma deploy_now: "w_now (snd (deploy env minted e w)) = w_now w"
  using nw.keeps_deploy[of "w_now w" env minted e] by (simp add: keeps_def)

text \<open>A trigger that succeeds leaves a run open.\<close>

lemma after_marks_run:
  assumes "after_marks env exe e es errs w = (Inr u, w')" "es \<noteq> []" "current_run (w_runs w) e \<noteq> None"
  shows "current_run (w_runs w') e \<noteq> None"
proof -
  have "errs = []" using assms(1) by (auto simp: after_marks_def fail_def elim!: call_InrE split: if_splits)
  then have "after_marks env exe e es errs w = call (readst (\<lambda>w. get_project (w_catalog w) (ex_project_id exe))) (\<lambda>proj. case proj of
      Inl _ \<Rightarrow> ret () | Inr p \<Rightarrow> besteffort (record_start env e (pr_owner p) (fan_out_engines (total_engines es) exe) (virtual_users es)) (ret ())) w"
    using assms(2) by (simp add: after_marks_def call_def ret_def)
  moreover have "keeps (\<lambda>w. current_run (w_runs w) e \<noteq> None) (in_runs (start_launch t e ow n vu))" for t ow n vu
    by (auto simp: keeps_def start_launch_def current_run_def Let_def split: option.split)
  then have "keeps (\<lambda>w. current_run (w_runs w) e \<noteq> None) (call (readst (\<lambda>w. get_project (w_catalog w) (ex_project_id exe))) (\<lambda>proj. case proj of
      Inl _ \<Rightarrow> ret () | Inr p \<Rightarrow> besteffort (record_start env e (pr_owner p) (fan_out_engines (total_engines es) exe) (virtual_users es)) (ret ())))"
    unfolding record_start_def by (intro keeps_rules)
  ultimately show ?thesis using assms(1,3) unfolding keeps_def by (metis snd_conv)
qed

lemma trigger_success:
  assumes "trigger env e w = (Inr u, w')"
  shows "current_run (w_runs w') e \<noteq> None"
proof -
  let ?I = "\<lambda>w. current_run (w_runs w) e \<noteq> None"
  obtain exe es v v1 where chk: "trigger_checks e w = (Inr (exe, es), v)" and st: "start_reserved env exe e es v1 = (Inr u, w')"
    using assms by (auto simp: trigger_def elim!: call_InrE)
  have es: "es \<noteq> []" using chk by (auto elim: trigger_checks_InrD)
  have marks: "keeps ?I (in_runs (mark_scenario_running t e sid))" "keeps ?I (in_objects m)" "keeps ?I (in_catalog c)" for t sid m c
    by (auto simp: keeps_def mark_scenario_running_def current_run_def Let_def split: option.split)
  then have "keeps ?I (mark_running e xs errs)" for xs errs by (induction xs arbitrary: errs) (auto intro!: keeps_rules)
  moreover have "keeps ?I (touch e)" "keeps ?I (snapshot_configs r es)" for r
    unfolding touch_def snapshot_configs_def case_prod_unfold by (intro keeps_rules marks)+
  moreover obtain corr v2 r v3 where run: "timed (\<lambda>now. in_runs (start_run now e corr)) v2 = (Inr r, v3)" and
    rest: "besteffort (touch e) (besteffort (snapshot_configs r es) (call (mark_running e es []) (after_marks env exe e es))) v3 = (Inr u, w')"
    using st by (auto simp: start_reserved_def elim!: call_InrE)
  moreover have "?I v3" using run by (auto simp: timed_def store_op_eq start_run_def current_run_def Let_def split: if_splits)
  ultimately obtain errs v4 where "?I v4" "after_marks env exe e es errs v4 = (Inr u, w')"
    by (auto simp: besteffort_def keeps_def elim!: call_InrE) (metis snd_conv)
  then show ?thesis using after_marks_run es by blast
qed

text \<open>
  The attempts of the loop: from one with a given poll interval to a later one, each failed on a readiness
  race, before the deadline and before the process was cancelled, and slept the interval, cut at the
  deadline.
\<close>

inductive waits :: "lifecycle_env \<Rightarrow> nap \<Rightarrow> (time \<Rightarrow> bool) \<Rightarrow> int \<Rightarrow> time \<Rightarrow> duration \<Rightarrow> world \<Rightarrow> world \<Rightarrow> bool"
  for env nap cancelled e deadline where
  at_once: "waits env nap cancelled e deadline poll w w"
| again: "trigger env e w = (Inl err, w1) \<Longrightarrow> readiness_race err \<Longrightarrow> w_now w1 \<le> deadline \<Longrightarrow> \<not> cancelled (w_now w1) \<Longrightarrow>
    p = min poll (deadline - w_now w1) \<Longrightarrow> waits env nap cancelled e deadline p (nap p w1) v \<Longrightarrow> waits env nap cancelled e deadline poll w v"

text \<open>
  C25. Waiting for engines ends: given a clock that moves, the retry loop returns what its last attempt at
  triggering returned. Every attempt before that one failed on a readiness race (not deployed, or
  engines not ready), no later than the deadline and with the process not cancelled, and was followed by
  a sleep. A success means that a run of the execution is open; an error that is not a readiness race
  is returned at once; a readiness race is returned only after the deadline or on cancellation.
\<close>

theorem trigger_when_ready_returns:
  assumes "nap_advances nap"
  shows "\<exists>r v w'. trigger_when_ready env nap cancelled e deadline poll w = Some (r, w') \<and>
    waits env nap cancelled e deadline poll w v \<and> trigger env e v = (r, w') \<and>
    (case r of Inr _ \<Rightarrow> current_run (w_runs w') e \<noteq> None | Inl err \<Rightarrow> readiness_race err \<longrightarrow> deadline < w_now w' \<or> cancelled (w_now w'))"
proof (induction "nat (deadline + 1 - w_now w)" arbitrary: w poll rule: less_induct)
  case less
  obtain r w1 where tr: "trigger env e w = (r, w1)" by fastforce
  then have now: "w_now w1 = w_now w" using trigger_now by (metis snd_conv)
  show ?case
  proof (cases "isl r \<and> readiness_race (projl r) \<and> \<not> (deadline < w_now w1 \<or> cancelled (w_now w1))")
    case True
    then obtain err where r: "r = Inl err" "readiness_race err" "w_now w1 \<le> deadline" "\<not> cancelled (w_now w1)" by (cases r) auto
    let ?poll = "min poll (deadline - w_now w1)"
    have "w_now w1 < w_now (nap ?poll w1)" using assms by (simp add: nap_advances_def)
    then have "nat (deadline + 1 - w_now (nap ?poll w1)) < nat (deadline + 1 - w_now w)" using r(3) now by linarith
    from less[OF this, of ?poll] obtain x v w' where IH: "trigger_when_ready env nap cancelled e deadline ?poll (nap ?poll w1) = Some (x, w')"
      "waits env nap cancelled e deadline ?poll (nap ?poll w1) v" "trigger env e v = (x, w')"
      "case x of Inr _ \<Rightarrow> current_run (w_runs w') e \<noteq> None | Inl err \<Rightarrow> readiness_race err \<longrightarrow> deadline < w_now w' \<or> cancelled (w_now w')" by blast
    have "(if deadline - w_now w1 < poll then deadline - w_now w1 else poll) = ?poll" by simp
    then have "trigger_when_ready env nap cancelled e deadline poll w = Some (x, w')"
      using r tr IH(1) by (subst trigger_when_ready.simps) (simp add: Let_def)
    then show ?thesis using IH(3,4) waits.again[where nap = nap and cancelled = cancelled, OF tr[unfolded r(1)] r(2-4) refl IH(2)] by blast
  next
    case False
    then have "trigger_when_ready env nap cancelled e deadline poll w = Some (r, w1)"
      using tr by (subst trigger_when_ready.simps) (auto split: sum.split)
    then show ?thesis using False tr trigger_success[of env e w]
      by (intro exI[of _ r] exI[of _ w] exI[of _ w1]) (auto intro: waits.at_once split: sum.split)
  qed
qed

text \<open>Engines that come up while the scheduler sleeps.\<close>

definition waking_nap :: nap where
  "waking_nap d w = (ready_world [])\<lparr>w_now := w_now w + max d 1\<rparr>"

theorem trigger_when_ready_returns_witness:
  "let w = (ready_world [])\<lparr>w_sched := new_scheduler\<rparr>;
       r = trigger_when_ready demo_env waking_nap (\<lambda>_. False) 5 (w_now w + triggerReadyTimeout) triggerReadyPollInterval w
   in (\<exists>w'. r = Some (Inr (), w') \<and> w_now w < w_now w' \<and> current_run (w_runs w') 5 \<noteq> None) \<and> readiness_race (projl (fst (trigger demo_env 5 w)))"
proof -
  let ?w = "(ready_world [])\<lparr>w_sched := new_scheduler\<rparr>"
  let ?r = "trigger_when_ready demo_env waking_nap (\<lambda>_. False) 5 (w_now ?w + triggerReadyTimeout) triggerReadyPollInterval ?w"
  have "nap_advances waking_nap" by (auto simp: nap_advances_def waking_nap_def max_def)
  from trigger_when_ready_returns[OF this, of demo_env "\<lambda>_. False" 5 "w_now ?w + triggerReadyTimeout" triggerReadyPollInterval ?w]
  obtain r w' where r: "?r = Some (r, w')"
    "case r of Inr _ \<Rightarrow> current_run (w_runs w') 5 \<noteq> None | Inl err \<Rightarrow> readiness_race err \<longrightarrow> w_now ?w + triggerReadyTimeout < w_now w' \<or> False"
    by (elim exE conjE) (rule that)
  have "map_option (\<lambda>(r, v). \<not> isl r \<and> w_now ?w < w_now v) ?r = Some True" by code_simp
  then have "\<not> isl r" "w_now ?w < w_now w'" using r(1) by auto
  moreover have "readiness_race (projl (fst (trigger demo_env 5 ?w)))" by code_simp
  ultimately show ?thesis using r by (cases r) (simp_all add: Let_def)
qed

section \<open>The horizon\<close>

interpretation ss: sweep_invariant "\<lambda>w. schedule_side w = v" for v
  by unfold_locales (auto simp: schedule_side_def same_but_live_def touch_activity_def)

interpretation fs: calendar_stopper "lifecycle_stop env" for env
  by unfold_locales (rule ss.keeps_stop[OF TrueI])

lemma activations_append:
  assumes "activations nxt t0 t = Some xs" "xs \<noteq> []" "t0 \<le> t1" "activations nxt t1 (last xs) = Some ys"
  shows "activations nxt t1 t = Some (xs @ ys)"
  using assms
proof (induction xs arbitrary: t)
  case (Cons x xs)
  have step: "nxt t = x \<and> nxt t \<noteq> 0 \<and> nxt t < t0 \<and> activations nxt t0 x = Some xs"
    using Cons.prems(1) by (subst (asm) activations.simps) (auto simp: Let_def bind_eq_Some_conv split: if_splits)
  have "activations nxt t1 x = Some (xs @ ys)"
    using Cons.IH[of x] Cons.prems(3,4) step by (cases "xs = []") auto
  then show ?case using step Cons.prems(3) by (subst activations.simps) (simp add: Let_def)
qed simp

text \<open>
  C23. The horizon pass of the scheduler returns, for a library whose expressions always step forward. To
  every active recurring schedule whose expression parses and whose execution exists and has a load
  profile it appends the activations of the expression from where it resumes (after the last known
  occurrence when that lies in the future, else from now on) to the new horizon, even when another
  schedule of the pass fails. If the last known occurrence lies in the future and the known ones are
  themselves the activations of an earlier window, the extended list is what stepping the expression
  once over the longer window gives: no gap. If the known instants are distinct and the pass does not
  run at exactly one of them, no instant appears twice (\<open>boundary_instant_repeated\<close> is the case that
  is excluded). All other schedules keep their occurrences: one-shot and inactive ones, and those
  whose expression, execution or profile is missing.
\<close>

theorem horizon_seamless:
  fixes w :: world
  defines "scs \<equiv> list_active_recurring_schedules (w_calendar w)" and "to \<equiv> add_days (w_now w) horizonDays"
  assumes "cron_advances cron" "calendar_ok (w_calendar w)"
  shows "\<exists>errs w'. extend_horizons cron (lifecycle_stop env) w = Some (errs, w') \<and> calendar_ok (w_calendar w') \<and>
    (\<forall>k. k \<notin> sl_id ` set scs \<longrightarrow> fire_times (w_calendar w') k = fire_times (w_calendar w) k) \<and>
    (\<forall>sc. sc \<in> set scs \<and> (cron (sl_recurrence sc) = None \<or> load_profile_for (w_catalog w) (sl_execution_id sc) = [] \<or>
       mget (ct_executions (w_catalog w)) (sl_execution_id sc) = None) \<longrightarrow> fire_times (w_calendar w') (sl_id sc) = fire_times (w_calendar w) (sl_id sc)) \<and>
    (\<forall>sc nxt. sc \<in> set scs \<and> cron (sl_recurrence sc) = Some nxt \<and> load_profile_for (w_catalog w) (sl_execution_id sc) \<noteq> [] \<and>
       mget (ct_executions (w_catalog w)) (sl_execution_id sc) \<noteq> None \<longrightarrow>
      (let old = fire_times (w_calendar w) (sl_id sc) in \<exists>new. fire_times (w_calendar w') (sl_id sc) = old @ new \<and>
        activations nxt to (resume_point old (w_now w)) = Some new \<and>
        (distinct old \<and> w_now w \<notin> set old \<longrightarrow> distinct (old @ new)) \<and>
        (\<forall>t t0. activations nxt t0 t = Some old \<and> old \<noteq> [] \<and> w_now w < last old \<and> t0 \<le> to \<longrightarrow> activations nxt to t = Some (old @ new))))"
proof -
  obtain errs w' where w': "extend_horizons cron (lifecycle_stop env) w = Some (errs, w')" "calendar_ok (w_calendar w')"
    "\<forall>sc \<in> set scs. \<exists>new. extension cron w sc (w_now w) to = Some new \<and> fire_times (w_calendar w') (sl_id sc) = fire_times (w_calendar w) (sl_id sc) @ new"
    "\<forall>k. k \<notin> sl_id ` set scs \<longrightarrow> fire_times (w_calendar w') k = fire_times (w_calendar w) k"
    using fs.extend_horizons_times[OF assms(3,4), of env] unfolding scs_def to_def by blast
  have "\<exists>new. fire_times (w_calendar w') (sl_id sc) = old @ new \<and> activations nxt to (resume_point old (w_now w)) = Some new \<and>
      (distinct old \<and> w_now w \<notin> set old \<longrightarrow> distinct (old @ new)) \<and>
      (\<forall>t t0. activations nxt t0 t = Some old \<and> old \<noteq> [] \<and> w_now w < last old \<and> t0 \<le> to \<longrightarrow> activations nxt to t = Some (old @ new))"
    if sc: "sc \<in> set scs" "cron (sl_recurrence sc) = Some nxt" "load_profile_for (w_catalog w) (sl_execution_id sc) \<noteq> []"
      "mget (ct_executions (w_catalog w)) (sl_execution_id sc) \<noteq> None" and old: "old = fire_times (w_calendar w) (sl_id sc)" for sc nxt old
  proof -
    let ?p = "resume_point old (w_now w)"
    obtain new where new: "activations nxt to ?p = Some new" "fire_times (w_calendar w') (sl_id sc) = old @ new"
      using bspec[OF w'(3) sc(1)] sc(2-4) old by (auto simp: extension_def get_execution_def found_def split: option.splits)
    have "sorted_wrt (<) (?p # new)"
      using activations_spec[of nxt to ?p] assms(3) sc(2) new(1) by (auto simp: cron_advances_def)
    moreover have "\<forall>t \<in> set old. t \<le> ?p" if "w_now w \<notin> set old"
    proof
      fix t assume "t \<in> set old"
      then show "t \<le> ?p" using that fire_times_sorted[of "w_calendar w" "sl_id sc"] unfolding old
        by (cases "fire_times (w_calendar w) (sl_id sc)" rule: rev_cases) (force simp: resume_point_def sorted_append)+
    qed
    ultimately have "distinct (old @ new)" if "distinct old" "w_now w \<notin> set old"
      using that by (fastforce simp: strict_sorted_iff)
    then show ?thesis using new activations_append[of nxt _ _ old to new] by (intro exI[of _ new]) (auto simp: resume_point_def)
  qed
  moreover have "fire_times (w_calendar w') (sl_id sc) = fire_times (w_calendar w) (sl_id sc)"
    if "sc \<in> set scs" "cron (sl_recurrence sc) = None \<or> load_profile_for (w_catalog w) (sl_execution_id sc) = [] \<or>
       mget (ct_executions (w_catalog w)) (sl_execution_id sc) = None" for sc
    using bspec[OF w'(3) that(1)] that(2) by (auto simp: extension_def get_execution_def found_def split: option.splits)
  ultimately show ?thesis using w' by (intro exI[of _ errs] exI[of _ w']) (simp add: Let_def)
qed

text \<open>
  C32. Creating a valid schedule succeeds and books it partially, provided its execution exists with a
  load profile of at least one engine and a positive window, none of its instants is the present one
  and the engine counts stay in range. It stores the schedule under a new id with one occurrence for
  every instant of the next seven days at which it fires, and touches no other schedule's. Each
  occurrence is judged in its turn, beside the reservations of those before it: when the engines of
  the tenant's overlapping and overrun reservations on the cluster and the profile's own stay within
  the ceiling the occurrence is reserved, otherwise rejected. The ledger grows by exactly one
  reservation per reserved occurrence, of the profile's engine count, from the instant over the
  profile's window, for the schedule's tenant and execution, on the cluster that the execution's
  \<open>Cluster\<close> field names (also when the execution fans out over several); nothing else in it changes.
\<close>

theorem schedule_create_books:
  assumes "cron_advances cron" "calendar_ok (w_calendar w)" "schedule_validate cron sc = None"
    "load_profile_for (w_catalog w) (sl_execution_id sc) = es" "get_execution (w_catalog w) (sl_execution_id sc) = Inr exe"
    "ledger_ok (w_ledger w)" "0 < total_engines es" "0 < occurrence_window es"
    "occurrences cron sc (w_now w) (add_days (w_now w) horizonDays) = Some (Inr ts)" "list_all (\<lambda>t. w_now w < t) ts"
    "ledger_small (w_ledger w) ((2 * int (length ts) + 1) * total_engines es)"
  shows "\<exists>i occs w'. schedule_create cron (lifecycle_stop env) sc w = Some (Inr \<lparr>sv_schedule = sc\<lparr>sl_id := i\<rparr>, sv_occurrences = occs\<rparr>, w') \<and>
    map oo_fire_time occs = ts \<and>
    mget (ca_schedules (w_calendar w)) i = None \<and> mget (ca_schedules (w_calendar w')) i = Some (sc\<lparr>sl_id := i\<rparr>) \<and> calendar_ok (w_calendar w') \<and>
    occurrences_for_schedule (w_calendar w') = (occurrences_for_schedule (w_calendar w))(i := occs) \<and>
    booked_in_turn sc (ex_cluster exe) (total_engines es) (occurrence_window es) w occs \<and>
    lg_reservations (w_ledger w') = lg_reservations (w_ledger w) @ bookings sc (ex_cluster exe) (total_engines es) (occurrence_window es) occs \<and>
    lg_ceilings (w_ledger w') = lg_ceilings (w_ledger w)"
proof -
  let ?n = "total_engines es" and ?win = "occurrence_window es" and ?cl = "ex_cluster exe"
  have es: "es \<noteq> []" using assms(7) by (auto simp: total_engines_def)
  from fs.schedule_create_occurrences[OF assms(1-4) es assms(5), of env] obtain i c occs w' where
    create: "schedule_create cron (lifecycle_stop env) sc w = Some (Inr \<lparr>sv_schedule = sc\<lparr>sl_id := i\<rparr>, sv_occurrences = occs\<rparr>, w')"
      "occurrences cron sc (w_now w) (add_days (w_now w) horizonDays) = Some (Inr (map oo_fire_time occs))"
      "reserve_each (lifecycle_stop env) (sc\<lparr>sl_id := i\<rparr>) ?cl ?n ?win (map oo_fire_time occs) (w\<lparr>w_calendar := c\<rparr>) = (Inr occs, w')"
      "mget (ca_schedules (w_calendar w)) i = None" "mget (ca_schedules (w_calendar w')) i = Some (sc\<lparr>sl_id := i\<rparr>)" "calendar_ok (w_calendar w')"
      "occurrences_for_schedule (w_calendar w') = (occurrences_for_schedule (w_calendar w))(i := occs)"
    by (elim exE conjE) (rule that)
  have ts: "map oo_fire_time occs = ts" using create(2) assms(9) by simp
  from reserve_each_books[of "w\<lparr>w_calendar := c\<rparr>" ?n ?win ts "lifecycle_stop env" "sc\<lparr>sl_id := i\<rparr>" ?cl] create(3)[unfolded ts] assms(6-8,10,11)
  have "lg_reservations (w_ledger w') = lg_reservations (w_ledger w) @ bookings (sc\<lparr>sl_id := i\<rparr>) ?cl ?n ?win occs"
    "lg_ceilings (w_ledger w') = lg_ceilings (w_ledger w)" "booked_in_turn (sc\<lparr>sl_id := i\<rparr>) ?cl ?n ?win (w\<lparr>w_calendar := c\<rparr>) occs"
    by auto
  moreover have "bookings (sc\<lparr>sl_id := i\<rparr>) ?cl ?n ?win occs = bookings sc ?cl ?n ?win occs" by (simp add: bookings_def)
  ultimately show ?thesis using create ts unfolding booked_in_turn_cong by (intro exI[of _ i] exI[of _ occs] exI[of _ w'] conjI) simp_all
qed

section \<open>A daily schedule\<close>

definition daily :: cron where
  "daily = (\<lambda>_. Some (\<lambda>t. (t div seconds 86400 + 1) * seconds 86400))"

definition daily_schedule :: schedule where
  "daily_schedule = \<lparr>sl_id = 1, sl_execution_id = 5, sl_tenant_id = 1, sl_kind = KindRecurring, sl_fire_at = None,
     sl_recurrence = ''@daily'', sl_active = True\<rparr>"

text \<open>The ready execution with the daily schedule and occurrences of it at given times.\<close>

definition scheduled_world :: "time list \<Rightarrow> world" where
  "scheduled_world ts = (ready_world [])\<lparr>w_calendar := new_calendar\<lparr>ca_schedule_seq := 1, ca_schedules := [(1, daily_schedule)],
     ca_occurrence_seq := int (length ts), ca_occurrences := map (\<lambda>(i, t). (i, \<lparr>oo_id = i, oo_schedule_id = 1, oo_fire_time = t,
       oo_status = OccurrenceReserved, oo_reservation_id = None\<rparr>)) (zip [1..int (length ts)] ts)\<rparr>\<rparr>"

lemma daily_advances: "cron_advances daily"
proof -
  have "t < (t div seconds 86400 + 1) * seconds 86400" for t :: int
    using pos_mod_bound[of "seconds 86400" t] by (simp add: seconds_def algebra_simps)
  then show ?thesis by (auto simp: cron_advances_def daily_def)
qed

lemma scheduled_world_ok: "calendar_ok (w_calendar (scheduled_world [86400000000000]))"
  by (simp add: calendar_ok_def occurrence_ok_def scheduled_world_def new_calendar_def wf_map_def mget_Cons daily_schedule_def)

theorem horizon_seamless_witness:
  "\<exists>errs w'. extend_horizons daily (lifecycle_stop demo_env) (scheduled_world [86400000000000]) = Some (errs, w') \<and>
     length (fire_times (w_calendar w') 1) = 7 \<and> distinct (fire_times (w_calendar w') 1)"
proof -
  let ?w = "scheduled_world [86400000000000]"
  have facts: "fire_times (w_calendar ?w) 1 = [86400000000000]" "w_now ?w = 100" "daily_schedule \<in> set (list_active_recurring_schedules (w_calendar ?w))"
    "load_profile_for (w_catalog ?w) 5 \<noteq> []" "mget (ct_executions (w_catalog ?w)) 5 \<noteq> None" "sl_id daily_schedule = 1" "sl_execution_id daily_schedule = 5"
    by code_simp+
  obtain nxt where nxt: "daily (sl_recurrence daily_schedule) = Some nxt" "nxt = (\<lambda>t. (t div seconds 86400 + 1) * seconds 86400)"
    by (simp add: daily_def)
  have "map_option length (activations nxt (add_days 100 horizonDays) (resume_point [86400000000000] 100)) = Some 6"
    unfolding nxt by code_simp
  then have len: "length new = 6" if "activations nxt (add_days 100 horizonDays) (resume_point [86400000000000] 100) = Some new" for new
    using that by simp
  let ?scs = "list_active_recurring_schedules (w_calendar ?w)"
  from horizon_seamless[OF daily_advances scheduled_world_ok, of demo_env] obtain errs w'
    where w': "extend_horizons daily (lifecycle_stop demo_env) ?w = Some (errs, w')"
      and all: "\<forall>sc nxt. sc \<in> set ?scs \<and> daily (sl_recurrence sc) = Some nxt \<and> load_profile_for (w_catalog ?w) (sl_execution_id sc) \<noteq> [] \<and>
          mget (ct_executions (w_catalog ?w)) (sl_execution_id sc) \<noteq> None \<longrightarrow>
        (let old = fire_times (w_calendar ?w) (sl_id sc) in \<exists>new. fire_times (w_calendar w') (sl_id sc) = old @ new \<and>
          activations nxt (add_days (w_now ?w) horizonDays) (resume_point old (w_now ?w)) = Some new \<and>
          (distinct old \<and> w_now ?w \<notin> set old \<longrightarrow> distinct (old @ new)) \<and>
          (\<forall>t t0. activations nxt t0 t = Some old \<and> old \<noteq> [] \<and> w_now ?w < last old \<and> t0 \<le> add_days (w_now ?w) horizonDays \<longrightarrow>
             activations nxt (add_days (w_now ?w) horizonDays) t = Some (old @ new)))"
    by (elim exE conjE) (rule that)
  note one = all[rule_format, of daily_schedule nxt, unfolded Let_def facts(1,2,6,7)]
  have "daily_schedule \<in> set ?scs \<and> daily (sl_recurrence daily_schedule) = Some nxt \<and> load_profile_for (w_catalog ?w) 5 \<noteq> [] \<and>
      mget (ct_executions (w_catalog ?w)) 5 \<noteq> None" using facts(3-5) nxt(1) by (intro conjI)
  from one[OF this] obtain new where new: "fire_times (w_calendar w') 1 = [86400000000000] @ new"
    "activations nxt (add_days 100 horizonDays) (resume_point [86400000000000] 100) = Some new"
    "distinct [86400000000000 :: int] \<and> 100 \<notin> set [86400000000000 :: int] \<longrightarrow> distinct ([86400000000000] @ new)"
    by (elim exE conjE) (rule that)
  then have "distinct ([86400000000000] @ new)" by (simp del: distinct_append)
  then show ?thesis using w' new(1) len[OF new(2)] by (intro exI[of _ errs] exI[of _ w'] conjI) simp_all
qed

theorem claim_due_exact_witness:
  "\<exists>occ w'. claim_due 86400000000000 (scheduled_world [86400000000000]) = (Inr (Some (occ, daily_schedule)), w') \<and>
     oo_status occ = OccurrenceFired \<and> calendar_ok (w_calendar w')"
proof -
  have "fst (claim_due 86400000000000 (scheduled_world [86400000000000])) \<noteq> Inr None" by code_simp
  with claim_due_exact[OF scheduled_world_ok, of 86400000000000]
  obtain occ sc w' old where r: "claim_due 86400000000000 (scheduled_world [86400000000000]) = (Inr (Some (occ, sc)), w')"
    "calendar_ok (w_calendar w')" "occ = old\<lparr>oo_status := OccurrenceFired\<rparr>"
    "mget (ca_schedules (w_calendar (scheduled_world [86400000000000]))) (oo_schedule_id occ) = Some sc"
    by (auto split: option.splits)
  then have "sc = daily_schedule" by (simp add: scheduled_world_def mget_Cons split: if_splits)
  then show ?thesis using r by simp
qed

definition week :: "time list" where
  "week = map (\<lambda>d. d * seconds 86400) [1..7]"

text \<open>The tenant may use three engines and another execution holds two of them over the first of the instants.\<close>

definition booked_world :: world where
  "booked_world = (scheduled_world [86400000000000])\<lparr>w_ledger := \<lparr>lg_seq = 1, lg_reservations = [(1, \<lparr>rv_id = 1, rv_tenant_id = 1, rv_cluster = '''',
     rv_engine_count = 2, rv_start = 0, rv_end = seconds 86500, rv_execution_id = 9\<rparr>)], lg_ceilings = [((1, ''''), 3)]\<rparr>\<rparr>"

theorem schedule_create_books_witness:
  "\<exists>i occs w'. schedule_create daily (lifecycle_stop demo_env) daily_schedule booked_world
       = Some (Inr \<lparr>sv_schedule = daily_schedule\<lparr>sl_id := i\<rparr>, sv_occurrences = occs\<rparr>, w') \<and> map oo_fire_time occs = week \<and>
     map oo_status occs = OccurrenceRejected # replicate 6 OccurrenceReserved \<and> length (lg_reservations (w_ledger w')) = 7"
proof -
  let ?w = booked_world and ?es = "load_profile_for (w_catalog booked_world) 5"
  let ?r = "schedule_create daily (lifecycle_stop demo_env) daily_schedule ?w"
  have exe: "get_execution (w_catalog ?w) 5 = Inr ready_execution" by code_simp
  have e: "sl_execution_id daily_schedule = 5" by (simp add: daily_schedule_def)
  have cal: "calendar_ok (w_calendar ?w)" using scheduled_world_ok by (simp add: booked_world_def)
  have hyps: "schedule_validate daily daily_schedule = None" "0 < total_engines ?es" "0 < occurrence_window ?es"
    "occurrences daily daily_schedule (w_now ?w) (add_days (w_now ?w) horizonDays) = Some (Inr week)" "list_all (\<lambda>t. w_now ?w < t) week"
    "ledger_small (w_ledger ?w) ((2 * int (length week) + 1) * total_engines ?es)" by code_simp+
  have ok: "ledger_ok (w_ledger ?w)" by (simp add: ledger_ok_def booked_world_def wf_map_def seconds_def mget_Cons reservation_validate_def)
  from schedule_create_books[OF daily_advances cal hyps(1) refl exe[folded e] ok hyps(2-6)[folded e], of demo_env]
  obtain i occs w' where c: "?r = Some (Inr \<lparr>sv_schedule = daily_schedule\<lparr>sl_id := i\<rparr>, sv_occurrences = occs\<rparr>, w')" "map oo_fire_time occs = week"
    by (elim exE conjE) (rule that)
  have "map_option (\<lambda>(r, v). (map_sum id (\<lambda>sv. map oo_status (sv_occurrences sv)) r, length (lg_reservations (w_ledger v)))) ?r
      = Some (Inr (OccurrenceRejected # replicate 6 OccurrenceReserved), 7)" by code_simp
  then show ?thesis using c by (intro exI[of _ i] exI[of _ occs] exI[of _ w']) simp
qed

text \<open>A pass at the very instant of the last known occurrence computes that instant once more.\<close>

lemma boundary_instant_repeated:
  "let w = (scheduled_world [86400000000000])\<lparr>w_now := 86400000000000\<rparr>
   in map_option (\<lambda>(_, w'). take 2 (fire_times (w_calendar w') 1)) (extend_horizons daily (lifecycle_stop demo_env) w)
      = Some [86400000000000, 86400000000000]"
  by code_simp

text \<open>A one-shot schedule for the eighth day is accepted without an occurrence, and no pass gives it one.\<close>

lemma late_one_shot_never_fires:
  "let sc = daily_schedule\<lparr>sl_kind := KindOneShot, sl_fire_at := Some (seconds 691200)\<rparr>;
       r = schedule_create daily (lifecycle_stop demo_env) sc (ready_world [])
   in map_option (\<lambda>(v, w). (map_sum id sv_occurrences v, map_option (\<lambda>(_, w'). ca_occurrences (w_calendar w'))
        (extend_horizons daily (lifecycle_stop demo_env) (w\<lparr>w_now := seconds 600000\<rparr>)))) r = Some (Inr [], Some [])"
  by code_simp

end
