(* ===== verification/Calibration_App.thy ===== *)
theory Calibration_App
  imports Firing Criteria
begin

text \<open>
  The calibration service of \<open>internal/app/calibrationapp\<close>: configuring a search, creating jobs,
  and driving a claimed job one step further with a real run (\<open>service.go\<close>, \<open>step.go\<close>).
  The step runner and the scenario fingerprint are interfaces of the service and are arguments here,
  and so is the text of an error. Loops that poll may not return, so operations that contain them
  have an option result; \<open>nap\<close> is what the rest of the system does during a sleep.
\<close>

section \<open>Operations that may not return\<close>

type_synonym 'a papp = "world \<Rightarrow> ((app_err + 'a) \<times> world) option"

definition once :: "'a app \<Rightarrow> 'a papp" where
  "once m w = Some (m w)"

definition pattempt :: "'a papp \<Rightarrow> (app_err + 'a \<Rightarrow> 'b papp) \<Rightarrow> 'b papp" where
  "pattempt m k w = Option.bind (m w) (\<lambda>(r, w'). k r w')"

definition pcall :: "'a papp \<Rightarrow> ('a \<Rightarrow> 'b papp) \<Rightarrow> 'b papp" where
  "pcall m k = pattempt m (\<lambda>r. case r of Inl e \<Rightarrow> once (fail e) | Inr x \<Rightarrow> k x)"

section \<open>One step\<close>

definition stepRampupSeconds :: int where "stepRampupSeconds = 5"
definition stepReportPollInterval :: duration where "stepReportPollInterval = seconds 2"
definition stepReportTimeout :: duration where "stepReportTimeout = seconds 300"

definition step_concurrency :: "rat \<Rightarrow> rat \<Rightarrow> int" where
  "step_concurrency requestedQPS latencyHintSec = concurrency_for requestedQPS latencyHintSec"

text \<open>The wait of the step runner: like the scheduler's, with a fixed poll interval and a wrapped error.\<close>

partial_function (option) step_trigger :: "lifecycle_env \<Rightarrow> nap \<Rightarrow> int \<Rightarrow> time \<Rightarrow> unit papp" where
  "step_trigger env nap executionID deadline w =
     (case trigger env executionID w of
        (Inr _, w') \<Rightarrow> Some (Inr (), w')
      | (Inl err, w') \<Rightarrow>
          if \<not> readiness_race err then Some (Inl err, w')
          else if deadline < w_now w' then Some (Inl (ANeverTriggerable executionID err), w')
          else step_trigger env nap executionID deadline (nap triggerReadyPollInterval w'))"

declare step_trigger.simps [code]

partial_function (option) await_report :: "nap \<Rightarrow> int \<Rightarrow> time \<Rightarrow> report papp" where
  "await_report nap runID deadline w =
     (case get_report (w_reports w) runID of
        Inr rpt \<Rightarrow> Some (Inr rpt, w)
      | Inl e \<Rightarrow>
          if e \<noteq> PortErrNotFound then Some (Inl (APort e), w)
          else if deadline < w_now w then Some (Inl (ANeverSettled runID (APort e)), w)
          else await_report nap runID deadline (nap stepReportPollInterval w))"

declare await_report.simps [code]

definition step_entry :: "entry \<Rightarrow> rat \<Rightarrow> int \<Rightarrow> rat \<Rightarrow> entry" where
  "step_entry base requestedQPS holdSeconds latencyHintSec =
     \<lparr>en_name = en_name base, en_scenario_id = en_scenario_id base, en_concurrency = step_concurrency requestedQPS latencyHintSec,
      en_rampup = stepRampupSeconds, en_engines = 1, en_throughput = int_of_f64 (math_ceil requestedQPS), en_duration = holdSeconds,
      en_csv_split = False, en_mode = '''', en_steps = 0\<rparr>"

text \<open>From the current run on: wait for its report, stop what still runs, stamp the activity.\<close>

definition settle_step :: "lifecycle_env \<Rightarrow> nap \<Rightarrow> int \<Rightarrow> int \<Rightarrow> report papp" where
  "settle_step env nap executionID runID w =
     pattempt (await_report nap runID (w_now w + stepReportTimeout)) (\<lambda>rpt.
     pattempt (once (lifecycle_stop env executionID)) (\<lambda>stopped.
       if (case stopped of Inl err \<Rightarrow> \<not> error_is RunErrNotRunning err | Inr _ \<Rightarrow> False) then once (fail (projl stopped))
       else once (besteffort (touch executionID) (case rpt of Inl e \<Rightarrow> fail e | Inr r \<Rightarrow> ret r)))) w"

definition run_step :: "lifecycle_env \<Rightarrow> nap \<Rightarrow> (world \<Rightarrow> string + trace_context) \<Rightarrow> int \<Rightarrow> rat \<Rightarrow> int \<Rightarrow> rat \<Rightarrow> report papp" where
  "run_step env nap mint executionID requestedQPS holdSeconds latencyHintSec =
     (if requestedQPS \<le> 0 then once (fail (ACalApp (ErrRequestedQPSInvalid requestedQPS)))
      else pcall (once (readst (\<lambda>w. load_profile_for (w_catalog w) executionID))) (\<lambda>entries.
        if length entries \<noteq> 1 then once (fail (ACalApp (ErrScenarioNotConfigured executionID)))
        else let step = step_entry (hd entries) requestedQPS holdSeconds latencyHintSec in
          pcall (once (check (map_option AProfile (entry_validate step)))) (\<lambda>_.
          pcall (once (in_catalog (store_load_profile executionID False [step]))) (\<lambda>_.
          pcall (\<lambda>w. once (deploy env (mint w) executionID) w) (\<lambda>_.
          pcall (\<lambda>w. step_trigger env nap executionID (w_now w + triggerReadyTimeout) w) (\<lambda>_.
          pcall (once (readst (\<lambda>w. current_run (w_runs w) executionID))) (\<lambda>cur. case cur of
            None \<Rightarrow> once (fail (ACalApp (ErrStepRunNotStarted executionID)))
          | Some runID \<Rightarrow> settle_step env nap executionID runID)))))))"

section \<open>Configuring a search\<close>

definition bound_entry :: "world \<Rightarrow> int \<Rightarrow> int \<Rightarrow> spec \<Rightarrow> app_err + entry" where
  "bound_entry w sourceExecutionID scenarioID sp =
     (case filter (\<lambda>e. en_scenario_id e = scenarioID) (load_profile_for (w_catalog w) sourceExecutionID) of
        [] \<Rightarrow> Inl (ACalApp (ErrSourceScenarioNotBound sourceExecutionID scenarioID))
      | e # _ \<Rightarrow>
          let bound = \<lparr>en_name = en_name e, en_scenario_id = scenarioID, en_concurrency = en_concurrency e, en_rampup = en_rampup e,
                 en_engines = 1, en_throughput = int_of_f64 (math_ceil (sp_seed_qps sp)), en_duration = max (sp_hold_seconds sp) (en_duration e),
                 en_csv_split = False, en_mode = '''', en_steps = 0\<rparr>
          in case entry_validate bound of Some err \<Rightarrow> Inl (AProfile err) | None \<Rightarrow> Inr bound)"

definition calibration_execution :: "string \<Rightarrow> int \<Rightarrow> string \<Rightarrow> spec \<Rightarrow> execution app" where
  "calibration_execution name projectID engine sp =
     (case execution_new name projectID of Inl e \<Rightarrow> fail (AExecution e)
      | Inr exe \<Rightarrow>
          let exe = exe\<lparr>ex_kind := KindCalibrateEngine, ex_engine := engine, ex_cpu := sp_cpu sp, ex_memory := sp_memory sp\<rparr>
          in call (readst (\<lambda>w. get_project (w_catalog w) projectID)) (\<lambda>p.
             case p of
               Inl e \<Rightarrow> if e \<noteq> PortErrNotFound then fail (APort e) else ret exe
             | Inr p \<Rightarrow> ret (exe\<lparr>ex_tenant_id := pr_tenant_id p\<rparr>)))"

definition calibration_create :: "string \<Rightarrow> int \<Rightarrow> string \<Rightarrow> spec \<Rightarrow> int \<Rightarrow> int \<Rightarrow> int app" where
  "calibration_create name projectID engine sp sourceExecutionID scenarioID =
     (if trim_space engine = '''' then fail (ACalApp ErrEngineRequired)
      else let sp = with_defaults sp in
        call (check (map_option ACalibration (spec_validate sp))) (\<lambda>_.
        call (check (map_option (\<lambda>_. ACriterion) (validate_criterion (sp_criterion sp)))) (\<lambda>_.
        call (readst (\<lambda>w. bound_entry w sourceExecutionID scenarioID sp)) (\<lambda>b. case b of
          Inl e \<Rightarrow> fail e
        | Inr bound \<Rightarrow>
            call (calibration_execution name projectID engine sp) (\<lambda>exe.
            call (check (map_option AExecution (execution_validate exe))) (\<lambda>_.
            call (timed (\<lambda>now. in_catalog (create_execution now exe))) (\<lambda>executionID.
            call (in_catalog (store_execution_config executionID False [bound] (split_criterion (sp_criterion sp)))) (\<lambda>_.
            call (in_calibs (set_calibration_bounds executionID \<lparr>bo_seed_qps = sp_seed_qps sp, bo_max_qps = sp_max_qps sp,
                bo_max_steps = sp_max_steps sp, bo_hold_seconds = sp_hold_seconds sp\<rparr>)) (\<lambda>_.
            ret executionID)))))))))"


definition spec_for :: "world \<Rightarrow> int \<Rightarrow> port_err + spec" where
  "spec_for w executionID =
     (case get_execution (w_catalog w) executionID of Inl e \<Rightarrow> Inl e
      | Inr exe \<Rightarrow> (case calibration_bounds_for (w_calibs w) executionID of Inl e \<Rightarrow> Inl e
        | Inr b \<Rightarrow> Inr \<lparr>sp_criterion = join_criterion (criteria_for (w_catalog w) executionID), sp_cpu = ex_cpu exe, sp_memory = ex_memory exe,
             sp_seed_qps = bo_seed_qps b, sp_max_qps = bo_max_qps b, sp_max_steps = bo_max_steps b, sp_hold_seconds = bo_hold_seconds b\<rparr>))"

definition calibration_trigger :: "int \<Rightarrow> int app" where
  "calibration_trigger executionID =
     call (fetch (\<lambda>w. get_execution (w_catalog w) executionID)) (\<lambda>exe.
     if ex_kind exe \<noteq> KindCalibrateEngine then fail (ACalApp (ErrExecutionNotCalibration executionID))
     else call (fetch (\<lambda>w. spec_for w executionID)) (\<lambda>sp.
       call (check (map_option ACalibration (spec_validate sp))) (\<lambda>_.
       call (readst (\<lambda>w. load_profile_for (w_catalog w) executionID)) (\<lambda>entries.
       if length entries \<noteq> 1 then fail (ACalApp (ErrScenarioNotConfigured executionID))
       else timed (\<lambda>now. in_calibs (create_calibration_job now executionID (en_scenario_id (hd entries))))))))"

definition trigger_for_scenario :: "int \<Rightarrow> int app" where
  "trigger_for_scenario scenarioID =
     call (readst (\<lambda>w. list_executions_by_scenario (w_catalog w) scenarioID)) (\<lambda>exes.
     case filter (\<lambda>exe. ex_kind exe = KindCalibrateEngine) exes of
       [] \<Rightarrow> fail (ACalApp (ErrNoCalibrationExecution scenarioID))
     | exe # _ \<Rightarrow> calibration_trigger (ex_id exe))"

definition calibration_get :: "world \<Rightarrow> int \<Rightarrow> port_err + calibration_job \<times> cal_step list" where
  "calibration_get w jobID = map_sum id (\<lambda>j. (j, steps_for (w_calibs w) jobID)) (get_calibration_job (w_calibs w) jobID)"

section \<open>Advancing a job\<close>

definition leaseFor :: duration where "leaseFor = seconds 1800"

type_synonym runner = "int \<Rightarrow> rat \<Rightarrow> int \<Rightarrow> rat \<Rightarrow> report papp"
type_synonym fingerprinter = "world \<Rightarrow> int \<Rightarrow> app_err + string"

definition observed_latency_seconds :: "report \<Rightarrow> rat" where
  "observed_latency_seconds rpt = mget_or 0 (rp_latency rpt) 95"

definition classify_report :: "spec \<Rightarrow> report \<Rightarrow> classification" where
  "classify_report sp rpt =
     (if short_of_volume rpt \<or> engine_impaired rpt then ClassificationEngineSaturated
      else if evaluate_criteria rpt (split_criterion (sp_criterion sp)) \<noteq> [] then ClassificationTargetSaturated
      else ClassificationClean)"

definition run_classified_step :: "runner \<Rightarrow> int \<Rightarrow> rat \<Rightarrow> spec \<Rightarrow> rat \<Rightarrow> (cal_step \<times> rat) papp" where
  "run_classified_step rn executionID requestedQPS sp latencyHintSec =
     pcall (rn executionID requestedQPS (sp_hold_seconds sp) latencyHintSec) (\<lambda>rpt.
     once (ret (\<lparr>cs_requested_qps = requestedQPS, cs_achieved_qps = ld_throughput (rp_achieved rpt), cs_classification = classify_report sp rpt\<rparr>,
       observed_latency_seconds rpt)))"

text \<open>The step of one tick, with the single retry of a saturated engine.\<close>

definition decide_step :: "runner \<Rightarrow> int \<Rightarrow> rat \<Rightarrow> spec \<Rightarrow> cal_step papp" where
  "decide_step rn executionID requestedQPS sp =
     pcall (run_classified_step rn executionID requestedQPS sp 0) (\<lambda>(step, latencySec).
     if cs_classification step = ClassificationEngineSaturated
     then pcall (run_classified_step rn executionID requestedQPS sp latencySec) (\<lambda>(step, _). once (ret step))
     else once (ret step))"

definition start_or_resume :: "spec \<Rightarrow> calibration_job \<Rightarrow> job \<times> rat" where
  "start_or_resume sp p =
     (if cj_phase p = CalPending then (case start sp of (j, a) \<Rightarrow> (j, ac_next_qps a))
      else (\<lparr>jb_spec = sp, jb_phase = cj_phase p, jb_step_count = cj_step_count p, jb_lo_requested = cj_lo_requested p,
             jb_lo_achieved = cj_lo_achieved p, jb_hi_requested = cj_hi_requested p, jb_result = cj_result p\<rparr>, cj_next_qps p))"

definition apply_domain_job :: "calibration_job \<Rightarrow> job \<Rightarrow> action \<Rightarrow> calibration_job" where
  "apply_domain_job p j a = p\<lparr>cj_phase := jb_phase j, cj_step_count := jb_step_count j, cj_lo_requested := jb_lo_requested j,
     cj_lo_achieved := jb_lo_achieved j, cj_hi_requested := jb_hi_requested j, cj_result := jb_result j, cj_next_qps := ac_next_qps a\<rparr>"

definition environment_impaired :: "world \<Rightarrow> int \<Rightarrow> job \<Rightarrow> bool" where
  "environment_impaired w jobID j \<longleftrightarrow>
     (case jb_result j of None \<Rightarrow> False | Some r \<Rightarrow> cr_saturated_by r = SaturatedByEngine \<and>
        list_all (\<lambda>st. cs_classification st \<noteq> ClassificationClean) (steps_for (w_calibs w) jobID))"

definition fail_job :: "(app_err \<Rightarrow> string) \<Rightarrow> int \<Rightarrow> app_err \<Rightarrow> unit app" where
  "fail_job msg jobID runErr = besteffort (in_calibs (mark_failed jobID (msg runErr))) (fail runErr)"

definition write_profile :: "fingerprinter \<Rightarrow> calibration_job \<Rightarrow> job \<Rightarrow> time \<Rightarrow> unit app" where
  "write_profile fp p j now =
     call (fetch (\<lambda>w. get_execution (w_catalog w) (cj_execution_id p))) (\<lambda>exe.
     call (readst (\<lambda>w. load_profile_for (w_catalog w) (cj_execution_id p))) (\<lambda>entries.
     if length entries \<noteq> 1 then fail (ACalApp (ErrScenarioNotConfigured (cj_execution_id p)))
     else call (readst (\<lambda>w. fp w (en_scenario_id (hd entries)))) (\<lambda>f. case f of Inl e \<Rightarrow> fail e
       | Inr fingerprint \<Rightarrow> in_calibs (upsert_capacity_profile
           \<lparr>cp_scenario_id = en_scenario_id (hd entries), cp_engine = ex_engine exe, cp_cpu = ex_cpu exe, cp_memory = ex_memory exe,
            cp_per_pod_qps = cr_per_pod_qps (the (jb_result j)), cp_saturated_by = cr_saturated_by (the (jb_result j)),
            cp_scenario_fingerprint = fingerprint, cp_calibrated_at = now, cp_job_id = cj_id p\<rparr>))))"

definition conclude :: "fingerprinter \<Rightarrow> (app_err \<Rightarrow> string) \<Rightarrow> time \<Rightarrow> calibration_job \<Rightarrow> job \<Rightarrow> unit app" where
  "conclude fp msg now p j =
     (if jb_phase j \<noteq> CalDone then ret ()
      else call (readst (\<lambda>w. environment_impaired w (cj_id p) j)) (\<lambda>impaired.
        if impaired then fail_job msg (cj_id p) (ACalApp ErrEnvironmentImpaired) else write_profile fp p j now))"

definition advance_claimed :: "runner \<Rightarrow> fingerprinter \<Rightarrow> (app_err \<Rightarrow> string) \<Rightarrow> time \<Rightarrow> calibration_job \<Rightarrow> unit papp" where
  "advance_claimed rn fp msg now p =
     pattempt (once (fetch (\<lambda>w. spec_for w (cj_execution_id p)))) (\<lambda>r. case r of
       Inl e \<Rightarrow> once (fail_job msg (cj_id p) e)
     | Inr sp \<Rightarrow> (case start_or_resume sp p of (j, requestedQPS) \<Rightarrow>
         pattempt (decide_step rn (cj_execution_id p) requestedQPS sp) (\<lambda>r. case r of
           Inl e \<Rightarrow> once (fail_job msg (cj_id p) e)
         | Inr step \<Rightarrow> (case next_step j step of (j', a') \<Rightarrow>
             pcall (once (in_calibs (record_step (cj_id p) step (apply_domain_job p j' a')))) (\<lambda>_.
             once (conclude fp msg now p j'))))))"

text \<open>\<open>AdvanceOne\<close>: whether a job was found, and the error if there was one.\<close>

definition advance_one :: "runner option \<Rightarrow> fingerprinter option \<Rightarrow> (app_err \<Rightarrow> string) \<Rightarrow> time \<Rightarrow> world \<Rightarrow>
    ((bool \<times> app_err option) \<times> world) option" where
  "advance_one rn fp msg now w =
     (case (rn, fp) of (Some rn, Some fp) \<Rightarrow>
        (case in_calibs (claim_next_step now leaseFor) w of
           (Inl e, w') \<Rightarrow> Some ((False, Some e), w')
         | (Inr None, w') \<Rightarrow> Some ((False, None), w')
         | (Inr (Some p), w') \<Rightarrow> map_option (\<lambda>(r, v). ((True, case r of Inl e \<Rightarrow> Some e | Inr _ \<Rightarrow> None), v))
             (advance_claimed rn fp msg now p w'))
      | _ \<Rightarrow> Some ((False, Some (ACalApp ErrNotConfiguredForAdvance)), w))"

definition fan_out_for :: "fingerprinter option \<Rightarrow> world \<Rightarrow> profile_key \<Rightarrow> rat \<Rightarrow> app_err + fan_out_status \<times> int" where
  "fan_out_for fp w key targetQPS =
     (case fp of None \<Rightarrow> Inl (ACalApp ErrFingerprintNotConfigured)
      | Some fp \<Rightarrow> (case get_capacity_profile (w_calibs w) key of
          Inl e \<Rightarrow> if e = PortErrNotFound then Inr (fan_out None targetQPS '''') else Inl (APort e)
        | Inr p \<Rightarrow> (case fp w (fst key) of Inl e \<Rightarrow> Inl e | Inr f \<Rightarrow> Inr (fan_out (Some p) targetQPS f))))"

end
