(* ===== verification/Calibration_Search.thy ===== *)
theory Calibration_Search
  imports Calibration_App
begin

text \<open>
  A calibration job in the store follows the pure search: whatever the runs of its steps measure,
  the rows a tick writes are a state of the search over the recorded steps, and a capacity profile
  of the job is what those steps showed.
\<close>

section \<open>What a job's search reads\<close>







section \<open>Runs of steps\<close>














section \<open>The state of a job\<close>












section \<open>The search of a job\<close>


section \<open>Created searches can run\<close>

lemma join_criterion_nonempty: "split_criterion c \<noteq> [] \<Longrightarrow> join_criterion (split_criterion c) \<noteq> ''''"
proof -
  assume ne: "split_criterion c \<noteq> []"
  then obtain e es where es: "split_criterion c = e # es" by (cases "split_criterion c") auto
  have "e \<in> set (split_criterion c)" by (simp add: es)
  then have "e \<noteq> ''''" by (auto simp: split_criterion_def)
  then show ?thesis by (simp add: es join_criterion_def)
qed

definition stored_spec :: "spec \<Rightarrow> spec" where
  "stored_spec sp = (with_defaults sp)\<lparr>sp_criterion := join_criterion (split_criterion (sp_criterion (with_defaults sp)))\<rparr>"

lemma calibration_create_eq:
  assumes "calibration_create name pid eng sp src sc w = (r, w')"
  shows "case r of Inl _ \<Rightarrow> w' = w
    | Inr e \<Rightarrow> \<exists>exe bound. e = ct_coll_seq (w_catalog w) + 1 \<and> spec_validate (with_defaults sp) = None \<and>
        split_criterion (sp_criterion (with_defaults sp)) \<noteq> [] \<and> bound_entry w src sc (with_defaults sp) = Inr bound \<and>
        ex_kind exe = KindCalibrateEngine \<and> ex_engine exe = eng \<and> ex_cpu exe = sp_cpu (with_defaults sp) \<and> ex_memory exe = sp_memory (with_defaults sp) \<and>
        mget (ct_executions (w_catalog w')) e = Some exe \<and> load_profile_for (w_catalog w') e = stored_entries [bound] \<and>
        criteria_for (w_catalog w') e = split_criterion (sp_criterion (with_defaults sp)) \<and>
        mget (ca_bounds (w_calibs w')) e = Some \<lparr>bo_seed_qps = sp_seed_qps (with_defaults sp), bo_max_qps = sp_max_qps (with_defaults sp),
          bo_max_steps = sp_max_steps (with_defaults sp), bo_hold_seconds = sp_hold_seconds (with_defaults sp)\<rparr>"
proof -
  let ?sp = "with_defaults sp"
  define exe where "exe = calibration_execution name pid eng ?sp w"
  have exe: "snd exe = w \<and> (\<forall>x. fst exe = Inr x \<longrightarrow> ex_kind x = KindCalibrateEngine \<and> ex_engine x = eng \<and> ex_cpu x = sp_cpu ?sp \<and> ex_memory x = sp_memory ?sp)"
    unfolding exe_def calibration_execution_def
    by (cases "execution_new name pid") (auto simp: Let_def call_readst fail_def ret_def split: sum.split)
  show ?thesis
  proof (cases "trim_space eng = '''' \<or> spec_validate ?sp \<noteq> None \<or> validate_criterion (sp_criterion ?sp) \<noteq> None")
    case True
    then have "\<exists>e. calibration_create name pid eng sp src sc w = (Inl e, w)"
      by (cases "trim_space eng = ''''"; cases "spec_validate ?sp"; cases "validate_criterion (sp_criterion ?sp)")
        (simp_all add: calibration_create_def Let_def call_def fail_def ret_def)
    then show ?thesis using assms by auto
  next
    case False
    then have crit: "split_criterion (sp_criterion ?sp) \<noteq> []" by (auto simp: validate_criterion_def Let_def)
    have pre: "calibration_create name pid eng sp src sc w = (case bound_entry w src sc ?sp of Inl e \<Rightarrow> fail e
        | Inr bound \<Rightarrow> call (calibration_execution name pid eng ?sp) (\<lambda>exe.
            call (check (map_option AExecution (execution_validate exe))) (\<lambda>_.
            call (timed (\<lambda>now. in_catalog (create_execution now exe))) (\<lambda>executionID.
            call (in_catalog (store_execution_config executionID False [bound] (split_criterion (sp_criterion ?sp)))) (\<lambda>_.
            call (in_calibs (set_calibration_bounds executionID \<lparr>bo_seed_qps = sp_seed_qps ?sp, bo_max_qps = sp_max_qps ?sp,
                bo_max_steps = sp_max_steps ?sp, bo_hold_seconds = sp_hold_seconds ?sp\<rparr>)) (\<lambda>_.
            ret executionID)))))) w"
      using False by (simp add: calibration_create_def Let_def check_def call_ret call_readst)
    show ?thesis
    proof (cases "bound_entry w src sc ?sp")
      case (Inl e)
      then show ?thesis using assms pre by (auto simp: fail_def)
    next
      case (Inr bound)
      show ?thesis
      proof (cases "fst exe")
        case (Inl e)
        then have "calibration_execution name pid eng ?sp w = (Inl e, w)" using exe by (metis exe_def prod.collapse)
        then show ?thesis using assms pre Inr by (auto simp: call_def)
      next
        case x: (Inr x)
        then have cx: "calibration_execution name pid eng ?sp w = (Inr x, w)" using exe by (metis exe_def prod.collapse)
        show ?thesis
        proof (cases "execution_validate x")
          case (Some e)
          then show ?thesis using assms pre Inr cx by (auto simp: call_def check_def fail_def)
        next
          case None
          then show ?thesis using assms pre Inr cx x exe crit False
            by (auto simp: call_def check_def ret_def timed_def store_op_eq create_execution_def store_execution_config_def
                set_calibration_bounds_def Let_def load_profile_for_def criteria_for_def mget_or_def)
        qed
      qed
    qed
  qed
qed

text \<open>
  C33. A calibration is never born a dead shell: a creation that succeeds leaves an execution of the
  given engine and pod size, bound to the scenario of its source with one pod, whose search reads
  back as it was configured and can be triggered at once, for that scenario; one that fails leaves
  nothing behind.
\<close>

theorem created_calibration_triggers:
  "case calibration_create name pid eng sp src sc w of (Inl _, w') \<Rightarrow> w' = w
   | (Inr e, w') \<Rightarrow> spec_for w' e = Inr (stored_spec sp) \<and> map en_scenario_id (load_profile_for (w_catalog w') e) = [sc] \<and>
       map en_engines (load_profile_for (w_catalog w') e) = [1] \<and>
       (\<exists>i w''. calibration_trigger e w' = (Inr i, w'') \<and>
         map_option (\<lambda>p. (cj_execution_id p, cj_scenario_id p, cj_phase p)) (mget (ca_jobs (w_calibs w'')) i) = Some (e, sc, CalPending))"
proof -
  obtain r w' where c: "calibration_create name pid eng sp src sc w = (r, w')" by fastforce
  note eq = calibration_create_eq[OF c]
  show ?thesis
  proof (cases r)
    case (Inl e)
    then show ?thesis using eq c by simp
  next
    case (Inr e)
    then obtain exe bound where e: "spec_validate (with_defaults sp) = None" "split_criterion (sp_criterion (with_defaults sp)) \<noteq> []"
      "bound_entry w src sc (with_defaults sp) = Inr bound" "ex_kind exe = KindCalibrateEngine" "ex_cpu exe = sp_cpu (with_defaults sp)"
      "ex_memory exe = sp_memory (with_defaults sp)" "mget (ct_executions (w_catalog w')) e = Some exe"
      "load_profile_for (w_catalog w') e = stored_entries [bound]" "criteria_for (w_catalog w') e = split_criterion (sp_criterion (with_defaults sp))"
      "mget (ca_bounds (w_calibs w')) e = Some \<lparr>bo_seed_qps = sp_seed_qps (with_defaults sp), bo_max_qps = sp_max_qps (with_defaults sp),
          bo_max_steps = sp_max_steps (with_defaults sp), bo_hold_seconds = sp_hold_seconds (with_defaults sp)\<rparr>"
      using eq by auto
    have b: "en_scenario_id bound = sc" "en_engines bound = 1" using e(3) by (auto simp: bound_entry_def Let_def split: list.splits option.splits)
    have sp: "spec_for w' e = Inr (stored_spec sp)"
      using e(5-10) by (simp add: spec_for_def get_execution_def found_def calibration_bounds_for_def stored_spec_def)
    have "spec_validate (stored_spec sp) = None"
      using e(1) join_criterion_nonempty[OF e(2)] by (auto simp: stored_spec_def spec_validate_def split: if_splits)
    then have "\<exists>i w''. calibration_trigger e w' = (Inr i, w'') \<and>
         map_option (\<lambda>p. (cj_execution_id p, cj_scenario_id p, cj_phase p)) (mget (ca_jobs (w_calibs w'')) i) = Some (e, sc, CalPending)"
      using sp e(4,7,8) b(1) by (simp add: calibration_trigger_def call_fetch get_execution_def found_def timed_def store_op_eq
          create_calibration_job_def Let_def stored_entries_def)
    then show ?thesis using sp b e(8) c Inr by (simp add: stored_entries_def)
  qed
qed

section \<open>A search at work\<close>







text \<open>The rate of a step is rounded up, past a fractional ceiling of the search.\<close>

lemma step_exceeds_max:
  "let sp = demo_spec\<lparr>sp_seed_qps := 21/2, sp_max_qps := 43/4\<rparr>
   in spec_validate sp = None \<and> ac_next_qps (snd (start sp)) \<le> sp_max_qps sp \<and>
      sp_max_qps sp < of_int (en_throughput (step_entry demo_entry (ac_next_qps (snd (start sp))) 30 0))"
  by code_simp

end
