(* ===== verification/Spec2Isabelle.thy ===== *)
theory Spec2Isabelle
  imports Load_Plan Calibration Report_Totals Criteria Catalog Ledger Cluster Calendar Campaign Progress Quota Campaign_App Metrics_App Calibration_Search
begin

text \<open>
  Honryu is the control plane of a load-testing platform, written in Go. A user describes scenarios and
  an execution that runs them with a load profile. Deploying an execution compiles the profile into
  configurations for the load engine (Taurus) and puts one pod per shard on one or several clusters;
  triggering it reserves capacity for its tenant and opens a run; the pods push measurements, which are
  accumulated and become a report when the run completes or is stopped. Around this there are quotas,
  campaigns that freeze projects while their own tests run, schedules that book capacity in advance
  and fire executions, background sweeps that clean up, and a calibration search that finds the rate
  one engine can sustain by running tests at varying rates.

  This development models the domain packages, the in-memory implementations of the storage ports, and
  the application services over them, and proves what they promise. File names below are under \<open>src\<close>.

  \<^bold>\<open>How code is represented.\<close> A struct is a record, an enumeration a datatype or its string constants, a Go
  map an association list with distinct keys (\<open>Honryu_Prelude\<close>: \<open>mget\<close>, \<open>mput\<close>, \<open>mdel\<close>), \<open>time.Time\<close> and
  \<open>time.Duration\<close> integers of nanoseconds. Arithmetic on Go's \<open>int\<close> that may overflow is wrapped by
  \<open>i64\<close>; identifiers and counters that only ever grow by one are unbounded. A float64 is the rational
  it denotes and every operation rounds to 53 bits (\<open>Go_Float\<close>); infinities, NaN and subnormals have no
  counterpart. An operation that may fail is a function from a state to an error or a result and a new
  state (\<open>act\<close>), composed by \<open>call\<close> (return on error), \<open>attempt\<close> (look at the error), \<open>besteffort\<close>
  (log and go on) and \<open>foreach\<close>; errors are values of \<open>port_err\<close> and \<open>app_err\<close>, so every early return
  of the source is a branch. The state of the services is the record \<open>world\<close> (\<open>World\<close>): one field per
  store, and the clock. A service call is atomic; the locks of the source are what makes it so.

  \<^bold>\<open>Domain.\<close>
  \<^item> \<open>Load_Mode\<close>: \<open>internal/domain/loadmode\<close>. Ramp-up, the staircase table and users by Little's law: the
    float computation agrees with the exact ceiling, rates are monotone and end at the target.
  \<^item> \<open>Load_Plan\<close>: \<open>loadprofile\<close>, \<open>shard\<close>, \<open>run\<close>, \<open>execution\<close>, \<open>taurus/executor.go\<close>. Dividing an entry
    among pods conserves users and rate; when a deployed profile may be triggered; what is billed.
  \<^item> \<open>Metrics\<close>, \<open>Run_Report\<close>, \<open>Report_View\<close>, \<open>Report_Totals\<close>: \<open>metrics\<close> and \<open>report\<close>. Histograms and
    percentiles, the accumulator, its snapshot, and the report. The accumulator is compared up to the
    order Go visits maps in; saving and restoring it does not show, totals are those of the rows, and
    percentiles are exact nearest ranks.
  \<^item> \<open>Criteria\<close>: \<open>report/criteria.go\<close>, \<open>compile/criteria_rewrite.go\<close>, \<open>calibration/criterion.go\<close>. The
    regular expression is a matcher written out on ASCII; a criterion fails exactly when the report
    breaks it.
  \<^item> \<open>Compile\<close>: \<open>scenario\<close>, \<open>taurus/taurus.go\<close>, \<open>compile\<close>, \<open>telemetry\<close>. When compilation succeeds, and
    that the configuration carries the load of the profile and the headers. YAML is not modelled: a
    configuration is its record.
  \<^item> \<open>Calibration\<close>: \<open>calibration\<close> and \<open>capacityprofile\<close>. The search is bounded, terminates within its step
    budget and its verdict is what its steps showed.
  \<^item> \<open>Threshold\<close>: \<open>threshold\<close>, its store and \<open>thresholdapp\<close>.

  \<^bold>\<open>Stores\<close>, from \<open>internal/ports/fake\<close>, whose behaviour the contract tests require of every backend:
  \<open>Run_Store\<close> (runs, orphan completions, launches), \<open>Catalog\<close> (projects, scenarios, files, executions,
  profiles), \<open>Ledger\<close> (reservations and ceilings), \<open>Cluster\<close> (scheduler and object store), \<open>Calendar\<close>
  (schedules and occurrences, with the expansion of \<open>domain/schedule\<close>), \<open>Campaign\<close>, \<open>Progress\<close> (sequenced
  absorption of batches, reports, series) and \<open>Cal_Store\<close>. Each has a well-formedness invariant kept by
  its operations; run ids are unique, and a batch is absorbed exactly once however often it is sent.
  Where Go sorts with the unstable \<open>sort.Slice\<close>, or visits a map, the model sorts stably or takes the
  map's list order; this is one of the orders the code may show, and matters only between equal keys.

  \<^bold>\<open>Services.\<close>
  \<^item> \<open>Quota\<close>: \<open>quotaapp\<close>. Admission within the ceiling; reclaiming from executions past their window.
    How an execution is stopped is the interface \<open>stopper\<close>, extended to \<open>effective_stopper\<close>; the
    lifecycle's own stop is shown to satisfy it in \<open>Lifecycle_Frame\<close>.
  \<^item> \<open>Campaign_App\<close>: \<open>campaignapp\<close>. The freeze, the go verdict, the comparison with a baseline.
  \<^item> \<open>Metrics_App\<close>: \<open>metricsapp\<close>. Ingestion, completion and finalisation: from what the pods push, in any
    interleaving and with repetitions, to the stored report.
  \<^item> \<open>Deployment\<close>, \<open>Deploy_Load\<close>: the first half of \<open>lifecycleapp/service.go\<close> (files, compilation per pod,
    \<open>Deploy\<close>, status), and that the deployed engines carry the entry's load.
  \<^item> \<open>Lifecycle\<close>: the second half (\<open>Trigger\<close>, \<open>Stop\<close>, \<open>Purge\<close>, \<open>ReapIdle\<close>, \<open>Reconcile\<close>,
    \<open>ReconcileAbandoned\<close>) and the campaign drain of \<open>cmd/scheduler\<close>. \<open>Lifecycle_Frame\<close> says what these
    operations leave alone, as locales of closure conditions on an invariant, each extending the one
    before (\<open>finalize_invariant\<close>, \<open>run_end_invariant\<close>, \<open>engine_invariant\<close>, and in \<open>Control_Plane\<close>
    \<open>sweep_invariant\<close>, \<open>start_invariant\<close>, \<open>control_invariant\<close>), interpreted once per invariant.
    \<open>Lifecycle_Safety\<close>, \<open>Lifecycle_Stop\<close>, \<open>Lifecycle_Start\<close> and \<open>Lifecycle_Sweeps\<close> hold the properties
    of starting, stopping, reclaiming and sweeping.
  \<^item> \<open>Control_Plane\<close>: all of these as one step relation \<open>cp_step\<close>. Every reachable state is well formed,
    and seen from one execution every step is one of a three-state phase machine.
  \<^item> \<open>Schedule_App\<close>, \<open>Firing\<close>: \<open>scheduleapp\<close> and the firing loop of \<open>cmd/scheduler\<close>. What creating a
    schedule books, that the horizon is extended without gaps, that a claim is exclusive, and that
    waiting for engines ends.
  \<^item> \<open>Calibration_App\<close>, \<open>Calibration_Search\<close>: \<open>calibrationapp\<close>. A tick with real runs refines the pure
    search of \<open>Calibration\<close>.

  \<^bold>\<open>Parameters.\<close> The cron library is a function from an expression to its next-activation function
  (\<open>cron\<close>), assumed to step strictly forward (\<open>cron_advances\<close>). Sleeping is a function \<open>nap\<close> giving the
  state the rest of the system left, assumed to advance the clock (\<open>nap_advances\<close>); for the calibration
  also not to touch the job being advanced (\<open>nap_quiet\<close>). The process context is a predicate on
  instants. \<open>lifecycle_env\<close> holds the engine images, the resource parser, the encoding of configurations
  and which optional services a binary has attached. Random trace ids and scenario fingerprints are
  arguments. A faulty store is modelled where the in-memory one can be told to fail (fields \<open>..._err\<close>:
  marking a scenario running, absorbing a batch, saving a report, uploading and others). Each property under such a hypothesis has a witness on concrete
  functions.

  \<^bold>\<open>Loops.\<close> Loops over data are structural recursions. The stepping of a cron expression, the wait for
  engines, the wait for a report and the expansion of schedules may run forever in principle; they are
  partial functions with an option result, and the properties show that they do return. No fuel is
  used. The calibration search is a recursion over the steps already recorded, bounded by its budget.

  \<^bold>\<open>Not modelled.\<close> The HTTP API, the MySQL repositories, the Kubernetes and storage adapters, identity
  providers and encryption, which are input and output around the modelled services; the sidecar in
  the pods, of which only the numbering of what it sends is assumed; encodings (JSON, YAML, XML, SQL);
  texts of errors beyond their sentinels; the wiring and ticker loops of the binaries; goroutines,
  where the source starts them over disjoint keys; and the services beside the run path: scenario,
  execution, project, tenant, cluster and user administration, authorization, objectives, digests,
  webhooks, recommendations, charts and the usage summary.
\<close>

end
